(* ===== verification/Prelude.thy ===== *)
theory Prelude
  imports Main "HOL-Library.Char_ord" "HOL-Library.List_Lexorder"
begin

text \<open>
  Shared vocabulary of the development: the values JavaScript code throws, results of fallible
  code, dates (milliseconds since the epoch, or the invalid date that arithmetic with
  \<open>undefined\<close> produces), ASCII lower-casing, and the generic lemmas on lists that several
  components use.
\<close>

section \<open>Errors and results\<close>

text \<open>
  What the code throws: a \<open>StorageError\<close> (HTTP status, storage error code, message), or one of
  the built-in error classes, which the server answers with status 500. The request identifier
  that every \<open>StorageError\<close> carries is not modelled.
\<close>

datatype js_error =
    StorageError (statusCode: nat) (storageErrorCode: string) (storageErrorMessage: string)
  | RangeError
  | TypeError
  | GenericError

type_synonym 'a result = "js_error + 'a"

definition bind_result :: "'a result \<Rightarrow> ('a \<Rightarrow> 'b result) \<Rightarrow> 'b result" where
  "bind_result m f = (case m of Inl e \<Rightarrow> Inl e | Inr x \<Rightarrow> f x)"

fun is_internal_error :: "js_error \<Rightarrow> bool" where
  "is_internal_error (StorageError _ _ _) = False"
| "is_internal_error RangeError = True"
| "is_internal_error TypeError = True"
| "is_internal_error GenericError = True"

fun is_ok :: "'a result \<Rightarrow> bool" where
  "is_ok (Inl _) = False"
| "is_ok (Inr _) = True"

named_theorems error_defs \<open>definitions of the storage errors\<close>

section \<open>Dates\<close>

datatype js_date = Valid int | InvalidDate

type_synonym date = js_date

fun date_lt :: "js_date \<Rightarrow> js_date \<Rightarrow> bool" where
  "date_lt (Valid a) (Valid b) = (a < b)"
| "date_lt _ _ = False"

fun date_ge :: "js_date \<Rightarrow> js_date \<Rightarrow> bool" where
  "date_ge (Valid a) (Valid b) = (a \<ge> b)"
| "date_ge _ _ = False"

fun date_le :: "js_date \<Rightarrow> js_date \<Rightarrow> bool" where
  "date_le (Valid a) (Valid b) = (a \<le> b)"
| "date_le _ _ = False"

text \<open>\<open>new Date(now.getTime() + seconds * 1000)\<close>, where the seconds may be \<open>undefined\<close>.\<close>

definition date_plus_seconds :: "js_date \<Rightarrow> int option \<Rightarrow> js_date" where
  "date_plus_seconds now secs =
     (case (now, secs) of (Valid t, Some s) \<Rightarrow> Valid (t + s * 1000) | _ \<Rightarrow> InvalidDate)"

text \<open>\<open>minDate\<close> of \<open>common/utils/utils.ts\<close>; its first argument may be \<open>undefined\<close>,
  in which case the comparison is false and \<open>undefined\<close> is returned.\<close>

definition minDate :: "js_date option \<Rightarrow> js_date \<Rightarrow> js_date option" where
  "minDate date1 date2 =
     (case date1 of None \<Rightarrow> None | Some d \<Rightarrow> if date_lt date2 d then Some date2 else Some d)"

text \<open>\<open>setMilliseconds(0)\<close>: dates are compared with a precision of one second.\<close>

fun truncate_ms :: "js_date \<Rightarrow> js_date" where
  "truncate_ms (Valid t) = Valid (t - t mod 1000)"
| "truncate_ms InvalidDate = InvalidDate"

section \<open>Strings\<close>

definition lower_char :: "char \<Rightarrow> char" where
  "lower_char c = (let n = of_char c :: nat in if 65 \<le> n \<and> n \<le> 90 then char_of (n + 32) else c)"

definition toLowerCase :: "string \<Rightarrow> string" where
  "toLowerCase = map lower_char"

text \<open>\<open>a || b\<close> on strings: the empty string is falsy.\<close>

definition str_or :: "string \<Rightarrow> string \<Rightarrow> string" where
  "str_or a b = (if a = '''' then b else a)"

definition startsWith :: "string \<Rightarrow> string \<Rightarrow> bool" where
  "startsWith s p = (take (length p) s = p)"

definition endsWith :: "string \<Rightarrow> string \<Rightarrow> bool" where
  "endsWith s p = startsWith (rev s) (rev p)"

text \<open>\<open>s.split(c)\<close> for a separator of one character.\<close>

fun split_char :: "char \<Rightarrow> string \<Rightarrow> string list" where
  "split_char c [] = [[]]"
| "split_char c (x # xs) =
     (if x = c then [] # split_char c xs
      else (case split_char c xs of [] \<Rightarrow> [[x]] | w # ws \<Rightarrow> (x # w) # ws))"

section \<open>Generic lemmas\<close>

lemma bind_result_simps [simp]:
  "bind_result (Inl e) f = Inl e" "bind_result (Inr x) f = f x"
  by (simp_all add: bind_result_def)

lemma bind_result_cong [fundef_cong]:
  assumes "m = m'" and "\<And>x. m' = Inr x \<Longrightarrow> f x = g x"
  shows "bind_result m f = bind_result m' g"
  using assms by (cases m') auto

lemma bind_result_Inr_iff:
  "bind_result m f = Inr y \<longleftrightarrow> (\<exists>x. m = Inr x \<and> f x = Inr y)"
  by (cases m) auto

lemma is_ok_iff: "is_ok r \<longleftrightarrow> (\<exists>x. r = Inr x)"
  by (cases r) auto

lemma lower_char_idem [simp]: "lower_char (lower_char c) = lower_char c"
  by (cases "65 \<le> (of_char c :: nat) \<and> (of_char c :: nat) \<le> 90")
    (auto simp: lower_char_def Let_def)

lemma toLowerCase_idem [simp]: "toLowerCase (toLowerCase s) = toLowerCase s"
  by (simp add: toLowerCase_def)

lemma toLowerCase_length [simp]: "length (toLowerCase s) = length s"
  by (simp add: toLowerCase_def)

lemma str_or_nonempty: "b \<noteq> '''' \<Longrightarrow> str_or a b \<noteq> ''''"
  by (simp add: str_or_def)

lemma split_char_not_Nil [simp]: "split_char c s \<noteq> []"
  by (induction s) (auto split: list.splits)

lemma date_plus_seconds_Valid [simp]:
  "date_plus_seconds (Valid t) (Some s) = Valid (t + s * 1000)"
  by (simp add: date_plus_seconds_def)

lemma date_lt_not_ge: "date_lt a b \<Longrightarrow> \<not> date_ge a b"
  by (cases a; cases b) auto

end
