(* ===== verification/Storage_Errors.thy ===== *)
theory Storage_Errors
  imports Prelude
begin

text \<open>
  The errors of \<open>blob/errors/StorageErrorFactory.ts\<close> that the modelled code throws: the HTTP
  status, the storage error code and the message of each factory method.
\<close>

definition getInvalidLeaseDuration :: js_error where
  "getInvalidLeaseDuration = StorageError 400 ''InvalidHeaderValue''
     ''The value for one of the HTTP headers is not in the correct format.''"

definition getInvalidLeaseBreakPeriod :: js_error where
  "getInvalidLeaseBreakPeriod = StorageError 400 ''InvalidHeaderValue''
     ''The value for one of the HTTP headers is not in the correct format.''"

definition getLeaseAlreadyPresent :: js_error where
  "getLeaseAlreadyPresent = StorageError 409 ''LeaseAlreadyPresent''
     ''There is already a lease present.''"

definition getLeaseIsBreakingAndCannotBeAcquired :: js_error where
  "getLeaseIsBreakingAndCannotBeAcquired = StorageError 409 ''LeaseIsBreakingAndCannotBeAcquired''
     ''There is already a breaking lease, and can't  be acquired.''"

definition getLeaseNotPresentWithLeaseOperation :: js_error where
  "getLeaseNotPresentWithLeaseOperation = StorageError 409 ''LeaseNotPresentWithLeaseOperation''
     ''There is currently no lease on the container or blob.''"

definition getLeaseIdMismatchWithLeaseOperation :: js_error where
  "getLeaseIdMismatchWithLeaseOperation = StorageError 409 ''LeaseIdMismatchWithLeaseOperation''
     ''The lease ID specified did not match the lease ID for the container or blob.''"

definition getLeaseIsBrokenAndCannotBeRenewed :: js_error where
  "getLeaseIsBrokenAndCannotBeRenewed = StorageError 409 ''LeaseIsBrokenAndCannotBeRenewed''
     ''The lease ID matched, but the lease has been broken explicitly and cannot be renewed.''"

definition getLeaseIsBreakingAndCannotBeChanged :: js_error where
  "getLeaseIsBreakingAndCannotBeChanged = StorageError 409 ''LeaseIsBreakingAndCannotBeChanged''
     ''The lease ID matched, but the lease is currently in breaking state and cannot be changed.''"

definition getContainerLeaseIdMissing :: js_error where
  "getContainerLeaseIdMissing = StorageError 412 ''LeaseIdMissing''
     ''There is currently a lease on the container and no lease ID was specified in the request.''"

definition getContainerLeaseIdMismatchWithContainerOperation :: js_error where
  "getContainerLeaseIdMismatchWithContainerOperation = StorageError 412 ''LeaseIdMismatchWithContainerOperation''
     ''The lease ID specified did not match the lease ID for the container.''"

definition getContainerLeaseLost :: js_error where
  "getContainerLeaseLost = StorageError 412 ''LeaseNotPresentWithContainerOperation''
     ''A lease ID was specified, but the lease for the container has expired.''"

definition getBlobLeaseIdMissing :: js_error where
  "getBlobLeaseIdMissing = StorageError 412 ''LeaseIdMissing''
     ''There is currently a lease on the blob and no lease ID was specified in the request.''"

definition getBlobLeaseIdMismatchWithBlobOperation :: js_error where
  "getBlobLeaseIdMismatchWithBlobOperation = StorageError 412 ''LeaseIdMismatchWithBlobOperation''
     ''The lease ID specified did not match the lease ID for the blob.''"

definition getBlobLeaseLost :: js_error where
  "getBlobLeaseLost = StorageError 412 ''LeaseNotPresentWithBlobOperation''
     ''A lease ID was specified, but the lease for the blob has expired.''"

definition getMultipleConditionHeadersNotSupported :: js_error where
  "getMultipleConditionHeadersNotSupported = StorageError 400 ''MultipleConditionHeadersNotSupported''
     ''Multiple condition headers are not supported.''"

definition getConditionNotMet :: js_error where
  "getConditionNotMet = StorageError 412 ''ConditionNotMet''
     ''The condition specified using HTTP conditional header(s) is not met.''"

definition getSequenceNumberConditionNotMet :: js_error where
  "getSequenceNumberConditionNotMet = StorageError 412 ''SequenceNumberConditionNotMet''
     ''The condition specified using HTTP conditional header(s) is not met.''"

definition getNotModified :: js_error where
  "getNotModified = StorageError 304 ''ConditionNotMet''
     ''The condition specified using HTTP conditional header(s) is not met.''"

definition getUnsatisfiableCondition :: js_error where
  "getUnsatisfiableCondition = StorageError 400 ''UnsatisfiableCondition''
     ''The request includes an unsatisfiable condition for this operation.''"

definition getInvalidHeaderValue :: js_error where
  "getInvalidHeaderValue = StorageError 400 ''InvalidHeaderValue''
     ''The value for one of the HTTP headers is not in the correct format.''"

definition getInvalidPageRange :: js_error where
  "getInvalidPageRange = StorageError 416 ''Requested Range Not Satisfiable''
     ''The page range specified is invalid.''"

definition getContainerNotFound :: js_error where
  "getContainerNotFound = StorageError 404 ''ContainerNotFound''
     ''The specified container does not exist.''"

definition getContainerAlreadyExists :: js_error where
  "getContainerAlreadyExists = StorageError 409 ''ContainerAlreadyExists''
     ''The specified container already exists.''"

definition getBlobNotFound :: js_error where
  "getBlobNotFound = StorageError 404 ''BlobNotFound''
     ''The specified blob does not exist.''"

definition getBlobAlreadyExists :: js_error where
  "getBlobAlreadyExists = StorageError 409 ''BlobAlreadyExists''
     ''The specified blob already exists.''"

definition getBlobArchived :: js_error where
  "getBlobArchived = StorageError 409 ''BlobArchived''
     ''This operation is not permitted on an archived blob.''"

definition getSnapshotsPresent :: js_error where
  "getSnapshotsPresent = StorageError 409 ''SnapshotsPresent''
     ''This operation is not permitted while the blob has snapshots.''"

definition getBlobSnapshotsPresent :: js_error where
  "getBlobSnapshotsPresent = StorageError 400 ''SnapshotsPresent''
     ''This operation is not permitted because the blob is snapshot.''"

definition getBlobInvalidBlobType :: js_error where
  "getBlobInvalidBlobType = StorageError 409 ''InvalidBlobType''
     ''The blob type is invalid for this operation.''"

definition getInvalidBlobOrBlock :: js_error where
  "getInvalidBlobOrBlock = StorageError 400 ''InvalidBlobOrBlock''
     ''The specified blob or block content is invalid.''"

definition getBlobSealed :: js_error where
  "getBlobSealed = StorageError 409 ''BlobIsSealed''
     ''The specified blob is sealed, and its contents can't be modified unless the blob is re-created after a delete.''"

definition getBlockCountExceedsLimit :: js_error where
  "getBlockCountExceedsLimit = StorageError 409 ''BlockCountExceedsLimit''
     ''The committed block count cannot exceed the maximum limit of 50,000 blocks.''"

definition getAppendPositionConditionNotMet :: js_error where
  "getAppendPositionConditionNotMet = StorageError 412 ''AppendPositionConditionNotMet''
     ''The append position condition specified was not met.''"

definition getMaxBlobSizeConditionNotMet :: js_error where
  "getMaxBlobSizeConditionNotMet = StorageError 412 ''MaxBlobSizeConditionNotMet''
     ''The max blob size condition specified was not met.''"

definition getInvalidBlockList :: js_error where
  "getInvalidBlockList = StorageError 400 ''InvalidBlockList''
     ''The specified block list is invalid.''"

definition getAccessTierNotSupportedForBlobType :: js_error where
  "getAccessTierNotSupportedForBlobType = StorageError 400 ''AccessTierNotSupportedForBlobType''
     ''The access tier is not supported for this blob type.''"

definition getTagsTooLarge :: js_error where
  "getTagsTooLarge = StorageError 400 ''TagsTooLarge''
     ''The tags specified exceed the maximum permissible limit.''"

definition getEmptyTagName :: js_error where
  "getEmptyTagName = StorageError 400 ''EmptyTagName''
     ''The name of one of the tag key-value pairs is empty.''"

definition getInvalidTag :: js_error where
  "getInvalidTag = StorageError 400 ''DuplicateTagNames''
     ''The tags specified are invalid. It contains characters that are not permitted.''"

definition getInvalidOperation :: "string \<Rightarrow> js_error" where
  "getInvalidOperation message = StorageError 400 ''InvalidOperation'' message"

lemmas storage_error_defs [error_defs] =
  getInvalidLeaseDuration_def
  getInvalidLeaseBreakPeriod_def
  getLeaseAlreadyPresent_def
  getLeaseIsBreakingAndCannotBeAcquired_def
  getLeaseNotPresentWithLeaseOperation_def
  getLeaseIdMismatchWithLeaseOperation_def
  getLeaseIsBrokenAndCannotBeRenewed_def
  getLeaseIsBreakingAndCannotBeChanged_def
  getContainerLeaseIdMissing_def
  getContainerLeaseIdMismatchWithContainerOperation_def
  getContainerLeaseLost_def
  getBlobLeaseIdMissing_def
  getBlobLeaseIdMismatchWithBlobOperation_def
  getBlobLeaseLost_def
  getMultipleConditionHeadersNotSupported_def
  getConditionNotMet_def
  getSequenceNumberConditionNotMet_def
  getNotModified_def
  getUnsatisfiableCondition_def
  getInvalidHeaderValue_def
  getInvalidPageRange_def
  getContainerNotFound_def
  getContainerAlreadyExists_def
  getBlobNotFound_def
  getBlobAlreadyExists_def
  getBlobArchived_def
  getSnapshotsPresent_def
  getBlobSnapshotsPresent_def
  getBlobInvalidBlobType_def
  getInvalidBlobOrBlock_def
  getBlobSealed_def
  getBlockCountExceedsLimit_def
  getAppendPositionConditionNotMet_def
  getMaxBlobSizeConditionNotMet_def
  getInvalidBlockList_def
  getAccessTierNotSupportedForBlobType_def
  getTagsTooLarge_def
  getEmptyTagName_def
  getInvalidTag_def
  getInvalidOperation_def

end
