(* ===== verification/Tag_Query.thy ===== *)
theory Tag_Query
  imports Storage_Errors
begin

text \<open>
  The query language over blob tags, \<open>blob/persistence/QueryInterpreter\<close>: the recursive descent
  parser (\<open>QueryParser.ts\<close> with its \<open>ParserContext\<close>), the query nodes and their
  evaluation (\<open>QueryNodes/*.ts\<close>) and \<open>QueryInterpreter.ts\<close>. The same parser serves the
  \<open>where\<close> parameter of a search, with limits on the number and combination of the tags, and the
  \<open>x-ms-if-tags\<close> header of a conditional request, where a header name is given and \<open>or\<close> and
  \<open><>\<close> are allowed.
\<close>

section \<open>Query nodes\<close>

datatype IQueryNode =
    KeyNode string
  | ConstantNode string
  | EqualsNode IQueryNode IQueryNode
  | NotEqualsNode IQueryNode IQueryNode
  | GreaterThanNode IQueryNode IQueryNode
  | GreaterThanEqualNode IQueryNode IQueryNode
  | LessThanNode IQueryNode IQueryNode
  | LessThanEqualNode IQueryNode IQueryNode
  | AndNode IQueryNode IQueryNode
  | OrNode IQueryNode IQueryNode
  | ExpressionNode IQueryNode

text \<open>The value of a property of a JavaScript object: a string, nothing, or a built-in object that is
  inherited from \<open>Object.prototype\<close>, given by its string form.\<close>

datatype js_value = Undefined | Str string | Native string

definition objectPrototypeKeys :: "string list" where
  "objectPrototypeKeys =
     [''constructor'', ''__defineGetter__'', ''__defineSetter__'', ''hasOwnProperty'',
      ''__lookupGetter__'', ''__lookupSetter__'', ''isPrototypeOf'', ''propertyIsEnumerable'',
      ''toString'', ''valueOf'', ''__proto__'', ''toLocaleString'']"

definition native_string :: "string \<Rightarrow> string" where
  "native_string k =
     (if k = ''__proto__'' then ''[object Object]''
      else if k = ''constructor'' then ''function Object() { [native code] }''
      else ''function '' @ k @ ''() { [native code] }'')"

text \<open>The object of tags a query is evaluated on, by its own properties.\<close>

type_synonym tag_object = "string \<rightharpoonup> string"

definition get_property :: "tag_object \<Rightarrow> string \<Rightarrow> js_value" where
  "get_property tags k =
     (case tags k of Some v \<Rightarrow> Str v
      | None \<Rightarrow> if k \<in> set objectPrototypeKeys then Native (native_string k) else Undefined)"

text \<open>\<open>tags[key] = value\<close>: assigning a string to \<open>__proto__\<close> has no effect.\<close>

definition set_property :: "string \<Rightarrow> string \<Rightarrow> tag_object \<Rightarrow> tag_object" where
  "set_property k v tags = (if k = ''__proto__'' then tags else tags(k \<mapsto> v))"

record TagContent =
  tc_key :: "string option"
  tc_value :: js_value

fun to_primitive :: "js_value \<Rightarrow> string" where
  "to_primitive (Str s) = s"
| "to_primitive (Native s) = s"
| "to_primitive Undefined = ''undefined''"

text \<open>The relational operators of the nodes, guarded by the tests for \<open>undefined\<close>.\<close>

definition defined_and :: "(string \<Rightarrow> string \<Rightarrow> bool) \<Rightarrow> js_value \<Rightarrow> js_value \<Rightarrow> bool" where
  "defined_and r a b \<longleftrightarrow> a \<noteq> Undefined \<and> b \<noteq> Undefined \<and> r (to_primitive a) (to_primitive b)"

text \<open>The body the six comparison nodes share: compare the first entries of both sides and return
  the side that carries the key. Reading a field of the first entry of an empty array is a
  \<open>TypeError\<close>.\<close>

definition compare_content ::
  "(js_value \<Rightarrow> js_value \<Rightarrow> bool) \<Rightarrow> TagContent list \<Rightarrow> TagContent list \<Rightarrow> TagContent list result" where
  "compare_content test leftContent rightContent =
     (case (leftContent, rightContent) of
        (l # _, r # _) \<Rightarrow>
          Inr (if test (tc_value l) (tc_value r)
               then (if tc_key l \<noteq> None then leftContent else rightContent) else [])
      | _ \<Rightarrow> Inl TypeError)"

definition eval_both ::
  "TagContent list result \<Rightarrow> TagContent list result \<Rightarrow>
   (TagContent list \<Rightarrow> TagContent list \<Rightarrow> TagContent list result) \<Rightarrow> TagContent list result" where
  "eval_both l r f = bind_result l (\<lambda>leftContent. bind_result r (\<lambda>rightContent. f leftContent rightContent))"

text \<open>The bodies of the nodes' \<open>evaluate\<close> methods on the values of their operands.\<close>

definition EqualsNode_evaluate :: "TagContent list \<Rightarrow> TagContent list \<Rightarrow> TagContent list result" where
  "EqualsNode_evaluate = compare_content (=)"

definition NotEqualsNode_evaluate :: "TagContent list \<Rightarrow> TagContent list \<Rightarrow> TagContent list result" where
  "NotEqualsNode_evaluate = compare_content (\<lambda>a b. a \<noteq> Undefined \<and> b \<noteq> Undefined \<and> a \<noteq> b)"

definition GreaterThanNode_evaluate :: "TagContent list \<Rightarrow> TagContent list \<Rightarrow> TagContent list result" where
  "GreaterThanNode_evaluate = compare_content (defined_and (>))"

definition GreaterThanEqualNode_evaluate :: "TagContent list \<Rightarrow> TagContent list \<Rightarrow> TagContent list result" where
  "GreaterThanEqualNode_evaluate = compare_content (defined_and (\<ge>))"

definition LessThanNode_evaluate :: "TagContent list \<Rightarrow> TagContent list \<Rightarrow> TagContent list result" where
  "LessThanNode_evaluate = compare_content (defined_and (<))"

definition LessThanEqualNode_evaluate :: "TagContent list \<Rightarrow> TagContent list \<Rightarrow> TagContent list result" where
  "LessThanEqualNode_evaluate = compare_content (defined_and (\<le>))"

definition AndNode_evaluate :: "TagContent list \<Rightarrow> TagContent list \<Rightarrow> TagContent list result" where
  "AndNode_evaluate leftContent rightContent =
     Inr (if leftContent \<noteq> [] \<and> rightContent \<noteq> [] then leftContent @ rightContent else [])"

definition OrNode_evaluate :: "TagContent list \<Rightarrow> TagContent list \<Rightarrow> TagContent list result" where
  "OrNode_evaluate leftContent rightContent =
     Inr (if leftContent \<noteq> [] \<or> rightContent \<noteq> [] then leftContent @ rightContent else [])"

fun evaluate :: "IQueryNode \<Rightarrow> tag_object \<Rightarrow> TagContent list result" where
  "evaluate (KeyNode identifier) ctx =
     Inr [\<lparr>tc_key = Some identifier, tc_value = get_property ctx identifier\<rparr>]"
| "evaluate (ConstantNode v) ctx = Inr [\<lparr>tc_key = None, tc_value = Str v\<rparr>]"
| "evaluate (EqualsNode l r) ctx = eval_both (evaluate l ctx) (evaluate r ctx) EqualsNode_evaluate"
| "evaluate (NotEqualsNode l r) ctx = eval_both (evaluate l ctx) (evaluate r ctx) NotEqualsNode_evaluate"
| "evaluate (GreaterThanNode l r) ctx = eval_both (evaluate l ctx) (evaluate r ctx) GreaterThanNode_evaluate"
| "evaluate (GreaterThanEqualNode l r) ctx = eval_both (evaluate l ctx) (evaluate r ctx) GreaterThanEqualNode_evaluate"
| "evaluate (LessThanNode l r) ctx = eval_both (evaluate l ctx) (evaluate r ctx) LessThanNode_evaluate"
| "evaluate (LessThanEqualNode l r) ctx = eval_both (evaluate l ctx) (evaluate r ctx) LessThanEqualNode_evaluate"
| "evaluate (AndNode l r) ctx = eval_both (evaluate l ctx) (evaluate r ctx) AndNode_evaluate"
| "evaluate (OrNode l r) ctx = eval_both (evaluate l ctx) (evaluate r ctx) OrNode_evaluate"
| "evaluate (ExpressionNode c) ctx = evaluate c ctx"

lemmas node_evaluate_defs =
  EqualsNode_evaluate_def NotEqualsNode_evaluate_def GreaterThanNode_evaluate_def GreaterThanEqualNode_evaluate_def 
  LessThanNode_evaluate_def LessThanEqualNode_evaluate_def AndNode_evaluate_def OrNode_evaluate_def

section \<open>The parser context\<close>

datatype ComparisonType = Equal | Greater | Less | NotEqual

text \<open>The fields of \<open>ParserContext\<close> (query, position) and of \<open>QueryParser\<close>; the entries of
  \<open>comparisonNodes\<close> repeat their key, so only the comparisons are kept.\<close>

record QueryParser =
  query :: string
  tokenPosition :: nat
  conditionHeader :: "string option"
  comparisonNodes :: "string \<rightharpoonup> ComparisonType list"
  comparisonCount :: nat

definition new_QueryParser :: "string \<Rightarrow> string option \<Rightarrow> QueryParser" where
  "new_QueryParser q header = \<lparr>query = q, tokenPosition = 0, conditionHeader = header,
     comparisonNodes = Map.empty, comparisonCount = 0\<rparr>"

text \<open>\<open>if (this.conditionHeader)\<close>\<close>

definition has_header :: "QueryParser \<Rightarrow> bool" where
  "has_header p \<longleftrightarrow> (case conditionHeader p of None \<Rightarrow> False | Some h \<Rightarrow> h \<noteq> '''')"

definition rest :: "QueryParser \<Rightarrow> string" where
  "rest p = drop (tokenPosition p) (query p)"

definition peek_of :: "string \<Rightarrow> char option" where
  "peek_of s = (case s of [] \<Rightarrow> None | c # _ \<Rightarrow> Some c)"

definition peek :: "QueryParser \<Rightarrow> char option" where
  "peek p = peek_of (rest p)"

definition advance :: "nat \<Rightarrow> QueryParser \<Rightarrow> QueryParser" where
  "advance n p = p\<lparr>tokenPosition := tokenPosition p + n\<rparr>"

text \<open>Characters that \<open>trim\<close> removes.\<close>

definition is_space :: "char \<Rightarrow> bool" where
  "is_space c = ((of_char c :: nat) \<in> {9, 10, 11, 12, 13, 32, 160})"

definition skipWhitespace :: "QueryParser \<Rightarrow> QueryParser" where
  "skipWhitespace p = advance (length (takeWhile is_space (rest p))) p"

definition consume :: "string \<Rightarrow> bool \<Rightarrow> QueryParser \<Rightarrow> bool \<times> QueryParser" where
  "consume sequence ignoreCase p =
     (let normalize = (if ignoreCase then toLowerCase else (\<lambda>s. s)) in
      if normalize (take (length sequence) (rest p)) = normalize sequence
      then (True, advance (length sequence) p) else (False, p))"

fun consumeOneOf :: "bool \<Rightarrow> string list \<Rightarrow> QueryParser \<Rightarrow> string option \<times> QueryParser" where
  "consumeOneOf ignoreCase [] p = (None, p)"
| "consumeOneOf ignoreCase (opt # opts) p =
     (case consume opt ignoreCase p of
        (True, p') \<Rightarrow> (Some opt, p')
      | (False, p') \<Rightarrow> consumeOneOf ignoreCase opts p')"

text \<open>The loop of \<open>take\<close> with a predicate: the number of characters it takes. A falsy state is
  \<open>None\<close>.\<close>

fun take_loop ::
  "(char \<Rightarrow> char option \<Rightarrow> 's option \<Rightarrow> 's option) \<Rightarrow> 's option \<Rightarrow> string \<Rightarrow> nat" where
  "take_loop predicate state [] = 0"
| "take_loop predicate state (c # cs) =
     (case predicate c (peek_of cs) state of
        None \<Rightarrow> 0
      | Some s \<Rightarrow> Suc (take_loop predicate (Some s) cs))"

definition take_token ::
  "(char \<Rightarrow> char option \<Rightarrow> 's option \<Rightarrow> 's option) \<Rightarrow> QueryParser \<Rightarrow> string \<times> QueryParser" where
  "take_token predicate p =
     (let n = take_loop predicate None (rest p) in (take n (rest p), advance n p))"

text \<open>Decimal numerals and the text a template literal shows for \<open>peek()\<close>.\<close>

fun show_nat :: "nat \<Rightarrow> string" where
  "show_nat n = (if n < 10 then [char_of (48 + n)] else show_nat (n div 10) @ [char_of (48 + n mod 10)])"

definition show_peek :: "QueryParser \<Rightarrow> string" where
  "show_peek p = (case peek p of None \<Rightarrow> ''undefined'' | Some c \<Rightarrow> [c])"

text \<open>\<open>ParserContext.throw\<close>\<close>

definition throw_at :: "QueryParser \<Rightarrow> string \<Rightarrow> js_error" where
  "throw_at p message =
     (if has_header p then getInvalidHeaderValue
      else StorageError 400 ''InvalidQueryParameterValue''
        (''Error parsing query at or near character position '' @ show_nat (tokenPosition p) @
         '': '' @ message))"

definition assertEndOfQuery :: "QueryParser \<Rightarrow> unit result" where
  "assertEndOfQuery p =
     (if tokenPosition p < length (query p)
      then Inl (throw_at p (''Unexpected token '' @ [CHR 0x27] @ show_peek p @ [CHR 0x27, CHR ''.'']))
      else Inr ())"

section \<open>The limits on comparisons\<close>

text \<open>When a comparison is refused because of an earlier one on the same tag.\<close>

definition conflicts :: "ComparisonType \<Rightarrow> ComparisonType \<Rightarrow> bool" where
  "conflicts current existing \<longleftrightarrow>
     current = Equal
     \<or> current = Greater \<and> (existing = Greater \<or> existing = Equal)
     \<or> current = Less \<and> (existing = Less \<or> existing = Equal)"

text \<open>\<open>this.comparisonNodes[key]\<close> is also truthy for a name that objects inherit; the field access
  that follows is then a \<open>TypeError\<close>.\<close>

definition validateWithPreviousComparison ::
  "string \<Rightarrow> ComparisonType \<Rightarrow> QueryParser \<Rightarrow> unit result" where
  "validateWithPreviousComparison key currentComparison p =
     (if has_header p then Inr ()
      else if currentComparison = NotEqual then Inr ()
      else case comparisonNodes p key of
        Some existedComparison \<Rightarrow>
          if list_ex (conflicts currentComparison) existedComparison then Inl GenericError else Inr ()
      | None \<Rightarrow> if key \<in> set objectPrototypeKeys then Inl TypeError else Inr ())"

definition appendComparisonNode ::
  "string \<Rightarrow> ComparisonType \<Rightarrow> QueryParser \<Rightarrow> QueryParser result" where
  "appendComparisonNode key currentComparison p =
     (if has_header p then Inr p
      else let count = (if key \<noteq> ''@container'' \<and> comparisonNodes p key = None
                        then comparisonCount p + 1 else comparisonCount p);
               p' = p\<lparr>comparisonCount := count\<rparr> in
      if count > 10
      then Inl (StorageError 400 ''InvalidQueryParameterValue''
             ''Error parsing query: there can be at most 10 unique tags in a query'')
      else case comparisonNodes p key of
        Some existedComparison \<Rightarrow>
          Inr (p'\<lparr>comparisonNodes := (comparisonNodes p)(key \<mapsto> existedComparison @ [currentComparison])\<rparr>)
      | None \<Rightarrow>
          if key \<in> set objectPrototypeKeys then Inl TypeError
          else Inr (p'\<lparr>comparisonNodes := (comparisonNodes p)(key \<mapsto> [currentComparison])\<rparr>))"

section \<open>Keys and values\<close>

definition in_range :: "char \<Rightarrow> char \<Rightarrow> char \<Rightarrow> bool" where
  "in_range low c high \<longleftrightarrow> low \<le> c \<and> c \<le> high"

definition is_tag_key_char :: "char \<Rightarrow> bool" where
  "is_tag_key_char c \<longleftrightarrow>
     in_range (CHR ''a'') c (CHR ''z'') \<or> in_range (CHR ''A'') c (CHR ''Z'') \<or>
     in_range (CHR ''0'') c (CHR ''9'') \<or> c = CHR ''_''"

definition ContainsInvalidTagKeyCharacter :: "string \<Rightarrow> bool" where
  "ContainsInvalidTagKeyCharacter key = list_ex (\<lambda>c. \<not> is_tag_key_char c) key"

definition quoted :: "string \<Rightarrow> string" where
  "quoted s = [CHR 0x27] @ s @ [CHR 0x27]"

definition validateKey :: "string \<Rightarrow> QueryParser \<Rightarrow> unit result" where
  "validateKey key p =
     (if startsWith key ''@''
      then if has_header p then Inl (throw_at p '''')
           else if key \<noteq> ''@container''
           then Inl (throw_at p (''unsupported parameter '' @ quoted key))
           else Inr ()
      else if \<not> has_header p \<and> (length key = 0 \<or> length key > 128)
      then Inl (throw_at p ''tag must be between 1 and 128 characters in length'')
      else if ContainsInvalidTagKeyCharacter key
      then Inl (throw_at p (''unexpected '' @ quoted key))
      else Inr ())"

definition is_tag_value_char :: "char \<Rightarrow> bool" where
  "is_tag_value_char c \<longleftrightarrow>
     in_range (CHR ''a'') c (CHR ''z'') \<or> in_range (CHR ''A'') c (CHR ''Z'') \<or>
     in_range (CHR ''0'') c (CHR ''9'') \<or> c \<in> set '' +-./:=_''"

definition validateValue :: "string \<Rightarrow> QueryParser \<Rightarrow> unit result" where
  "validateValue v p =
     (if \<not> has_header p \<and> length v > 256
      then Inl (throw_at p ''tag value must be between 0 and 256 characters in length'')
      else case find (\<lambda>c. \<not> is_tag_value_char c) v of
        Some c \<Rightarrow> Inl (throw_at p (quoted [c] @ '' not permitted in tag name or value''))
      | None \<Rightarrow> Inr ())"

text \<open>The states of the predicate that takes the content of a string.\<close>

datatype string_state = Escaping | Normal

definition string_predicate ::
  "char \<Rightarrow> char \<Rightarrow> char option \<Rightarrow> string_state option \<Rightarrow> string_state option" where
  "string_predicate openCharacter c next state =
     (if state = Some Escaping then Some Normal
      else if c = openCharacter \<and> next = Some openCharacter then Some Escaping
      else if c \<noteq> openCharacter then Some Normal
      else None)"

text \<open>\<open>content.replace(/''/g, "'")\<close>, for either quote.\<close>

fun unescape :: "char \<Rightarrow> string \<Rightarrow> string" where
  "unescape q (x # y # zs) =
     (if x = q \<and> y = q then q # unescape q zs else x # unescape q (y # zs))"
| "unescape q s = s"

text \<open>\<open>visitString\<close>: the callers have seen the opening quote with \<open>peek\<close>.\<close>

definition visitString ::
  "bool \<Rightarrow> char \<Rightarrow> QueryParser \<Rightarrow> (IQueryNode \<times> QueryParser) result" where
  "visitString isAKey openCharacter p0 =
     (let p1 = advance 1 p0;
          (content, p2) = take_token (string_predicate openCharacter) p1;
          (closed, p3) = consume [openCharacter] False p2 in
      if \<not> closed
      then Inl (throw_at p3 (''Expected a `'' @ [openCharacter] @ ''` to close the string, but found '' @
             show_peek p3 @ '' instead.''))
      else let text = unescape openCharacter content in
      if isAKey
      then bind_result (validateKey text p3) (\<lambda>_. Inr (KeyNode text, p3))
      else bind_result (validateValue text p3) (\<lambda>_. Inr (ConstantNode text, p3)))"

definition identifier_predicate :: "char \<Rightarrow> char option \<Rightarrow> unit option \<Rightarrow> unit option" where
  "identifier_predicate c next state =
     (if \<not> is_space c \<and> c \<noteq> CHR ''='' \<and> c \<noteq> CHR ''>'' \<and> c \<noteq> CHR ''<'' then Some () else None)"

definition visitKey :: "QueryParser \<Rightarrow> (IQueryNode \<times> QueryParser) result" where
  "visitKey p =
     (if peek p = Some (CHR 0x22) then visitString True (CHR 0x22) p
      else let (identifier, p1) = take_token identifier_predicate p in
      if identifier = ''''
      then Inl (throw_at p1 (''Expected a valid identifier, but found '' @ quoted (show_peek p1) @ '' instead.''))
      else bind_result (validateKey identifier p1) (\<lambda>_. Inr (KeyNode identifier, p1)))"

definition visitValue :: "QueryParser \<Rightarrow> (IQueryNode \<times> QueryParser) result" where
  "visitValue p0 =
     (let p = skipWhitespace p0 in
      if peek p = Some (CHR 0x27) then visitString False (CHR 0x27) p
      else Inl (throw_at p ''expecting tag value''))"

text \<open>\<open>toString\<close> of a key node, the only node that \<open>visitBinary\<close> prints.\<close>

fun key_toString :: "IQueryNode \<Rightarrow> string" where
  "key_toString (KeyNode identifier) = identifier"
| "key_toString _ = ''''"

section \<open>The recursive descent\<close>

definition compare_as ::
  "ComparisonType \<Rightarrow> (IQueryNode \<Rightarrow> IQueryNode \<Rightarrow> IQueryNode) \<Rightarrow> IQueryNode \<Rightarrow> IQueryNode \<Rightarrow>
   QueryParser \<Rightarrow> (IQueryNode \<times> QueryParser) result" where
  "compare_as comparison node left right p =
     bind_result (validateWithPreviousComparison (key_toString left) comparison p) (\<lambda>_.
     bind_result (appendComparisonNode (key_toString left) comparison p) (\<lambda>p'.
     Inr (node left right, p')))"

definition visitBinary :: "QueryParser \<Rightarrow> (IQueryNode \<times> QueryParser) result" where
  "visitBinary p0 =
     bind_result (visitKey p0) (\<lambda>(left, p1).
     let (operator, p2) =
           consumeOneOf True [''='', ''>='', ''<='', ''<>'', ''>'', ''<''] (skipWhitespace p1) in
     case operator of
       None \<Rightarrow> Inr (left, p2)
     | Some op \<Rightarrow>
         bind_result (visitValue p2) (\<lambda>(right, p3).
         if op = ''='' then compare_as Equal EqualsNode left right p3
         else if op = ''<>''
         then (if \<not> has_header p3 then Inl (throw_at p3 ''unexpected <>'')
               else compare_as NotEqual NotEqualsNode left right p3)
         else if op = ''>='' then compare_as Greater GreaterThanEqualNode left right p3
         else if op = ''>'' then compare_as Greater GreaterThanNode left right p3
         else if op = ''<'' then compare_as Less LessThanNode left right p3
         else compare_as Less LessThanEqualNode left right p3))"

text \<open>The layers of the grammar call each other without a bound, so they take fuel; \<open>None\<close> means
  that it ran out.\<close>

type_synonym visit = "(IQueryNode \<times> QueryParser) result option"

definition bind_visit ::
  "visit \<Rightarrow> (IQueryNode \<Rightarrow> QueryParser \<Rightarrow> visit) \<Rightarrow> visit" where
  "bind_visit v f =
     (case v of None \<Rightarrow> None | Some (Inl e) \<Rightarrow> Some (Inl e) | Some (Inr (n, p)) \<Rightarrow> f n p)"

fun visitExpression :: "nat \<Rightarrow> QueryParser \<Rightarrow> visit"
  and visitOr :: "nat \<Rightarrow> QueryParser \<Rightarrow> visit"
  and visitAnd :: "nat \<Rightarrow> QueryParser \<Rightarrow> visit"
  and visitUnary :: "nat \<Rightarrow> QueryParser \<Rightarrow> visit"
  and visitExpressionGroup :: "nat \<Rightarrow> QueryParser \<Rightarrow> visit" where
  "visitExpression 0 p = None"
| "visitExpression (Suc n) p = visitOr n p"
| "visitOr 0 p = None"
| "visitOr (Suc n) p =
     bind_visit (visitAnd n p) (\<lambda>left p1.
       let (found, p2) = consume ''or'' True (skipWhitespace p1) in
       if found
       then if \<not> has_header p2 then Some (Inl (throw_at p2 ''unexpected or''))
            else bind_visit (visitOr n p2) (\<lambda>right p3. Some (Inr (OrNode left right, p3)))
       else Some (Inr (left, p2)))"
| "visitAnd 0 p = None"
| "visitAnd (Suc n) p =
     bind_visit (visitUnary n p) (\<lambda>left p1.
       let (found, p2) = consume ''and'' True (skipWhitespace p1) in
       if found
       then bind_visit (visitAnd n p2) (\<lambda>right p3. Some (Inr (AndNode left right, p3)))
       else Some (Inr (left, p2)))"
| "visitUnary 0 p = None"
| "visitUnary (Suc n) p = visitExpressionGroup n (skipWhitespace p)"
| "visitExpressionGroup 0 p = None"
| "visitExpressionGroup (Suc n) p =
     (let (found, p1) = consume ''('' False (skipWhitespace p) in
      if found
      then bind_visit (visitExpression n p1) (\<lambda>child p2.
        let (closed, p3) = consume '')'' False (skipWhitespace p2) in
        if \<not> closed
        then Some (Inl (throw_at p3 (''Expected a '' @ quoted '')'' @
               '' to close the expression group, but found '' @ quoted (show_peek p3) @ '' instead.'')))
        else Some (Inr (ExpressionNode child, p3)))
      else Some (visitBinary p1))"

definition visitQuery :: "nat \<Rightarrow> QueryParser \<Rightarrow> IQueryNode result option" where
  "visitQuery n p =
     (case visitExpression n p of
        None \<Rightarrow> None
      | Some (Inl e) \<Rightarrow> Some (Inl e)
      | Some (Inr (tree, p1)) \<Rightarrow>
          Some (bind_result (assertEndOfQuery (skipWhitespace p1)) (\<lambda>_. Inr tree)))"

definition query_fuel :: "string \<Rightarrow> nat" where
  "query_fuel q = 5 * length q + 5"

definition parseQuery :: "string \<Rightarrow> string option \<Rightarrow> IQueryNode result" where
  "parseQuery q header = the (visitQuery (query_fuel q) (new_QueryParser q header))"

section \<open>The interpreter\<close>

record BlobTag =
  tag_key :: string
  tag_value :: string

record FilterBlobModel =
  fb_name :: string
  fb_containerName :: "string option"
  fb_tags :: "BlobTag list option"

definition tags_of :: "FilterBlobModel \<Rightarrow> tag_object" where
  "tags_of b =
     (let tags = (case fb_tags b of
                    None \<Rightarrow> Map.empty
                  | Some blobTagSet \<Rightarrow>
                      fold (\<lambda>aTag. set_property (tag_key aTag) (tag_value aTag)) blobTagSet Map.empty)
      in tags(''@container'' := fb_containerName b))"

definition executeQuery :: "FilterBlobModel \<Rightarrow> IQueryNode \<Rightarrow> TagContent list result" where
  "executeQuery ctx queryTree = evaluate queryTree (tags_of ctx)"

fun countIdentifierReferences :: "IQueryNode \<Rightarrow> nat" where
  "countIdentifierReferences (ExpressionNode child) = countIdentifierReferences child"
| "countIdentifierReferences (KeyNode _) = 0"
| "countIdentifierReferences (ConstantNode _) = 0"
| "countIdentifierReferences _ = 1"

definition generateQueryBlobWithTagsWhereFunction ::
  "string option \<Rightarrow> string option \<Rightarrow> (FilterBlobModel \<Rightarrow> TagContent list result) result" where
  "generateQueryBlobWithTagsWhereFunction q header =
     (case q of
        None \<Rightarrow> Inr (\<lambda>_. Inr [])
      | Some s \<Rightarrow>
          bind_result (parseQuery s header) (\<lambda>queryTree.
          if countIdentifierReferences queryTree = 0
          then (if header = None
                then Inl (StorageError 400 ''InvalidQueryParameterValue''
                       ''Error parsing query at or near character position 1: expected an operator'')
                else Inl getInvalidHeaderValue)
          else Inr (\<lambda>entity. executeQuery entity queryTree)))"

section \<open>Progress and termination\<close>

text \<open>What every step of the parser keeps, and that the position never moves back.\<close>

definition advances :: "QueryParser \<Rightarrow> QueryParser \<Rightarrow> bool" where
  "advances p p' \<longleftrightarrow> query p' = query p \<and> conditionHeader p' = conditionHeader p \<and>
     tokenPosition p \<le> tokenPosition p'"

definition remaining :: "QueryParser \<Rightarrow> nat" where
  "remaining p = length (query p) - tokenPosition p"

lemma advances_refl [simp]: "advances p p"
  by (simp add: advances_def)

lemma advances_trans [trans]: "advances p q \<Longrightarrow> advances q r \<Longrightarrow> advances p r"
  by (auto simp: advances_def)

lemma advances_advance [simp]: "advances p (advance n p)"
  by (simp add: advances_def advance_def)

lemma advances_skipWhitespace [simp]: "advances p (skipWhitespace p)"
  by (simp add: skipWhitespace_def)

lemma advances_header: "advances p p' \<Longrightarrow> has_header p' = has_header p"
  by (simp add: advances_def has_header_def)

lemma advances_remaining: "advances p p' \<Longrightarrow> remaining p' \<le> remaining p"
  by (auto simp: advances_def remaining_def)

lemma rest_advance [simp]: "rest (advance n p) = drop n (rest p)"
  by (simp add: rest_def advance_def add.commute)

lemma remaining_rest: "remaining p = length (rest p)"
  by (simp add: remaining_def rest_def)

lemma consume_cases:
  obtains (found) "consume s i p = (True, advance (length s) p)"
      "(if i then toLowerCase else id) (take (length s) (rest p)) = (if i then toLowerCase else id) s"
  | (absent) "consume s i p = (False, p)"
      "(if i then toLowerCase else id) (take (length s) (rest p)) \<noteq> (if i then toLowerCase else id) s"
  by (cases "(if i then toLowerCase else id) (take (length s) (rest p)) = (if i then toLowerCase else id) s")
    (auto simp: consume_def Let_def id_def split: if_splits)

lemma advances_consume: "consume s i p = (b, p') \<Longrightarrow> advances p p'"
  by (cases rule: consume_cases [of s i p]) auto

lemma consume_remaining:
  assumes "consume s i p = (True, p')"
  shows "remaining p' + length s = remaining p"
  using assms
proof (cases rule: consume_cases [of s i p])
  case found
  have "length (take (length s) (rest p)) = length s"
    using arg_cong [OF found(2), of length] by (simp add: toLowerCase_def split: if_splits)
  then show ?thesis using found assms by (auto simp: remaining_rest)
qed simp

lemma advances_consumeOneOf: "consumeOneOf i opts p = (r, p') \<Longrightarrow> advances p p'"
  by (induction opts arbitrary: p)
    (auto split: prod.splits bool.splits dest: advances_consume intro: advances_trans)

lemma advances_take_token: "take_token f p = (s, p') \<Longrightarrow> advances p p'"
  by (auto simp: take_token_def Let_def)

lemma advances_visitString: "visitString k c p = Inr (t, p') \<Longrightarrow> advances p p'"
  by (auto simp: visitString_def Let_def bind_result_Inr_iff split: prod.splits if_splits
      dest!: advances_consume advances_take_token) (meson advances_advance advances_trans)+

lemma advances_visitKey: "visitKey p = Inr (t, p') \<Longrightarrow> advances p p'"
  by (auto simp: visitKey_def bind_result_Inr_iff split: prod.splits if_splits
      dest: advances_visitString advances_take_token)

lemma advances_visitValue: "visitValue p = Inr (t, p') \<Longrightarrow> advances p p'"
  by (auto simp: visitValue_def Let_def split: if_splits
      dest!: advances_visitString intro: advances_trans [OF advances_skipWhitespace])

lemma advances_appendComparisonNode: "appendComparisonNode k c p = Inr p' \<Longrightarrow> advances p p'"
  by (auto simp: appendComparisonNode_def Let_def advances_def split: if_splits option.splits)

lemma advances_compare_as: "compare_as c node l r p = Inr (t, p') \<Longrightarrow> advances p p'"
  by (auto simp: compare_as_def bind_result_Inr_iff dest: advances_appendComparisonNode)

lemma advances_visitBinary:
  assumes "visitBinary p = Inr (t, p')"
  shows "advances p p'"
proof -
  obtain l p1 where key: "visitKey p = Inr (l, p1)"
    using assms by (auto simp: visitBinary_def bind_result_Inr_iff)
  obtain op p2 where op: "consumeOneOf True [''='', ''>='', ''<='', ''<>'', ''>'', ''<''] (skipWhitespace p1) = (op, p2)"
    by fastforce
  have "advances p p2"
    using advances_visitKey [OF key] advances_consumeOneOf [OF op] advances_skipWhitespace [of p1]
    by (blast intro: advances_trans)
  moreover have "advances p2 p'"
    using assms key op
    by (auto simp: visitBinary_def bind_result_Inr_iff split: option.splits if_splits
        dest!: advances_visitValue advances_compare_as intro: advances_trans)
  ultimately show ?thesis by (rule advances_trans)
qed

lemma bind_visit_InrE:
  assumes "bind_visit v f = Some (Inr x)"
  obtains n p where "v = Some (Inr (n, p))" "f n p = Some (Inr x)"
  using assms by (auto simp: bind_visit_def split: option.splits sum.splits)

text \<open>Induction over a successful parse: a relation between the states before and after, and the tree,
  that holds for a comparison, ignores white space and is kept by the three ways to combine
  trees.\<close>

lemma visit_success_induct:
  assumes binary: "\<And>p t p'. visitBinary p = Inr (t, p') \<Longrightarrow> R p t p'"
    and skip_before: "\<And>p t p'. R (skipWhitespace p) t p' \<Longrightarrow> R p t p'"
    and skip_after: "\<And>p t p'. R p t p' \<Longrightarrow> R p t (skipWhitespace p')"
    and conj: "\<And>p l p1 p2 r p3. R p l p1 \<Longrightarrow> consume ''and'' True p1 = (True, p2) \<Longrightarrow>
      R p2 r p3 \<Longrightarrow> R p (AndNode l r) p3"
    and disj: "\<And>p l p1 p2 r p3. R p l p1 \<Longrightarrow> consume ''or'' True p1 = (True, p2) \<Longrightarrow>
      has_header p2 \<Longrightarrow> R p2 r p3 \<Longrightarrow> R p (OrNode l r) p3"
    and group: "\<And>p p1 c p2 p3. consume ''('' False p = (True, p1) \<Longrightarrow> R p1 c p2 \<Longrightarrow>
      consume '')'' False p2 = (True, p3) \<Longrightarrow> R p (ExpressionNode c) p3"
  shows "(\<forall>p t p'. visitExpression n p = Some (Inr (t, p')) \<longrightarrow> R p t p') \<and>
    (\<forall>p t p'. visitOr n p = Some (Inr (t, p')) \<longrightarrow> R p t p') \<and>
    (\<forall>p t p'. visitAnd n p = Some (Inr (t, p')) \<longrightarrow> R p t p') \<and>
    (\<forall>p t p'. visitUnary n p = Some (Inr (t, p')) \<longrightarrow> R p t p') \<and>
    (\<forall>p t p'. visitExpressionGroup n p = Some (Inr (t, p')) \<longrightarrow> R p t p')"
proof (induction n)
  case (Suc n)
  have "R p t p'" if h: "visitOr (Suc n) p = Some (Inr (t, p'))" for p t p'
  proof -
    obtain l p1 where l: "visitAnd n p = Some (Inr (l, p1))" using h by (auto elim!: bind_visit_InrE)
    then have R1: "R p l (skipWhitespace p1)" using Suc skip_after by blast
    show ?thesis
    proof (cases rule: consume_cases [of "''or''" True "skipWhitespace p1"])
      case found
      then show ?thesis using h l R1 disj Suc
        by (auto split: if_splits elim!: bind_visit_InrE simp: bind_visit_def [of "Some (Inr (l, p1))"])
    next
      case absent
      then show ?thesis using h l R1 by (simp add: bind_visit_def)
    qed
  qed
  moreover have "R p t p'" if h: "visitAnd (Suc n) p = Some (Inr (t, p'))" for p t p'
  proof -
    obtain l p1 where l: "visitUnary n p = Some (Inr (l, p1))" using h by (auto elim!: bind_visit_InrE)
    then have R1: "R p l (skipWhitespace p1)" using Suc skip_after by blast
    show ?thesis
    proof (cases rule: consume_cases [of "''and''" True "skipWhitespace p1"])
      case found
      then show ?thesis using h l R1 conj Suc
        by (auto elim!: bind_visit_InrE simp: bind_visit_def [of "Some (Inr (l, p1))"])
    next
      case absent
      then show ?thesis using h l R1 by (simp add: bind_visit_def)
    qed
  qed
  moreover have "R p t p'" if h: "visitExpressionGroup (Suc n) p = Some (Inr (t, p'))" for p t p'
  proof (rule skip_before, cases rule: consume_cases [of "''(''" False "skipWhitespace p"])
    case found
    then obtain c p2 where c: "visitExpression n (advance 1 (skipWhitespace p)) = Some (Inr (c, p2))"
      using h by (auto elim!: bind_visit_InrE)
    then have "R (advance 1 (skipWhitespace p)) c (skipWhitespace p2)" using Suc skip_after by blast
    then show "R (skipWhitespace p) t p'"
      using h c group [of "skipWhitespace p" "advance 1 (skipWhitespace p)" c "skipWhitespace p2"] found
      by (auto simp: bind_visit_def split: prod.splits if_splits)
  next
    case absent
    then show "R (skipWhitespace p) t p'" using h binary by simp
  qed
  moreover have "R p t p'" if "visitUnary (Suc n) p = Some (Inr (t, p'))" for p t p'
    using that Suc skip_before by simp
  ultimately show ?case using Suc by simp
qed simp

lemma advances_visit:
  "(\<forall>p t p'. visitExpression n p = Some (Inr (t, p')) \<longrightarrow> advances p p') \<and>
   (\<forall>p t p'. visitOr n p = Some (Inr (t, p')) \<longrightarrow> advances p p') \<and>
   (\<forall>p t p'. visitAnd n p = Some (Inr (t, p')) \<longrightarrow> advances p p') \<and>
   (\<forall>p t p'. visitUnary n p = Some (Inr (t, p')) \<longrightarrow> advances p p') \<and>
   (\<forall>p t p'. visitExpressionGroup n p = Some (Inr (t, p')) \<longrightarrow> advances p p')"
  by (rule visit_success_induct)
    (blast intro: advances_trans advances_skipWhitespace advances_consume advances_visitBinary)+

lemma visit_total:
  "(\<forall>p. 5 * remaining p + 5 \<le> n \<longrightarrow> visitExpression n p \<noteq> None) \<and>
   (\<forall>p. 5 * remaining p + 4 \<le> n \<longrightarrow> visitOr n p \<noteq> None) \<and>
   (\<forall>p. 5 * remaining p + 3 \<le> n \<longrightarrow> visitAnd n p \<noteq> None) \<and>
   (\<forall>p. 5 * remaining p + 2 \<le> n \<longrightarrow> visitUnary n p \<noteq> None) \<and>
   (\<forall>p. 5 * remaining p + 1 \<le> n \<longrightarrow> visitExpressionGroup n p \<noteq> None)"
proof (induction n)
  case (Suc n)
  have ws: "remaining (skipWhitespace p) \<le> remaining p" for p
    by (simp add: advances_remaining)
  have "visitOr (Suc n) p \<noteq> None" if n: "5 * remaining p + 4 \<le> Suc n" for p
  proof -
    have "visitOr n p2 \<noteq> None" if "visitAnd n p = Some (Inr (l, p1))"
      "consume ''or'' True (skipWhitespace p1) = (True, p2)" for l p1 p2
    proof -
      have "remaining p1 \<le> remaining p" using that(1) advances_visit advances_remaining by blast
      then show ?thesis using Suc n ws [of p1] consume_remaining [OF that(2)] by simp
    qed
    then show ?thesis using Suc n
      by (fastforce simp: bind_visit_def split: option.splits sum.splits prod.splits)
  qed
  moreover have "visitAnd (Suc n) p \<noteq> None" if n: "5 * remaining p + 3 \<le> Suc n" for p
  proof -
    have "visitAnd n p2 \<noteq> None" if "visitUnary n p = Some (Inr (l, p1))"
      "consume ''and'' True (skipWhitespace p1) = (True, p2)" for l p1 p2
    proof -
      have "remaining p1 \<le> remaining p" using that(1) advances_visit advances_remaining by blast
      then show ?thesis using Suc n ws [of p1] consume_remaining [OF that(2)] by simp
    qed
    then show ?thesis using Suc n
      by (fastforce simp: bind_visit_def split: option.splits sum.splits prod.splits)
  qed
  moreover have "visitExpressionGroup (Suc n) p \<noteq> None" if n: "5 * remaining p + 1 \<le> Suc n" for p
  proof -
    have "visitExpression n p1 \<noteq> None" if "consume ''('' False (skipWhitespace p) = (True, p1)" for p1
      using Suc n ws [of p] consume_remaining [OF that] by simp
    then show ?thesis
      by (fastforce simp: bind_visit_def split: option.splits sum.splits prod.splits)
  qed
  moreover have "visitUnary (Suc n) p \<noteq> None" if "5 * remaining p + 2 \<le> Suc n" for p
    using Suc that ws [of p] by simp
  ultimately show ?case using Suc by simp
qed simp

lemma visitQuery_total: "\<exists>r. visitQuery (query_fuel q) (new_QueryParser q header) = Some r"
proof -
  have "remaining (new_QueryParser q header) = length q"
    by (simp add: remaining_def new_QueryParser_def)
  then have "visitExpression (query_fuel q) (new_QueryParser q header) \<noteq> None"
    using visit_total [of "query_fuel q"] by (simp add: query_fuel_def)
  then show ?thesis by (auto simp: visitQuery_def split: sum.splits)
qed

lemma parseQuery_Inr:
  assumes "parseQuery q header = Inr t"
  obtains p where "visitExpression (query_fuel q) (new_QueryParser q header) = Some (Inr (t, p))"
    "assertEndOfQuery (skipWhitespace p) = Inr ()"
proof -
  obtain r where "visitQuery (query_fuel q) (new_QueryParser q header) = Some r"
    using visitQuery_total by blast
  then show ?thesis using assms that
    by (auto simp: parseQuery_def visitQuery_def bind_result_Inr_iff split: option.splits sum.splits)
qed

section \<open>The shape of the trees the parser builds\<close>

fun comparison_operands :: "IQueryNode \<Rightarrow> IQueryNode \<Rightarrow> bool" where
  "comparison_operands (KeyNode _) (ConstantNode _) = True"
| "comparison_operands _ _ = False"

fun parsed_tree :: "IQueryNode \<Rightarrow> bool" where
  "parsed_tree (KeyNode _) = True"
| "parsed_tree (ConstantNode _) = False"
| "parsed_tree (EqualsNode l r) = comparison_operands l r"
| "parsed_tree (NotEqualsNode l r) = comparison_operands l r"
| "parsed_tree (GreaterThanNode l r) = comparison_operands l r"
| "parsed_tree (GreaterThanEqualNode l r) = comparison_operands l r"
| "parsed_tree (LessThanNode l r) = comparison_operands l r"
| "parsed_tree (LessThanEqualNode l r) = comparison_operands l r"
| "parsed_tree (AndNode l r) = (parsed_tree l \<and> parsed_tree r)"
| "parsed_tree (OrNode l r) = (parsed_tree l \<and> parsed_tree r)"
| "parsed_tree (ExpressionNode c) = parsed_tree c"

text \<open>The comparisons of a tree from left to right: key, kind and value.\<close>

fun comparison_of :: "ComparisonType \<Rightarrow> IQueryNode \<Rightarrow> IQueryNode \<Rightarrow> (string \<times> ComparisonType \<times> string) list" where
  "comparison_of c (KeyNode k) (ConstantNode v) = [(k, c, v)]"
| "comparison_of c _ _ = []"

fun comparisons :: "IQueryNode \<Rightarrow> (string \<times> ComparisonType \<times> string) list" where
  "comparisons (KeyNode _) = []"
| "comparisons (ConstantNode _) = []"
| "comparisons (EqualsNode l r) = comparison_of Equal l r"
| "comparisons (NotEqualsNode l r) = comparison_of NotEqual l r"
| "comparisons (GreaterThanNode l r) = comparison_of Greater l r"
| "comparisons (GreaterThanEqualNode l r) = comparison_of Greater l r"
| "comparisons (LessThanNode l r) = comparison_of Less l r"
| "comparisons (LessThanEqualNode l r) = comparison_of Less l r"
| "comparisons (AndNode l r) = comparisons l @ comparisons r"
| "comparisons (OrNode l r) = comparisons l @ comparisons r"
| "comparisons (ExpressionNode c) = comparisons c"

definition compared_keys :: "IQueryNode \<Rightarrow> string set" where
  "compared_keys t = fst ` set (comparisons t)"

definition comparisons_on :: "string \<Rightarrow> IQueryNode \<Rightarrow> ComparisonType list" where
  "comparisons_on k t = map (fst \<circ> snd) (filter (\<lambda>x. fst x = k) (comparisons t))"

definition comparison_nodes :: "(ComparisonType \<times> (IQueryNode \<Rightarrow> IQueryNode \<Rightarrow> IQueryNode)) list" where
  "comparison_nodes =
     [(Equal, EqualsNode), (NotEqual, NotEqualsNode), (Greater, GreaterThanEqualNode),
      (Greater, GreaterThanNode), (Less, LessThanNode), (Less, LessThanEqualNode)]"

lemma advance_advance [simp]: "advance m (advance n p) = advance (n + m) p"
  by (simp add: advance_def)

lemma advance_0 [simp]: "advance 0 p = p"
  by (simp add: advance_def)

lemma advance_fields [simp]:
  "has_header (advance n p) = has_header p"
  "comparisonNodes (advance n p) = comparisonNodes p"
  "comparisonCount (advance n p) = comparisonCount p"
  by (simp_all add: advance_def has_header_def)

lemma validate_advance [simp]:
  "validateKey k (advance n p) = Inr () \<longleftrightarrow> validateKey k p = Inr ()"
  "validateValue v (advance n p) = Inr () \<longleftrightarrow> validateValue v p = Inr ()"
  by (auto simp: validateKey_def validateValue_def split: option.splits)

lemma skipWhitespace_advance: "\<exists>n. skipWhitespace p = advance n p"
  by (auto simp: skipWhitespace_def)

lemma consume_advance: "consume s i p = (b, p') \<Longrightarrow> \<exists>n. p' = advance n p"
  by (cases rule: consume_cases [of s i p]) (auto intro: exI [of _ 0])

lemma consumeOneOf_advance: "consumeOneOf i opts p = (r, p') \<Longrightarrow> \<exists>n. p' = advance n p"
proof (induction opts arbitrary: p)
  case Nil
  then show ?case by (auto intro: exI [of _ 0])
next
  case (Cons s opts)
  then show ?case using consume_advance [of s i p]
    by (cases rule: consume_cases [of s i p]) auto
qed

lemma consumeOneOf_member: "consumeOneOf i opts p = (Some r, p') \<Longrightarrow> r \<in> set opts"
  by (induction opts arbitrary: p) (auto split: prod.splits bool.splits)

lemma visitString_advance:
  assumes "visitString isAKey c p = Inr (t, p')"
  shows "\<exists>n s. p' = advance n p \<and> (if isAKey then t = KeyNode s \<and> validateKey s p = Inr ()
           else t = ConstantNode s \<and> validateValue s p = Inr ())"
proof -
  obtain content p2 where tok: "take_token (string_predicate c) (advance 1 p) = (content, p2)" by fastforce
  then have "\<exists>n. p2 = advance n p" by (auto simp: take_token_def Let_def)
  moreover obtain b p3 where con: "consume [c] False p2 = (b, p3)" by fastforce
  ultimately have "\<exists>n. p3 = advance n p" using consume_advance [OF con] by auto
  then show ?thesis using assms tok con
    by (auto simp: visitString_def Let_def bind_result_Inr_iff split: if_splits)
qed

lemma visitKey_advance:
  "visitKey p = Inr (t, p') \<Longrightarrow> \<exists>n k. p' = advance n p \<and> t = KeyNode k \<and> validateKey k p = Inr ()"
  by (auto simp: visitKey_def take_token_def Let_def bind_result_Inr_iff split: if_splits
      dest!: visitString_advance)

lemma visitValue_advance:
  "visitValue p = Inr (t, p') \<Longrightarrow> \<exists>n v. p' = advance n p \<and> t = ConstantNode v \<and> validateValue v p = Inr ()"
  using skipWhitespace_advance [of p]
  by (auto simp: visitValue_def Let_def split: if_splits dest!: visitString_advance)

text \<open>A successful \<open>visitBinary\<close> is a key alone or one of the six comparisons.\<close>

lemma visitBinary_cases:
  assumes "visitBinary p = Inr (t, p')"
  obtains (key) n k where "p' = advance n p" "t = KeyNode k" "validateKey k p = Inr ()"
  | (comparison) n k v c node where "(c, node) \<in> set comparison_nodes"
      "t = node (KeyNode k) (ConstantNode v)"
      "validateKey k p = Inr ()" "validateValue v p = Inr ()" "c = NotEqual \<longrightarrow> has_header p"
      "validateWithPreviousComparison k c (advance n p) = Inr ()"
      "appendComparisonNode k c (advance n p) = Inr p'"
proof -
  obtain l p1 where l: "visitKey p = Inr (l, p1)"
    using assms by (auto simp: visitBinary_def bind_result_Inr_iff)
  then obtain k n1 where k: "p1 = advance n1 p" "l = KeyNode k" "validateKey k p = Inr ()"
    using visitKey_advance by blast
  obtain op p2 where op: "consumeOneOf True [''='', ''>='', ''<='', ''<>'', ''>'', ''<''] (skipWhitespace p1) = (op, p2)"
    by fastforce
  then obtain n2 where p2: "p2 = advance n2 p"
    using consumeOneOf_advance [OF op] skipWhitespace_advance [of p1] k(1) by auto
  show ?thesis
  proof (cases op)
    case None
    then show ?thesis using assms l op p2 k key by (auto simp: visitBinary_def)
  next
    case (Some s)
    then obtain r p3 where r: "visitValue p2 = Inr (r, p3)"
      using assms l op by (auto simp: visitBinary_def bind_result_Inr_iff)
    then obtain v n3 where v: "p3 = advance n3 p" "r = ConstantNode v" "validateValue v p = Inr ()"
      using visitValue_advance p2 by fastforce
    from assms l op Some r
    consider (eq) "compare_as Equal EqualsNode l r p3 = Inr (t, p')"
      | (ne) "compare_as NotEqual NotEqualsNode l r p3 = Inr (t, p')" "has_header p3"
      | (ge) "compare_as Greater GreaterThanEqualNode l r p3 = Inr (t, p')"
      | (gt) "compare_as Greater GreaterThanNode l r p3 = Inr (t, p')"
      | (lt) "compare_as Less LessThanNode l r p3 = Inr (t, p')"
      | (le) "compare_as Less LessThanEqualNode l r p3 = Inr (t, p')"
      by (simp add: visitBinary_def split: if_splits)
    then have "\<exists>c node. (c, node) \<in> set comparison_nodes \<and> (c = NotEqual \<longrightarrow> has_header p) \<and>
        compare_as c node l r p3 = Inr (t, p')"
      using v(1) by cases (auto simp: comparison_nodes_def)
    then show ?thesis using comparison k v
      by (auto simp: compare_as_def bind_result_Inr_iff)
  qed
qed

lemma visitExpression_induct [consumes 1, case_names binary skip_before skip_after conj disj group]:
  assumes "visitExpression n p = Some (Inr (t, p'))"
    and "\<And>p t p'. visitBinary p = Inr (t, p') \<Longrightarrow> R p t p'"
    and "\<And>p t p'. R (skipWhitespace p) t p' \<Longrightarrow> R p t p'"
    and "\<And>p t p'. R p t p' \<Longrightarrow> R p t (skipWhitespace p')"
    and "\<And>p l p1 p2 r p3. R p l p1 \<Longrightarrow> consume ''and'' True p1 = (True, p2) \<Longrightarrow>
      R p2 r p3 \<Longrightarrow> R p (AndNode l r) p3"
    and "\<And>p l p1 p2 r p3. R p l p1 \<Longrightarrow> consume ''or'' True p1 = (True, p2) \<Longrightarrow>
      has_header p2 \<Longrightarrow> R p2 r p3 \<Longrightarrow> R p (OrNode l r) p3"
    and "\<And>p p1 c p2 p3. consume ''('' False p = (True, p1) \<Longrightarrow> R p1 c p2 \<Longrightarrow>
      consume '')'' False p2 = (True, p3) \<Longrightarrow> R p (ExpressionNode c) p3"
  shows "R p t p'"
proof -
  have "\<forall>p t p'. visitExpression n p = Some (Inr (t, p')) \<longrightarrow> R p t p'"
    by (rule visit_success_induct [THEN conjunct1]) (fact assms(2-))+
  then show ?thesis using assms(1) by blast
qed

lemma parsed_tree_visit:
  "visitExpression n p = Some (Inr (t, p')) \<Longrightarrow> parsed_tree t"
proof (induction rule: visitExpression_induct)
  case (binary p t p')
  then show ?case by (cases rule: visitBinary_cases) (auto simp: comparison_nodes_def)
qed simp_all

lemma parseQuery_parsed_tree: "parseQuery q header = Inr t \<Longrightarrow> parsed_tree t"
  by (erule parseQuery_Inr) (rule parsed_tree_visit)

section \<open>The meaning of a query\<close>

definition tag_test :: "tag_object \<Rightarrow> IQueryNode \<Rightarrow> IQueryNode \<Rightarrow> (string \<Rightarrow> string \<Rightarrow> bool) \<Rightarrow> bool" where
  "tag_test tags l r test =
     (case (l, r) of
        (KeyNode k, ConstantNode v) \<Rightarrow> (case tags k of None \<Rightarrow> False | Some w \<Rightarrow> test w v)
      | _ \<Rightarrow> False)"

text \<open>The Boolean meaning: a comparison holds if the blob has the tag and its value compares so; a key
  alone holds.\<close>

fun query_holds :: "IQueryNode \<Rightarrow> tag_object \<Rightarrow> bool" where
  "query_holds (KeyNode _) tags = True"
| "query_holds (ConstantNode _) tags = True"
| "query_holds (EqualsNode l r) tags = tag_test tags l r (=)"
| "query_holds (NotEqualsNode l r) tags = tag_test tags l r (\<noteq>)"
| "query_holds (GreaterThanNode l r) tags = tag_test tags l r (>)"
| "query_holds (GreaterThanEqualNode l r) tags = tag_test tags l r (\<ge>)"
| "query_holds (LessThanNode l r) tags = tag_test tags l r (<)"
| "query_holds (LessThanEqualNode l r) tags = tag_test tags l r (\<le>)"
| "query_holds (AndNode l r) tags = (query_holds l tags \<and> query_holds r tags)"
| "query_holds (OrNode l r) tags = (query_holds l tags \<or> query_holds r tags)"
| "query_holds (ExpressionNode c) tags = query_holds c tags"

definition reports :: "tag_object \<Rightarrow> TagContent list \<Rightarrow> bool" where
  "reports tags c \<longleftrightarrow> list_all (\<lambda>e. case tc_key e of None \<Rightarrow> False | Some k \<Rightarrow> tc_value e = get_property tags k) c"

lemma comparison_operandsE:
  assumes "comparison_operands l r"
  obtains k v where "l = KeyNode k" "r = ConstantNode v"
  using assms by (cases "(l, r)" rule: comparison_operands.cases) auto

lemma get_property_cases:
  "k \<notin> set objectPrototypeKeys \<Longrightarrow>
   get_property tags k = (case tags k of None \<Rightarrow> Undefined | Some v \<Rightarrow> Str v)"
  by (simp add: get_property_def split: option.splits)

lemma evaluate_correct:
  "parsed_tree t \<Longrightarrow> compared_keys t \<inter> set objectPrototypeKeys = {} \<Longrightarrow>
   \<exists>c. evaluate t tags = Inr c \<and> (c \<noteq> [] \<longleftrightarrow> query_holds t tags) \<and> reports tags c"
proof (induction t)
  case (AndNode l r)
  then show ?case
    by (fastforce simp: node_evaluate_defs eval_both_def compared_keys_def reports_def image_Un Int_Un_distrib2)
next
  case (OrNode l r)
  then show ?case
    by (fastforce simp: node_evaluate_defs eval_both_def compared_keys_def reports_def image_Un Int_Un_distrib2)
qed (auto elim!: comparison_operandsE split: option.splits
    simp: compared_keys_def node_evaluate_defs eval_both_def compare_content_def tag_test_def get_property_cases
      defined_and_def reports_def)

section \<open>The limits of a search query\<close>

text \<open>The sets of comparisons on one tag that define a value or a range.\<close>

definition range_ok :: "ComparisonType list \<Rightarrow> bool" where
  "range_ok cs \<longleftrightarrow> cs \<in> {[], [Equal], [Greater], [Less], [Greater, Less], [Less, Greater]}"

definition search_key :: "string \<Rightarrow> bool" where
  "search_key k \<longleftrightarrow> k = ''@container'' \<or>
     1 \<le> length k \<and> length k \<le> 128 \<and> list_all is_tag_key_char k"

definition search_value :: "string \<Rightarrow> bool" where
  "search_value v \<longleftrightarrow> length v \<le> 256 \<and> list_all is_tag_value_char v"

definition search_comparison :: "string \<times> ComparisonType \<times> string \<Rightarrow> bool" where
  "search_comparison x \<longleftrightarrow>
     search_key (fst x) \<and> fst (snd x) \<noteq> NotEqual \<and> search_value (snd (snd x))"

fun has_or :: "IQueryNode \<Rightarrow> bool" where
  "has_or (OrNode _ _) = True"
| "has_or (AndNode l r) = (has_or l \<or> has_or r)"
| "has_or (ExpressionNode c) = has_or c"
| "has_or _ = False"

definition existing :: "QueryParser \<Rightarrow> string \<Rightarrow> ComparisonType list" where
  "existing p k = (case comparisonNodes p k of None \<Rightarrow> [] | Some cs \<Rightarrow> cs)"

text \<open>The invariant of the parser's record of comparisons.\<close>

definition limits :: "QueryParser \<Rightarrow> bool" where
  "limits p \<longleftrightarrow> finite (dom (comparisonNodes p)) \<and> comparisonCount p \<le> 10 \<and>
     comparisonCount p = card (dom (comparisonNodes p) - {''@container''}) \<and>
     (\<forall>k. range_ok (existing p k)) \<and> (\<forall>k. comparisonNodes p k \<noteq> Some [])"

definition search_step :: "QueryParser \<Rightarrow> IQueryNode \<Rightarrow> QueryParser \<Rightarrow> bool" where
  "search_step p t p' \<longleftrightarrow>
     (\<not> has_header p \<and> limits p \<longrightarrow>
      \<not> has_header p' \<and> limits p' \<and> \<not> has_or t \<and> list_all search_comparison (comparisons t) \<and>
      (\<forall>k. existing p' k = existing p k @ comparisons_on k t))"

lemma limits_advance [simp]: "limits (advance n p) = limits p"
  by (simp add: limits_def existing_def)

lemma existing_advance [simp]: "existing (advance n p) = existing p"
  by (simp add: existing_def fun_eq_iff)

lemma range_ok_append:
  "range_ok cs \<Longrightarrow> \<not> list_ex (conflicts c) cs \<Longrightarrow> c \<noteq> NotEqual \<Longrightarrow> range_ok (cs @ [c])"
  by (cases c) (auto simp: range_ok_def conflicts_def)

lemma validateKey_search: "\<not> has_header p \<Longrightarrow> validateKey k p = Inr () \<Longrightarrow> search_key k"
  by (auto simp: validateKey_def search_key_def ContainsInvalidTagKeyCharacter_def list_ex_iff list_all_iff
      split: if_splits intro: Suc_leI)

lemma validateValue_search: "\<not> has_header p \<Longrightarrow> validateValue v p = Inr () \<Longrightarrow> search_value v"
  by (auto simp: validateValue_def search_value_def list_all_iff find_None_iff split: if_splits option.splits)

lemma appendComparisonNode_limits:
  assumes h: "\<not> has_header p" and lim: "limits p" and "c \<noteq> NotEqual"
    and val: "validateWithPreviousComparison k c p = Inr ()" and app: "appendComparisonNode k c p = Inr p'"
  shows "\<not> has_header p' \<and> limits p' \<and> existing p' = (existing p)(k := existing p k @ [c])"
proof -
  let ?n = "if k \<noteq> ''@container'' \<and> comparisonNodes p k = None
    then comparisonCount p + 1 else comparisonCount p"
  have p': "p' = p\<lparr>comparisonCount := ?n, comparisonNodes := (comparisonNodes p)(k \<mapsto> existing p k @ [c])\<rparr>"
      "?n \<le> 10"
    using app h by (auto simp: appendComparisonNode_def existing_def Let_def split: if_splits option.splits)
  have fin: "finite (dom (comparisonNodes p))" using lim by (simp add: limits_def)
  have "card (insert k (dom (comparisonNodes p)) - {''@container''}) = ?n"
    using lim fin by (auto simp: limits_def insert_Diff_if domIff card_insert_if insert_absorb)
  moreover have "range_ok (existing p k @ [c])"
    using lim val h assms(3)
    by (intro range_ok_append)
      (auto simp: limits_def validateWithPreviousComparison_def existing_def split: if_splits option.splits)
  moreover have ex: "existing p' = (existing p)(k := existing p k @ [c])"
    using p'(1) by (auto simp: existing_def fun_eq_iff)
  ultimately show ?thesis
    using lim fin h p' by (auto simp: limits_def has_header_def)
qed

lemma search_step_visitBinary:
  assumes "visitBinary p = Inr (t, p')"
  shows "search_step p t p'"
  using assms
proof (cases rule: visitBinary_cases)
  case (key n k)
  then show ?thesis by (simp add: search_step_def comparisons_on_def)
next
  case (comparison n k v c node)
  show ?thesis
    unfolding search_step_def
  proof (intro impI)
    assume h: "\<not> has_header p \<and> limits p"
    then have cs: "comparisons t = [(k, c, v)]" "\<not> has_or t" "c \<noteq> NotEqual"
      using comparison(1,2,5) by (auto simp: comparison_nodes_def)
    moreover have "search_key k" "search_value v"
      using h comparison(3,4) validateKey_search validateValue_search by blast+
    moreover have "\<not> has_header p' \<and> limits p' \<and> existing p' = (existing p)(k := existing p k @ [c])"
      using appendComparisonNode_limits [of "advance n p" c k p'] h cs(3) comparison(6,7) by simp
    ultimately show "\<not> has_header p' \<and> limits p' \<and> \<not> has_or t \<and> list_all search_comparison (comparisons t) \<and>
        (\<forall>k. existing p' k = existing p k @ comparisons_on k t)"
      by (simp add: comparisons_on_def search_comparison_def)
  qed
qed

lemma consume_limits:
  "consume s i p = (b, p') \<Longrightarrow> has_header p' = has_header p \<and> limits p' = limits p \<and> existing p' = existing p"
  using consume_advance by fastforce

lemma skipWhitespace_limits [simp]:
  "has_header (skipWhitespace p) = has_header p" "limits (skipWhitespace p) = limits p"
  "existing (skipWhitespace p) = existing p"
  by (simp_all add: skipWhitespace_def)

lemma search_step_visit: "visitExpression n p = Some (Inr (t, p')) \<Longrightarrow> search_step p t p'"
proof (induction rule: visitExpression_induct)
  case (binary p t p')
  then show ?case by (rule search_step_visitBinary)
next
  case (conj p l p1 p2 r p3)
  then show ?case using consume_limits [of "''and''" True p1 True p2] by (simp add: search_step_def comparisons_on_def)
next
  case (disj p l p1 p2 r p3)
  then show ?case using consume_limits [of "''or''" True p1 True p2] by (simp add: search_step_def)
next
  case (group p p1 c p2 p3)
  then show ?case using consume_limits [of "''(''" False p True p1] consume_limits [of "'')''" False p2 True p3]
    by (simp add: search_step_def comparisons_on_def)
qed (simp_all add: search_step_def)

section \<open>Printing and parsing\<close>

fun print_operands :: "string \<Rightarrow> IQueryNode \<Rightarrow> IQueryNode \<Rightarrow> string" where
  "print_operands operator (KeyNode k) (ConstantNode v) = k @ operator @ quoted v"
| "print_operands operator _ _ = ''''"

fun print_query :: "IQueryNode \<Rightarrow> string" where
  "print_query (KeyNode k) = k"
| "print_query (ConstantNode v) = quoted v"
| "print_query (EqualsNode l r) = print_operands ''='' l r"
| "print_query (NotEqualsNode l r) = print_operands ''<>'' l r"
| "print_query (GreaterThanNode l r) = print_operands ''>'' l r"
| "print_query (GreaterThanEqualNode l r) = print_operands ''>='' l r"
| "print_query (LessThanNode l r) = print_operands ''<'' l r"
| "print_query (LessThanEqualNode l r) = print_operands ''<='' l r"
| "print_query (AndNode l r) = print_query l @ '' and '' @ print_query r"
| "print_query (OrNode l r) = print_query l @ '' or '' @ print_query r"
| "print_query (ExpressionNode c) = ''('' @ print_query c @ '')''"

fun valid_operands :: "IQueryNode \<Rightarrow> IQueryNode \<Rightarrow> bool" where
  "valid_operands (KeyNode k) (ConstantNode v) =
     (k \<noteq> '''' \<and> list_all is_tag_key_char k \<and> list_all is_tag_value_char v)"
| "valid_operands _ _ = False"

text \<open>The trees of the grammar: level 0 is a comparison or a group, level 1 a chain of \<open>and\<close>, level 2
  a chain of \<open>or\<close>.\<close>

fun query_form :: "nat \<Rightarrow> IQueryNode \<Rightarrow> bool" where
  "query_form level (OrNode l r) = (level = 2 \<and> query_form 1 l \<and> query_form 2 r)"
| "query_form level (AndNode l r) = (level \<ge> 1 \<and> query_form 0 l \<and> query_form 1 r)"
| "query_form level (ExpressionNode c) = query_form 2 c"
| "query_form level (EqualsNode l r) = valid_operands l r"
| "query_form level (NotEqualsNode l r) = valid_operands l r"
| "query_form level (GreaterThanNode l r) = valid_operands l r"
| "query_form level (GreaterThanEqualNode l r) = valid_operands l r"
| "query_form level (LessThanNode l r) = valid_operands l r"
| "query_form level (LessThanEqualNode l r) = valid_operands l r"
| "query_form level _ = False"

definition starts_word :: "string \<Rightarrow> string \<Rightarrow> bool" where
  "starts_word w s \<longleftrightarrow> toLowerCase (take (length w) (dropWhile is_space s)) = w"

lemma valid_operandsE:
  assumes "valid_operands l r"
  obtains k v where "l = KeyNode k" "r = ConstantNode v" "k \<noteq> ''''"
    "list_all is_tag_key_char k" "list_all is_tag_value_char v"
  using assms by (cases "(l, r)" rule: valid_operands.cases) auto

lemma tag_key_char:
  assumes "is_tag_key_char c"
  shows "\<not> is_space c" "c \<noteq> CHR ''=''" "c \<noteq> CHR ''<''" "c \<noteq> CHR ''>''" "c \<noteq> CHR 0x22" "c \<noteq> CHR ''(''" "c \<noteq> CHR ''@''"
  using assms by (auto simp: is_tag_key_char_def is_space_def in_range_def less_eq_char_def)

lemma tag_value_char: "is_tag_value_char c \<Longrightarrow> c \<noteq> CHR 0x27"
  by (auto simp: is_tag_value_char_def in_range_def less_eq_char_def)

lemma take_loop_identifier:
  "list_all is_tag_key_char k \<Longrightarrow> c \<in> {CHR ''='', CHR ''<'', CHR ''>''} \<Longrightarrow>
   take_loop identifier_predicate st (k @ c # s) = length k"
  by (induction k arbitrary: st) (auto simp: identifier_predicate_def tag_key_char)

lemma take_loop_string:
  "q \<notin> set v \<Longrightarrow> peek_of s \<noteq> Some q \<Longrightarrow> st \<noteq> Some Escaping \<Longrightarrow>
   take_loop (string_predicate q) st (v @ q # s) = length v"
  by (induction v arbitrary: st) (auto simp: string_predicate_def)

lemma unescape_id: "q \<notin> set v \<Longrightarrow> unescape q v = v"
  by (induction q v rule: unescape.induct) auto

lemma rest_skipWhitespace: "rest (skipWhitespace p) = dropWhile is_space (rest p)"
  by (simp add: skipWhitespace_def dropWhile_eq_drop)

lemma skipWhitespace_id: "rest p = c # s \<Longrightarrow> \<not> is_space c \<Longrightarrow> skipWhitespace p = p"
  by (simp add: skipWhitespace_def)

lemma visitValue_print:
  assumes "has_header p" "list_all is_tag_value_char v" "rest p = quoted v @ s" "peek_of s \<noteq> Some (CHR 0x27)"
  shows "visitValue p = Inr (ConstantNode v, advance (length (quoted v)) p)"
proof -
  have q: "CHR 0x27 \<notin> set v" using assms(2) tag_value_char by (auto simp: list_all_iff)
  have "\<not> is_space (CHR 0x27)" by (simp add: is_space_def)
  then have skip: "skipWhitespace p = p" using assms(3) by (auto intro: skipWhitespace_id simp: quoted_def)
  have "find (\<lambda>c. \<not> is_tag_value_char c) v = None" using assms(2) by (simp add: find_None_iff list_all_iff)
  then show ?thesis
    using assms skip q take_loop_string [OF q assms(4), of None] unescape_id [OF q]
    by (simp add: visitValue_def visitString_def take_token_def consume_def peek_def peek_of_def quoted_def
        validateValue_def)
qed

lemma visitKey_print:
  assumes "has_header p" "k \<noteq> ''''" "list_all is_tag_key_char k" "rest p = k @ c # s"
    "c \<in> {CHR ''='', CHR ''<'', CHR ''>''}"
  shows "visitKey p = Inr (KeyNode k, advance (length k) p)"
proof -
  obtain x xs where k: "k = x # xs" "is_tag_key_char x" using assms(2,3) by (cases k) auto
  have "\<not> list_ex (\<lambda>c. \<not> is_tag_key_char c) k" using assms(3) by (simp add: list_ex_iff list_all_iff)
  then have "validateKey k (advance (length k) p) = Inr ()"
    using assms(1) k tag_key_char by (auto simp: validateKey_def startsWith_def ContainsInvalidTagKeyCharacter_def)
  then show ?thesis
    using assms(2,4) k(1) take_loop_identifier [OF assms(3,5), of None s] tag_key_char(5) [OF k(2)]
    by (simp add: visitKey_def take_token_def peek_def peek_of_def del: validate_advance)
qed

lemma compare_as_header: "has_header p \<Longrightarrow> compare_as c node l r p = Inr (node l r, p)"
  by (simp add: compare_as_def validateWithPreviousComparison_def appendComparisonNode_def)

lemma consume_operator:
  assumes "operator \<in> {''='', ''>='', ''<='', ''<>'', ''>'', ''<''}" "rest p = operator @ quoted v @ s"
  shows "consumeOneOf True [''='', ''>='', ''<='', ''<>'', ''>'', ''<''] (skipWhitespace p) =
    (Some operator, advance (length operator) p)"
proof -
  have "skipWhitespace p = p"
    using assms by (auto intro: skipWhitespace_id simp: is_space_def)
  then show ?thesis using assms
    by (elim insertE) (auto simp: consume_def toLowerCase_def lower_char_def quoted_def)
qed

lemma visitBinary_print_node:
  assumes op: "(operator, node) \<in> {(''='', EqualsNode), (''<>'', NotEqualsNode), (''>='', GreaterThanEqualNode),
        (''>'', GreaterThanNode), (''<'', LessThanNode), (''<='', LessThanEqualNode)}"
    and "has_header p" "valid_operands (KeyNode k) (ConstantNode v)"
    and rest: "rest p = (k @ operator @ quoted v) @ s" and "peek_of s \<noteq> Some (CHR 0x27)"
  shows "visitBinary p =
    Inr (node (KeyNode k) (ConstantNode v), advance (length (k @ operator @ quoted v)) p)"
proof -
  have op': "operator \<in> {''='', ''>='', ''<='', ''<>'', ''>'', ''<''}" using op by auto
  then obtain c os where c: "operator = c # os" "c \<in> {CHR ''='', CHR ''<'', CHR ''>''}" by auto
  have key: "visitKey p = Inr (KeyNode k, advance (length k) p)"
    using assms(2,3) rest c by (intro visitKey_print [of _ _ c "os @ quoted v @ s"]) auto
  have con: "consumeOneOf True [''='', ''>='', ''<='', ''<>'', ''>'', ''<''] (skipWhitespace (advance (length k) p)) =
      (Some operator, advance (length operator) (advance (length k) p))"
    using rest by (intro consume_operator [OF op']) simp
  have val: "visitValue (advance (length k + length operator) p) =
      Inr (ConstantNode v, advance (length k + length operator + length (quoted v)) p)"
    using visitValue_print [of "advance (length k + length operator) p" v s] assms(2,3,5) rest by simp
  have hdr: "compare_as cmp node' l r (advance m p) = Inr (node' l r, advance m p)" for cmp node' l r m
    using assms(2) by (simp add: compare_as_header)
  show ?thesis
    using key con val op assms(2) hdr
    by (elim insertE) (simp_all add: visitBinary_def add.assoc)
qed

lemma visitBinary_print:
  assumes "has_header p" "query_form 0 t" "\<nexists>c. t = ExpressionNode c"
    "rest p = print_query t @ s" "peek_of s \<noteq> Some (CHR 0x27)"
  shows "visitBinary p = Inr (t, advance (length (print_query t)) p)"
proof -
  note node = visitBinary_print_node [OF _ assms(1) _ _ assms(5)]
  show ?thesis
  proof (cases t)
    case (EqualsNode l r)
    then show ?thesis using assms(2,4) node [of "''=''" EqualsNode] by (auto elim!: valid_operandsE)
  next
    case (NotEqualsNode l r)
    then show ?thesis using assms(2,4) node [of "''<>''" NotEqualsNode] by (auto elim!: valid_operandsE)
  next
    case (GreaterThanNode l r)
    then show ?thesis using assms(2,4) node [of "''>''" GreaterThanNode] by (auto elim!: valid_operandsE)
  next
    case (GreaterThanEqualNode l r)
    then show ?thesis using assms(2,4) node [of "''>=''" GreaterThanEqualNode] by (auto elim!: valid_operandsE)
  next
    case (LessThanNode l r)
    then show ?thesis using assms(2,4) node [of "''<''" LessThanNode] by (auto elim!: valid_operandsE)
  next
    case (LessThanEqualNode l r)
    then show ?thesis using assms(2,4) node [of "''<=''" LessThanEqualNode] by (auto elim!: valid_operandsE)
  qed (use assms(2,3) in auto)
qed

lemma print_operands_start:
  "valid_operands l r \<Longrightarrow> \<exists>c cs. print_operands op l r = c # cs \<and> is_tag_key_char c"
  by (auto elim!: valid_operandsE simp: neq_Nil_conv)

lemma print_query_start:
  "query_form level t \<Longrightarrow> \<exists>c cs. print_query t = c # cs \<and> \<not> is_space c"
proof (induction level t rule: query_form.induct)
  case (3 level c)
  show ?case by (simp add: is_space_def)
qed (auto dest!: print_operands_start simp: tag_key_char)

text \<open>What a layer of the parser does on the text of a tree that is followed by \<open>s\<close>: it returns the
  tree and stops after its text.\<close>

definition reads :: "(QueryParser \<Rightarrow> visit) \<Rightarrow> nat \<Rightarrow> (string \<Rightarrow> bool) \<Rightarrow> (string \<Rightarrow> string) \<Rightarrow> bool" where
  "reads f level follow after \<longleftrightarrow>
     (\<forall>p t s. has_header p \<longrightarrow> query_form level t \<longrightarrow> dropWhile is_space (rest p) = print_query t @ s \<longrightarrow>
        peek_of s \<noteq> Some (CHR 0x27) \<longrightarrow> follow s \<longrightarrow> f p \<noteq> None \<longrightarrow>
        (\<exists>m. f p = Some (Inr (t, advance m p)) \<and> rest (advance m p) = after s))"

lemma readsD:
  assumes "reads f level follow after" "has_header p" "query_form level t"
    "dropWhile is_space (rest p) = print_query t @ s" "peek_of s \<noteq> Some (CHR 0x27)" "follow s" "f p \<noteq> None"
  obtains m where "f p = Some (Inr (t, advance m p))" "rest (advance m p) = after s"
  using assms unfolding reads_def by blast

lemma query_form_0: "query_form (Suc 0) t \<Longrightarrow> (\<nexists>l r. t = AndNode l r) \<Longrightarrow> query_form 0 t"
  by (cases t) auto

lemma query_form_1: "query_form 2 t \<Longrightarrow> (\<nexists>l r. t = OrNode l r) \<Longrightarrow> query_form (Suc 0) t"
  by (cases t) auto

lemma dropWhile_print [simp]: "query_form level t \<Longrightarrow> dropWhile is_space (print_query t @ s) = print_query t @ s"
  using print_query_start [of level t] by auto

lemma bind_visit_Some [simp]: "bind_visit (Some (Inr (t, p))) f = f t p"
  by (simp add: bind_visit_def)

lemma bind_visit_NoneD: "bind_visit v f \<noteq> None \<Longrightarrow> v \<noteq> None"
  by (cases v) (auto simp: bind_visit_def)

lemma is_space_facts [simp]: "is_space (CHR '' '')" "\<not> is_space (CHR ''o'')" "\<not> is_space (CHR ''a'')"
  "\<not> is_space (CHR '')'')" "\<not> is_space (CHR ''('')"
  by (simp_all add: is_space_def)

lemma consume_found:
  "rest p = s @ u \<Longrightarrow> consume s i p = (True, advance (length s) p)"
  by (simp add: consume_def)

lemma consume_word_absent:
  assumes "\<not> starts_word w s" "rest p = dropWhile is_space s" "toLowerCase w = w"
  shows "consume w True (skipWhitespace p) = (False, skipWhitespace p)"
  using assms by (simp add: consume_def starts_word_def rest_skipWhitespace Let_def)

lemma rest_after_skip:
  assumes "rest p = dropWhile is_space s"
  shows "skipWhitespace p = p"
proof -
  have "takeWhile is_space (dropWhile is_space s) = []" by (induction s) auto
  then show ?thesis using assms by (simp add: skipWhitespace_def)
qed

lemma reads_group:
  assumes "reads (visitExpression n) 2 (\<lambda>s. \<not> starts_word ''and'' s \<and> \<not> starts_word ''or'' s) (dropWhile is_space)"
  shows "reads (visitExpressionGroup (Suc n)) 0 (\<lambda>s. True) (\<lambda>s. s)"
  unfolding reads_def
proof (intro allI impI)
  fix p t s
  assume h: "has_header p" and form: "query_form 0 t" and rest: "dropWhile is_space (rest p) = print_query t @ s"
    and peek: "peek_of s \<noteq> Some (CHR 0x27)" and some: "visitExpressionGroup (Suc n) p \<noteq> None"
  obtain k where k: "skipWhitespace p = advance k p" using skipWhitespace_advance by blast
  have rest': "rest (advance k p) = print_query t @ s" using rest k rest_skipWhitespace [of p] by simp
  show "\<exists>m. visitExpressionGroup (Suc n) p = Some (Inr (t, advance m p)) \<and> rest (advance m p) = s"
  proof (cases "\<exists>c. t = ExpressionNode c")
    case True
    then obtain c where c: "t = ExpressionNode c" "query_form 2 c" using form by auto
    let ?p1 = "advance (k + 1) p"
    have con: "consume ''('' False (advance k p) = (True, ?p1)"
      using rest' c by (simp add: consume_def)
    have "visitExpression n ?p1 \<noteq> None" using some con k bind_visit_NoneD by simp
    moreover have "rest ?p1 = print_query c @ '')'' @ s"
      using rest' c by (metis One_nat_def advance_advance append_Cons append_Nil append_assoc drop0 drop_Suc_Cons print_query.simps(11) rest_advance)
    ultimately obtain m where m: "visitExpression n ?p1 = Some (Inr (c, advance m ?p1))"
        "rest (advance m ?p1) = '')'' @ s"
      using assms h c(2) by (elim readsD [of _ _ _ _ ?p1 c "'')'' @ s"]) (auto simp: starts_word_def toLowerCase_def lower_char_def peek_of_def)
    have "skipWhitespace (advance m ?p1) = advance m ?p1" using m(2) by (simp add: skipWhitespace_id)
    moreover have "consume '')'' False (advance m ?p1) = (True, advance 1 (advance m ?p1))"
      using consume_found [OF m(2)] by simp
    moreover have "rest (advance 1 (advance m ?p1)) = s" using m(2) by (simp only: rest_advance) simp
    ultimately show ?thesis using con k m(1) c(1) by (auto intro!: exI [of _ "k + 1 + m + 1"])
  next
    case False
    then have bin: "visitBinary (advance k p) = Inr (t, advance (length (print_query t)) (advance k p))"
      using visitBinary_print [of "advance k p" t s] h form rest' peek by simp
    have "\<exists>c cs. print_query t = c # cs \<and> is_tag_key_char c"
      using form False by (cases t) (auto dest!: print_operands_start)
    then have "consume ''('' False (advance k p) = (False, advance k p)"
      using rest' tag_key_char by (auto simp: consume_def)
    moreover have "rest (advance (length (print_query t)) (advance k p)) = s"
      using rest' by (simp only: rest_advance) simp
    ultimately show ?thesis using k bin by (auto intro!: exI [of _ "k + length (print_query t)"])
  qed
qed

text \<open>The two binary layers have the same shape: operands of the level below, joined by a word.\<close>

lemma reads_chain:
  fixes lower layer :: "nat \<Rightarrow> QueryParser \<Rightarrow> visit"
  assumes step: "\<And>p. layer (Suc n) p =
      bind_visit (lower n p) (\<lambda>left p1.
        let (found, p2) = consume w True (skipWhitespace p1) in
        if found then (if \<not> ok p2 then Some (Inl (e p2))
          else bind_visit (layer n p2) (\<lambda>right p3. Some (Inr (node left right, p3))))
        else Some (Inr (left, p2)))"
    and ok: "\<And>p. has_header p \<Longrightarrow> ok p"
    and lower: "reads (lower n) low follow_low after"
    and self: "reads (layer n) high follow (dropWhile is_space)"
    and after: "\<And>s. dropWhile is_space (after s) = dropWhile is_space s"
    and w: "toLowerCase w = w" "\<And>u. dropWhile is_space (w @ u) = w @ u"
    and form: "\<And>l r. query_form high (node l r) \<Longrightarrow> query_form low l \<and> query_form high r"
    and form_low: "\<And>t. query_form high t \<Longrightarrow> \<forall>l r. t \<noteq> node l r \<Longrightarrow> query_form low t"
    and print: "\<And>l r. print_query (node l r) = print_query l @ '' '' @ w @ '' '' @ print_query r"
    and follow_w: "\<And>u. follow_low ('' '' @ w @ u)"
    and follow: "\<And>s. follow s \<Longrightarrow> follow_low s \<and> \<not> starts_word w s"
  shows "reads (layer (Suc n)) high follow (dropWhile is_space)"
  unfolding reads_def
proof (intro allI impI)
  fix p t s
  assume h: "has_header p" and t: "query_form high t" and rest: "dropWhile is_space (rest p) = print_query t @ s"
    and peek: "peek_of s \<noteq> Some (CHR 0x27)" and fol: "follow s" and some: "layer (Suc n) p \<noteq> None"
  have low_some: "lower n p \<noteq> None" using some unfolding step by (rule bind_visit_NoneD)
  show "\<exists>m. layer (Suc n) p = Some (Inr (t, advance m p)) \<and> rest (advance m p) = dropWhile is_space s"
  proof (cases "\<exists>l r. t = node l r")
    case True
    then obtain l r where lr: "t = node l r" "query_form low l" "query_form high r" using t form by blast
    have "dropWhile is_space (rest p) = print_query l @ ('' '' @ w @ '' '' @ print_query r @ s)"
      using rest lr(1) print by simp
    then obtain m where m: "lower n p = Some (Inr (l, advance m p))"
        "rest (advance m p) = after ('' '' @ w @ '' '' @ print_query r @ s)"
      using lower h lr(2) low_some follow_w [of "'' '' @ print_query r @ s"]
      by (elim readsD [of _ _ _ _ p l]) (auto simp: peek_of_def)
    obtain k where k: "skipWhitespace (advance m p) = advance k p" using skipWhitespace_advance [of "advance m p"] by auto
    have rk: "rest (advance k p) = w @ '' '' @ print_query r @ s"
      using rest_skipWhitespace [of "advance m p"] k m(2) after w(2) by simp
    have con: "consume w True (advance k p) = (True, advance (k + length w) p)"
      using consume_found [OF rk] by simp
    have "rest (advance (k + length w) p) = '' '' @ print_query r @ s"
      using rk by (metis advance_advance append_eq_conv_conj rest_advance)
    moreover have "layer n (advance (k + length w) p) \<noteq> None"
      using some step m(1) k con ok h bind_visit_NoneD by fastforce
    ultimately obtain j where "layer n (advance (k + length w) p) = Some (Inr (r, advance j (advance (k + length w) p)))"
        "rest (advance j (advance (k + length w) p)) = dropWhile is_space s"
      using self h lr(3) peek fol by (elim readsD [of _ _ _ _ "advance (k + length w) p" r s]) auto
    then show ?thesis using step m(1) k con ok h lr(1) by (auto intro!: exI [of _ "k + length w + j"])
  next
    case False
    then have "query_form low t" using t form_low by blast
    then obtain m where m: "lower n p = Some (Inr (t, advance m p))" "rest (advance m p) = after s"
      using lower h rest peek fol follow low_some by (elim readsD [of _ _ _ _ p t s]) auto
    obtain k where k: "skipWhitespace (advance m p) = advance k p" using skipWhitespace_advance [of "advance m p"] by auto
    have rk: "rest (advance k p) = dropWhile is_space s"
      using rest_skipWhitespace [of "advance m p"] k m(2) after by simp
    have "consume w True (advance k p) = (False, advance k p)"
      using consume_word_absent [OF _ rk w(1)] fol follow rest_after_skip [OF rk] by simp
    then show ?thesis using step m(1) k rk by (auto intro!: exI [of _ k])
  qed
qed

lemma reads_None [simp]: "reads (\<lambda>p. None) level follow after"
  by (simp add: reads_def)

lemma reads_unary:
  assumes "reads (visitExpressionGroup n) 0 (\<lambda>s. True) (\<lambda>s. s)"
  shows "reads (visitUnary (Suc n)) 0 (\<lambda>s. True) (\<lambda>s. s)"
  unfolding reads_def
proof (intro allI impI)
  fix p t s
  assume h: "has_header p" and form: "query_form 0 t" and rest: "dropWhile is_space (rest p) = print_query t @ s"
    and peek: "peek_of s \<noteq> Some (CHR 0x27)" and some: "visitUnary (Suc n) p \<noteq> None"
  obtain k where k: "skipWhitespace p = advance k p" using skipWhitespace_advance by blast
  have "dropWhile is_space (rest (advance k p)) = print_query t @ s"
    using rest_skipWhitespace [of p] rest k form by simp
  then obtain m where "visitExpressionGroup n (advance k p) = Some (Inr (t, advance m (advance k p)))"
      "rest (advance m (advance k p)) = s"
    using assms h form peek some k by (elim readsD [of _ _ _ _ "advance k p" t s]) auto
  then show "\<exists>m. visitUnary (Suc n) p = Some (Inr (t, advance m p)) \<and> rest (advance m p) = s"
    using k by (auto intro!: exI [of _ "k + m"])
qed

lemma reads_visit:
  "reads (visitExpression n) 2 (\<lambda>s. \<not> starts_word ''and'' s \<and> \<not> starts_word ''or'' s) (dropWhile is_space) \<and>
   reads (visitOr n) 2 (\<lambda>s. \<not> starts_word ''and'' s \<and> \<not> starts_word ''or'' s) (dropWhile is_space) \<and>
   reads (visitAnd n) 1 (\<lambda>s. \<not> starts_word ''and'' s) (dropWhile is_space) \<and>
   reads (visitUnary n) 0 (\<lambda>s. True) (\<lambda>s. s) \<and>
   reads (visitExpressionGroup n) 0 (\<lambda>s. True) (\<lambda>s. s)"
proof (induction n)
  case (Suc n)
  have "reads (visitAnd (Suc n)) 1 (\<lambda>s. \<not> starts_word ''and'' s) (dropWhile is_space)"
    by (rule reads_chain [where lower = visitUnary and low = 0 and follow_low = "\<lambda>s. True" and after = "\<lambda>s. s"
          and w = "''and''" and ok = "\<lambda>_. True" and e = "\<lambda>_. GenericError" and node = AndNode])
      (use Suc query_form_0 in \<open>auto simp: toLowerCase_def lower_char_def Let_def split_def cong: if_cong\<close>)
  moreover have "reads (visitOr (Suc n)) 2 (\<lambda>s. \<not> starts_word ''and'' s \<and> \<not> starts_word ''or'' s) (dropWhile is_space)"
    by (rule reads_chain [where lower = visitAnd and low = 1 and follow_low = "\<lambda>s. \<not> starts_word ''and'' s"
          and after = "dropWhile is_space" and w = "''or''" and ok = has_header
          and e = "\<lambda>p. throw_at p ''unexpected or''" and node = OrNode])
      (use Suc query_form_1 in \<open>auto simp: toLowerCase_def lower_char_def starts_word_def\<close>)
  ultimately show ?case using Suc reads_group reads_unary by (simp add: reads_def)
qed simp

lemma parseQuery_print:
  assumes "query_form 2 t" "has_header (new_QueryParser (print_query t) header)"
  shows "parseQuery (print_query t) header = Inr t"
proof -
  let ?p = "new_QueryParser (print_query t) header" and ?n = "query_fuel (print_query t)"
  have r: "rest ?p = print_query t" by (simp add: rest_def new_QueryParser_def)
  have "visitQuery ?n ?p \<noteq> None" using visitQuery_total by blast
  then have some: "visitExpression ?n ?p \<noteq> None" by (auto simp: visitQuery_def split: option.splits)
  have start: "dropWhile is_space (rest ?p) = print_query t @ ''''"
    using r dropWhile_print [OF assms(1), of "''''"] by simp
  obtain m where m: "visitExpression ?n ?p = Some (Inr (t, advance m ?p))" "rest (advance m ?p) = ''''"
    by (rule readsD [OF reads_visit [THEN conjunct1] assms(2,1) start _ _ some])
      (simp_all add: starts_word_def toLowerCase_def peek_of_def)
  have "skipWhitespace (advance m ?p) = advance m ?p" using m(2) by (simp add: skipWhitespace_def)
  moreover have "assertEndOfQuery (advance m ?p) = Inr ()"
    using m(2) by (simp add: assertEndOfQuery_def rest_def advance_def new_QueryParser_def)
  ultimately show ?thesis using m(1) by (simp add: parseQuery_def visitQuery_def)
qed

section \<open>The contract with the conditional headers\<close>

text \<open>
  What the clients of the interpreter rely on: a condition that compiles decides, for every blob it
  has a meaning for, whether the blob is selected, by an empty or a non-empty list.
\<close>

locale tag_filter =
  fixes compile :: "string \<Rightarrow> string \<Rightarrow> ('b \<Rightarrow> 'c list result) result"
    and meaning :: "string \<Rightarrow> string \<Rightarrow> ('b \<Rightarrow> bool) option"
  assumes decides: "compile q header = Inr f \<Longrightarrow> meaning q header = Some P \<Longrightarrow>
    \<exists>c. f b = Inr c \<and> (c \<noteq> [] \<longleftrightarrow> P b)"
begin

lemma check_outcome:
  assumes "compile q header = Inr f" "meaning q header = Some P"
  shows "bind_result (compile q header) (\<lambda>f. bind_result (f b) (\<lambda>c. if c = [] then Inl e else Inr ())) =
    (if P b then Inr () else Inl e)"
  using assms(1) decides [OF assms, of b] by auto

end

lemma generate_correct:
  assumes "generateQueryBlobWithTagsWhereFunction (Some q) header = Inr f"
  shows "\<exists>t. parseQuery q header = Inr t \<and>
    (compared_keys t \<inter> set objectPrototypeKeys = {} \<longrightarrow>
     (\<forall>b. \<exists>c. f b = Inr c \<and> (c \<noteq> [] \<longleftrightarrow> query_holds t (tags_of b)) \<and> reports (tags_of b) c))"
proof -
  obtain t where t: "parseQuery q header = Inr t" "f = (\<lambda>b. executeQuery b t)"
    using assms by (auto simp: generateQueryBlobWithTagsWhereFunction_def bind_result_Inr_iff split: if_splits)
  then show ?thesis
    using evaluate_correct [OF parseQuery_parsed_tree [OF t(1)]] by (auto simp: executeQuery_def)
qed

text \<open>The meaning of a header: that of the parsed tree, unless it compares an inherited name.\<close>

definition header_meaning :: "string \<Rightarrow> string \<Rightarrow> (FilterBlobModel \<Rightarrow> bool) option" where
  "header_meaning q header =
     (case parseQuery q (Some header) of
        Inl e \<Rightarrow> None
      | Inr t \<Rightarrow> if list_ex (\<lambda>x. fst x \<in> set objectPrototypeKeys) (comparisons t) then None
               else Some (\<lambda>b. query_holds t (tags_of b)))"

interpretation if_tags: tag_filter
  "\<lambda>q header. generateQueryBlobWithTagsWhereFunction (Some q) (Some header)" header_meaning
proof
  fix q header f P b
  assume f: "generateQueryBlobWithTagsWhereFunction (Some q) (Some header) = Inr f"
    and P: "header_meaning q header = Some P"
  then obtain t where "parseQuery q (Some header) = Inr t" "P = (\<lambda>b. query_holds t (tags_of b))"
      "compared_keys t \<inter> set objectPrototypeKeys = {}"
    by (auto simp: header_meaning_def compared_keys_def list_ex_iff split: sum.splits if_splits)
  then show "\<exists>c. f b = Inr c \<and> (c \<noteq> [] \<longleftrightarrow> P b)"
    using generate_correct [OF f] by auto
qed

text \<open>Two queries that the witnesses below use: \<open>a='1' AND b>='x' AND b<'z'\<close> and
  \<open>a AND b='x'\<close>.\<close>

definition range_query :: string where
  "range_query = ''a='' @ quoted ''1'' @ '' AND b>='' @ quoted ''x'' @ '' AND b<'' @ quoted ''z''"

definition range_tree :: IQueryNode where
  "range_tree = AndNode (EqualsNode (KeyNode ''a'') (ConstantNode ''1''))
     (AndNode (GreaterThanEqualNode (KeyNode ''b'') (ConstantNode ''x''))
       (LessThanNode (KeyNode ''b'') (ConstantNode ''z'')))"

definition bare_key_query :: string where
  "bare_key_query = ''a AND b='' @ quoted ''x''"

lemma parse_range_query: "parseQuery range_query None = Inr range_tree"
  by code_simp

lemma parse_bare_key_query:
  "parseQuery bare_key_query None =
     Inr (AndNode (KeyNode ''a'') (EqualsNode (KeyNode ''b'') (ConstantNode ''x'')))"
  by code_simp

section \<open>Properties\<close>

text \<open>
  C13: The parser terminates: on every query, with the fuel \<open>5 * length + 5\<close> that
  \<open>parseQuery\<close> gives it, the recursive descent returns a tree or an error.
\<close>

theorem query_parser_total:
  "\<exists>r. visitQuery (5 * length q + 5) (new_QueryParser q header) = Some r"
  using visitQuery_total [of q header] by (simp only: query_fuel_def)

text \<open>
  C10: Round trip. For every tree of the grammar (chains of \<open>or\<close> over chains of \<open>and\<close> over
  comparisons and parenthesised groups, with non-empty keys and values of the permitted characters)
  parsing its text as the value of a condition header gives back that tree.
\<close>

theorem query_print_parse:
  assumes "query_form 2 t" "header \<noteq> ''''"
  shows "parseQuery (print_query t) (Some header) = Inr t"
  using assms by (intro parseQuery_print) (simp_all add: has_header_def new_QueryParser_def)

theorem query_print_parse_witness:
  "parseQuery (print_query (OrNode (AndNode (EqualsNode (KeyNode ''a'') (ConstantNode ''1''))
       (LessThanNode (KeyNode ''b'') (ConstantNode ''x y'')))
     (ExpressionNode (NotEqualsNode (KeyNode ''c'') (ConstantNode '''')))))
     (Some ''x-ms-if-tags'') =
   Inr (OrNode (AndNode (EqualsNode (KeyNode ''a'') (ConstantNode ''1''))
       (LessThanNode (KeyNode ''b'') (ConstantNode ''x y'')))
     (ExpressionNode (NotEqualsNode (KeyNode ''c'') (ConstantNode ''''))))"
  by (rule query_print_parse) (simp_all add: is_tag_key_char_def is_tag_value_char_def in_range_def less_eq_char_def)



text \<open>
  C12: The limits of a search. A query accepted for the \<open>where\<close> parameter has no \<open>or\<close> and no
  \<open><>\<close>, compares at most ten different tags, its keys are \<open>@container\<close> or 1 to 128 permitted
  characters, its values at most 256, and the comparisons on one tag are a single equality or a
  range with at most one lower and one upper bound.
\<close>

theorem search_query_limits:
  assumes "parseQuery q None = Inr t"
  shows "\<not> has_or t \<and> list_all search_comparison (comparisons t) \<and>
    card (compared_keys t - {''@container''}) \<le> 10 \<and> (\<forall>k. range_ok (comparisons_on k t))"
proof -
  obtain p where "visitExpression (query_fuel q) (new_QueryParser q None) = Some (Inr (t, p))"
    using parseQuery_Inr [OF assms] .
  then have "search_step (new_QueryParser q None) t p" by (rule search_step_visit)
  moreover have "limits (new_QueryParser q None)" "\<not> has_header (new_QueryParser q None)"
      "existing (new_QueryParser q None) k = []" for k
    by (simp_all add: limits_def existing_def new_QueryParser_def has_header_def range_ok_def)
  ultimately have *: "limits p" "\<not> has_or t" "list_all search_comparison (comparisons t)"
      "\<And>k. existing p k = comparisons_on k t"
    by (simp_all add: search_step_def)
  have "compared_keys t \<subseteq> dom (comparisonNodes p)"
  proof
    fix k
    assume "k \<in> compared_keys t"
    then have "existing p k \<noteq> []" unfolding *(4) comparisons_on_def compared_keys_def by (auto simp: filter_empty_conv)
    then show "k \<in> dom (comparisonNodes p)" by (auto simp: existing_def split: option.splits)
  qed
  then have "card (compared_keys t - {''@container''}) \<le> card (dom (comparisonNodes p) - {''@container''})"
    using *(1) by (intro card_mono) (auto simp: limits_def)
  then show ?thesis using * by (auto simp: limits_def)
qed

theorem search_query_limits_witness:
  "\<not> has_or range_tree \<and> list_all search_comparison (comparisons range_tree) \<and>
    card (compared_keys range_tree - {''@container''}) \<le> 10 \<and> (\<forall>k. range_ok (comparisons_on k range_tree))"
  by (rule search_query_limits [OF parse_range_query])

text \<open>
  A key without a comparison is accepted beside another condition and always holds: the search
  \<open>a AND b='x'\<close> selects the blobs whose tag \<open>b\<close> is \<open>x\<close>, whether they have a tag \<open>a\<close> or not.
\<close>

lemma bare_key_always_holds:
  "\<exists>f. generateQueryBlobWithTagsWhereFunction (Some bare_key_query) None = Inr f \<and>
    (\<forall>b. \<exists>c. f b = Inr c \<and> (c \<noteq> [] \<longleftrightarrow> tags_of b ''b'' = Some ''x''))"
  by (simp add: generateQueryBlobWithTagsWhereFunction_def parse_bare_key_query executeQuery_def
      node_evaluate_defs eval_both_def compare_content_def get_property_def split: option.splits)

end
