(* ===== verification/Blob_Listing.thy ===== *)
theory Blob_Listing
  imports Tag_Query "HOL-Library.Multiset"
begin

text \<open>
  Pages of a blob listing: \<open>blob/persistence/PageWithDelimiter.ts\<close>, which squashes names into
  prefixes, \<open>FilterBlobPage.ts\<close> for searches by tags, and the way the metadata store of
  \<open>LokiBlobMetadataStore.ts\<close> reads for them. A reader returns the items from an offset on; a
  page keeps reading until it is full or there is nothing left, and returns the name to continue
  after. The fields that the methods change are those of a record; the loop of \<open>fill\<close> depends on
  the reader and may not end, so it is a partial function.
\<close>

section \<open>Pages with prefixes\<close>

record 'a PageWithDelimiter =
  delimiter :: "string option"
  maxResults :: nat
  prefixLength :: nat
  blobItems :: "'a list"
  blobPrefixes :: "string list"
  latestMarker :: string
  isFull :: bool
  isExhausted :: bool

definition new_PageWithDelimiter :: "nat \<Rightarrow> string option \<Rightarrow> string option \<Rightarrow> 'a PageWithDelimiter" where
  "new_PageWithDelimiter maxResults' delimiter' prefix =
     \<lparr>delimiter = delimiter', maxResults = maxResults',
      prefixLength = (case prefix of None \<Rightarrow> 0 | Some p \<Rightarrow> length p),
      blobItems = [], blobPrefixes = [], latestMarker = '''', isFull = False, isExhausted = False\<rparr>"

definition reset :: "'a PageWithDelimiter \<Rightarrow> 'a PageWithDelimiter" where
  "reset p = p\<lparr>blobItems := [], blobPrefixes := [], isFull := False, isExhausted := False, latestMarker := ''''\<rparr>"

definition updateFull :: "'a PageWithDelimiter \<Rightarrow> 'a PageWithDelimiter" where
  "updateFull p = p\<lparr>isFull := (length (blobItems p) + length (blobPrefixes p) = maxResults p)\<rparr>"

definition addItem :: "'a \<Rightarrow> 'a PageWithDelimiter \<Rightarrow> bool \<times> 'a PageWithDelimiter" where
  "addItem item p =
     (if isExhausted p then (False, p)
      else let added = (\<not> isFull p);
               p1 = (if \<not> isFull p then p\<lparr>blobItems := blobItems p @ [item]\<rparr> else p);
               p2 = updateFull p1
           in (added, p2\<lparr>isExhausted := isFull p2\<rparr>))"

text \<open>\<open>Set.add\<close>: iteration is in the order of insertion.\<close>

definition set_add :: "'b \<Rightarrow> 'b list \<Rightarrow> 'b list" where
  "set_add x xs = (if x \<in> set xs then xs else xs @ [x])"

definition addPrefix :: "string \<Rightarrow> 'a PageWithDelimiter \<Rightarrow> bool \<times> 'a PageWithDelimiter" where
  "addPrefix prefix p =
     (if isExhausted p then (False, p)
      else if isFull p
      then let p1 = p\<lparr>isExhausted := prefix \<notin> set (blobPrefixes p)\<rparr>
           in (\<not> isExhausted p1, updateFull p1)
      else (True, updateFull (p\<lparr>blobPrefixes := set_add prefix (blobPrefixes p)\<rparr>)))"

text \<open>\<open>name.indexOf(delimiter, from)\<close>; \<open>None\<close> stands for -1.\<close>

definition js_indexOf :: "string \<Rightarrow> string \<Rightarrow> nat \<Rightarrow> nat option" where
  "js_indexOf s d from =
     (if d = '''' then Some (min from (length s))
      else find (\<lambda>i. take (length d) (drop i s) = d) [from..<length s])"

definition add :: "string \<Rightarrow> 'a \<Rightarrow> 'a PageWithDelimiter \<Rightarrow> (bool \<times> 'a PageWithDelimiter) result" where
  "add name item p =
     (if isExhausted p then Inr (False, p)
      else if name < latestMarker p then Inl GenericError
      else
       let marker = (if name > latestMarker p then name else latestMarker p);
           (added, p') = (case delimiter p of
               Some d \<Rightarrow> (case js_indexOf name d (prefixLength p) of
                   None \<Rightarrow> addItem item p
                 | Some delimiterPosAfterPrefix \<Rightarrow> addPrefix (take (delimiterPosAfterPrefix + 1) name) p)
             | None \<Rightarrow> addItem item p)
       in Inr (added, if added then p'\<lparr>latestMarker := marker\<rparr> else p'))"

fun processList :: "('a \<Rightarrow> string) \<Rightarrow> 'a list \<Rightarrow> 'a PageWithDelimiter \<Rightarrow> (nat \<times> 'a PageWithDelimiter) result" where
  "processList nameFn [] p = Inr (0, p)"
| "processList nameFn (item # docs) p =
     bind_result (add (nameFn item) item p) (\<lambda>(added, p1).
     if isExhausted p1 then Inr (of_bool added, p1)
     else bind_result (processList nameFn docs p1) (\<lambda>(n, p2). Inr (of_bool added + n, p2)))"

text \<open>The loop of \<open>fill\<close> from a state on: the page, the last list read and how many of it were
  added.\<close>

partial_function (option) fill_loop ::
  "(nat \<Rightarrow> 'a list) \<Rightarrow> ('a \<Rightarrow> string) \<Rightarrow> nat \<Rightarrow> 'a list \<Rightarrow> nat \<Rightarrow> 'a PageWithDelimiter \<Rightarrow>
   ('a PageWithDelimiter \<times> 'a list \<times> nat) result option" where
  "fill_loop reader namer offset docs added0 p =
     (if docs = [] then Some (Inr (p, docs, added0))
      else case processList namer docs p of
        Inl e \<Rightarrow> Some (Inl e)
      | Inr (added, p') \<Rightarrow>
          if added < maxResults p' then Some (Inr (p', docs, added))
          else fill_loop reader namer (offset + added) (reader (offset + added)) added p')"

declare fill_loop.simps [code]

definition fill ::
  "(nat \<Rightarrow> 'a list) \<Rightarrow> ('a \<Rightarrow> string) \<Rightarrow> 'a PageWithDelimiter \<Rightarrow>
   ('a list \<times> string list \<times> string) result option" where
  "fill reader namer p =
     map_option (\<lambda>r. bind_result r (\<lambda>(p', docs, added).
       Inr (blobItems p', blobPrefixes p', if added < length docs then latestMarker p' else '''')))
     (fill_loop reader namer 0 (reader 0) 0 p)"

section \<open>Pages of a search\<close>

record 'a FilterBlobPage =
  fp_maxResults :: nat
  fp_items :: "'a list"
  fp_latestMarker :: string
  fp_isFull :: bool
  fp_isExhausted :: bool

definition new_FilterBlobPage :: "nat \<Rightarrow> 'a FilterBlobPage" where
  "new_FilterBlobPage n =
     \<lparr>fp_maxResults = n, fp_items = [], fp_latestMarker = '''', fp_isFull = False, fp_isExhausted = False\<rparr>"

definition fp_reset :: "'a FilterBlobPage \<Rightarrow> 'a FilterBlobPage" where
  "fp_reset p = p\<lparr>fp_items := [], fp_isFull := False, fp_isExhausted := False, fp_latestMarker := ''''\<rparr>"

definition fp_updateFull :: "'a FilterBlobPage \<Rightarrow> 'a FilterBlobPage" where
  "fp_updateFull p = p\<lparr>fp_isFull := (length (fp_items p) = fp_maxResults p)\<rparr>"

definition fp_addItem :: "'a \<Rightarrow> 'a FilterBlobPage \<Rightarrow> bool \<times> 'a FilterBlobPage" where
  "fp_addItem item p =
     (if fp_isExhausted p then (False, p)
      else let added = (\<not> fp_isFull p);
               p1 = (if \<not> fp_isFull p then p\<lparr>fp_items := fp_items p @ [item]\<rparr> else p);
               p2 = fp_updateFull p1
           in (added, p2\<lparr>fp_isExhausted := fp_isFull p2\<rparr>))"

definition fp_add :: "string \<Rightarrow> 'a \<Rightarrow> 'a FilterBlobPage \<Rightarrow> (bool \<times> 'a FilterBlobPage) result" where
  "fp_add name item p =
     (if fp_isExhausted p then Inr (False, p)
      else if name < fp_latestMarker p then Inl GenericError
      else
       let marker = (if name > fp_latestMarker p then name else fp_latestMarker p);
           (added, p') = fp_addItem item p
       in Inr (added, if added then p'\<lparr>fp_latestMarker := marker\<rparr> else p'))"

fun fp_processList :: "('a \<Rightarrow> string) \<Rightarrow> 'a list \<Rightarrow> 'a FilterBlobPage \<Rightarrow> (nat \<times> 'a FilterBlobPage) result" where
  "fp_processList nameFn [] p = Inr (0, p)"
| "fp_processList nameFn (item # docs) p =
     bind_result (fp_add (nameFn item) item p) (\<lambda>(added, p1).
     if fp_isExhausted p1 then Inr (of_bool added, p1)
     else bind_result (fp_processList nameFn docs p1) (\<lambda>(n, p2). Inr (of_bool added + n, p2)))"

partial_function (option) fp_fill_loop ::
  "(nat \<Rightarrow> 'a list) \<Rightarrow> ('a \<Rightarrow> string) \<Rightarrow> nat \<Rightarrow> 'a list \<Rightarrow> nat \<Rightarrow> 'a FilterBlobPage \<Rightarrow>
   ('a FilterBlobPage \<times> 'a list \<times> nat) result option" where
  "fp_fill_loop reader namer offset docs added0 p =
     (if docs = [] then Some (Inr (p, docs, added0))
      else case fp_processList namer docs p of
        Inl e \<Rightarrow> Some (Inl e)
      | Inr (added, p') \<Rightarrow>
          if added < fp_maxResults p' then Some (Inr (p', docs, added))
          else fp_fill_loop reader namer (offset + added) (reader (offset + added)) added p')"

declare fp_fill_loop.simps [code]

definition fp_fill ::
  "(nat \<Rightarrow> 'a list) \<Rightarrow> ('a \<Rightarrow> string) \<Rightarrow> 'a FilterBlobPage \<Rightarrow> ('a list \<times> string) result option" where
  "fp_fill reader namer p =
     map_option (\<lambda>r. bind_result r (\<lambda>(p', docs, added).
       Inr (fp_items p', if added < length docs then fp_latestMarker p' else '''')))
     (fp_fill_loop reader namer 0 (reader 0) 0 p)"

section \<open>Reading from the metadata store\<close>

text \<open>What the listings read of a document; of the blocks, page ranges and the content of a blob only the
  extents that hold them.\<close>

record listed_blob =
  lb_name :: string
  lb_container :: string
  lb_snapshot :: string
  lb_isCommitted :: bool
  lb_tags :: "BlobTag list option"
  lb_committedBlocksInOrder :: "string list option"
  lb_pageRangesInOrder :: "string list option"
  lb_persistency :: "string option"

text \<open>
  A query on a collection of the database, \<open>coll.chain().find(query).where(...).sort(...)
  .offset(offset).limit(limit).data()\<close>, as a function of the condition, the offset and the
  limit. What the listings rely on: for each condition there is one list of the documents found
  that satisfy it, in ascending order of their names, from which offset and limit cut a part.
\<close>

type_synonym loki_chain = "(listed_blob \<Rightarrow> bool) \<Rightarrow> nat \<Rightarrow> nat \<Rightarrow> listed_blob list"

definition sorted_chain :: "loki_chain \<Rightarrow> listed_blob list \<Rightarrow> bool" where
  "sorted_chain chain found \<longleftrightarrow>
     (\<forall>cond. \<exists>docs. mset docs = mset (filter cond found) \<and> sorted (map lb_name docs) \<and>
        (\<forall>offset limit. chain cond offset limit = take limit (drop offset docs)))"

text \<open>A chain over a list in memory, which the witnesses use.\<close>

definition list_chain :: "listed_blob list \<Rightarrow> loki_chain" where
  "list_chain found cond offset limit = take limit (drop offset (sort_key lb_name (filter cond found)))"

definition listBlobs_where :: "string \<Rightarrow> bool \<Rightarrow> bool \<Rightarrow> listed_blob \<Rightarrow> bool" where
  "listBlobs_where marker includeSnapshots includeUncommittedBlobs obj \<longleftrightarrow>
     lb_name obj > marker \<and> (includeSnapshots \<or> length (lb_snapshot obj) = 0) \<and>
     (includeUncommittedBlobs \<or> lb_isCommitted obj)"

definition listBlobs ::
  "loki_chain \<Rightarrow> string option \<Rightarrow> string \<Rightarrow> nat \<Rightarrow> string \<Rightarrow> bool \<Rightarrow> bool \<Rightarrow>
   (listed_blob list \<times> string list \<times> string) result option" where
  "listBlobs chain delimiter' prefix maxResults' marker includeSnapshots includeUncommittedBlobs =
     fill (\<lambda>offset. chain (listBlobs_where marker includeSnapshots includeUncommittedBlobs) offset maxResults')
       lb_name (new_PageWithDelimiter maxResults' delimiter' (Some prefix))"

text \<open>\<open>toBlobTags\<close>: the object keeps one value per key, in the order of the first insertion; a key
  that is \<open>__proto__\<close> is not stored.\<close>

fun put_entry :: "string \<Rightarrow> string \<Rightarrow> (string \<times> string) list \<Rightarrow> (string \<times> string) list" where
  "put_entry k v [] = [(k, v)]"
| "put_entry k v ((k', v') # es) = (if k = k' then (k, v) # es else (k', v') # put_entry k v es)"

definition toBlobTags :: "TagContent list \<Rightarrow> BlobTag list" where
  "toBlobTags input =
     map (\<lambda>(k, v). \<lparr>tag_key = k, tag_value = v\<rparr>)
       (fold (\<lambda>element es.
          case (tc_key element, tc_value element) of
            (Some k, Str v) \<Rightarrow> if k = ''@container'' \<or> k = ''__proto__'' then es else put_entry k v es
          | _ \<Rightarrow> es) input [])"

text \<open>A search: the page read is mapped to filter items, and those that the query does not select are
  dropped. The query is the function \<open>generateQueryBlobWithTagsWhereFunction\<close> returned, which does
  not fail.\<close>

definition filter_item :: "listed_blob \<Rightarrow> FilterBlobModel" where
  "filter_item item = \<lparr>fb_name = lb_name item, fb_containerName = Some (lb_container item), fb_tags = lb_tags item\<rparr>"

definition filter_page :: "(FilterBlobModel \<Rightarrow> TagContent list) \<Rightarrow> listed_blob list \<Rightarrow> FilterBlobModel list" where
  "filter_page filterFunction docs =
     map (\<lambda>b. b\<lparr>fb_tags := Some (toBlobTags (filterFunction b))\<rparr>)
       (filter (\<lambda>b. filterFunction b \<noteq> []) (map filter_item docs))"

definition filterBlobs_where :: "string \<Rightarrow> listed_blob \<Rightarrow> bool" where
  "filterBlobs_where marker obj \<longleftrightarrow> lb_name obj > marker \<and> lb_snapshot obj = ''''"

definition filterBlobs ::
  "loki_chain \<Rightarrow> (FilterBlobModel \<Rightarrow> TagContent list) \<Rightarrow> nat \<Rightarrow> string \<Rightarrow>
   (FilterBlobModel list \<times> string) result option" where
  "filterBlobs chain filterFunction maxResults' marker =
     fp_fill (\<lambda>offset. filter_page filterFunction (chain (filterBlobs_where marker) offset maxResults')) fb_name
       (new_FilterBlobPage maxResults')"

section \<open>What a page holds\<close>

text \<open>The prefix a name is squashed to, if any.\<close>

definition item_prefix :: "string option \<Rightarrow> nat \<Rightarrow> string \<Rightarrow> string option" where
  "item_prefix d from name =
     (case d of None \<Rightarrow> None | Some d' \<Rightarrow> map_option (\<lambda>i. take (i + 1) name) (js_indexOf name d' from))"

definition listed_items :: "('a \<Rightarrow> string option) \<Rightarrow> 'a list \<Rightarrow> 'a list" where
  "listed_items pre ds = filter (\<lambda>x. pre x = None) ds"

definition listed_prefixes :: "('a \<Rightarrow> string option) \<Rightarrow> 'a list \<Rightarrow> string list" where
  "listed_prefixes pre ds = fold (\<lambda>x acc. case pre x of None \<Rightarrow> acc | Some q \<Rightarrow> set_add q acc) ds []"

definition page_prefix :: "('a \<Rightarrow> string) \<Rightarrow> 'a PageWithDelimiter \<Rightarrow> 'a \<Rightarrow> string option" where
  "page_prefix namer p x = item_prefix (delimiter p) (prefixLength p) (namer x)"

text \<open>The page after the documents \<open>ds\<close> were added.\<close>

definition page_holds :: "('a \<Rightarrow> string) \<Rightarrow> 'a PageWithDelimiter \<Rightarrow> 'a list \<Rightarrow> bool" where
  "page_holds namer p ds \<longleftrightarrow>
     blobItems p = listed_items (page_prefix namer p) ds \<and>
     blobPrefixes p = listed_prefixes (page_prefix namer p) ds \<and>
     latestMarker p = (if ds = [] then '''' else namer (last ds)) \<and>
     (isFull p \<longleftrightarrow> length (blobItems p) + length (blobPrefixes p) = maxResults p) \<and>
     length (blobItems p) + length (blobPrefixes p) \<le> maxResults p \<and>
     (isExhausted p \<longrightarrow> isFull p)"

definition same_config :: "'a PageWithDelimiter \<Rightarrow> 'a PageWithDelimiter \<Rightarrow> bool" where
  "same_config p q \<longleftrightarrow> delimiter q = delimiter p \<and> maxResults q = maxResults p \<and> prefixLength q = prefixLength p"

lemma listed_items_append [simp]:
  "listed_items pre (ds @ es) = listed_items pre ds @ listed_items pre es"
  by (simp add: listed_items_def)

lemma listed_snoc:
  "listed_prefixes pre (ds @ [x]) =
     (case pre x of None \<Rightarrow> listed_prefixes pre ds | Some q \<Rightarrow> set_add q (listed_prefixes pre ds))"
  by (simp add: listed_prefixes_def split: option.splits)

lemma page_prefix_update [simp]:
  "page_prefix namer (blobItems_update f p) = page_prefix namer p"
  "page_prefix namer (blobPrefixes_update g p) = page_prefix namer p"
  "page_prefix namer (latestMarker_update h p) = page_prefix namer p"
  "page_prefix namer (isFull_update b p) = page_prefix namer p"
  "page_prefix namer (isExhausted_update b p) = page_prefix namer p"
  by (simp_all add: page_prefix_def fun_eq_iff)

lemma page_prefix_config: "same_config p q \<Longrightarrow> page_prefix namer q = page_prefix namer p"
  by (simp add: same_config_def page_prefix_def fun_eq_iff)

lemma string_not_less_empty [simp]: "\<not> (s :: string) < ''''"
  by simp

text \<open>A document that is offered to a page that is not exhausted is added, or it exhausts a full page.\<close>

lemma add_holds:
  assumes "page_holds namer p ds" "\<not> isExhausted p" "ds = [] \<or> namer (last ds) \<le> namer x"
  shows "\<exists>b p'. add (namer x) x p = Inr (b, p') \<and> same_config p p' \<and>
    (if b then page_holds namer p' (ds @ [x]) else page_holds namer p' ds \<and> isExhausted p')"
proof -
  have le: "\<not> namer x < latestMarker p" "(if namer x > latestMarker p then namer x else latestMarker p) = namer x"
    using assms(1,3) by (cases "namer x"; auto simp: page_holds_def)+
  have full: "isFull p \<or> length (blobItems p) + length (blobPrefixes p) < maxResults p"
    using assms(1) by (auto simp: page_holds_def)
  show ?thesis
  proof (cases "page_prefix namer p x")
    case None
    then have eq: "add (namer x) x p = Inr (case addItem x p of (b, p') \<Rightarrow> (b, if b then p'\<lparr>latestMarker := namer x\<rparr> else p'))"
      using assms(2) le by (auto simp: add_def page_prefix_def item_prefix_def Let_def split: option.splits prod.splits)
    show ?thesis
      using assms None full unfolding eq
      by (auto simp: addItem_def updateFull_def Let_def page_holds_def same_config_def
          listed_snoc listed_items_def)
  next
    case (Some q)
    then have eq: "add (namer x) x p = Inr (case addPrefix q p of (b, p') \<Rightarrow> (b, if b then p'\<lparr>latestMarker := namer x\<rparr> else p'))"
      using assms(2) le by (auto simp: add_def page_prefix_def item_prefix_def Let_def split: option.splits prod.splits)
    have holds: "blobItems p = listed_items (page_prefix namer p) ds"
        "blobPrefixes p = listed_prefixes (page_prefix namer p) ds"
        "isFull p \<longleftrightarrow> length (blobItems p) + length (blobPrefixes p) = maxResults p"
      using assms(1) by (simp_all add: page_holds_def)
    have snoc: "listed_prefixes (page_prefix namer p) (ds @ [x]) = set_add q (blobPrefixes p)"
        "listed_items (page_prefix namer p) (ds @ [x]) = blobItems p"
      using Some holds(1,2) by (simp_all add: listed_snoc listed_items_def)
    consider (new) "isFull p" "q \<notin> set (blobPrefixes p)" | (old) "isFull p" "q \<in> set (blobPrefixes p)"
      | (room) "\<not> isFull p" by blast
    then show ?thesis
    proof cases
      case new
      then show ?thesis using assms(1,2) holds unfolding eq
        by (auto simp: addPrefix_def updateFull_def Let_def page_holds_def same_config_def)
    next
      case old
      then show ?thesis using assms(1,2) holds snoc unfolding eq
        by (auto simp: addPrefix_def updateFull_def Let_def page_holds_def same_config_def set_add_def)
    next
      case room
      then show ?thesis using assms(2) full snoc unfolding eq
        by (auto simp: addPrefix_def updateFull_def Let_def page_holds_def same_config_def set_add_def)
    qed
  qed
qed

lemma same_config_trans: "same_config p q \<Longrightarrow> same_config q r \<Longrightarrow> same_config p r"
  by (simp add: same_config_def)

lemma processList_exhausted: "isExhausted p \<Longrightarrow> processList namer docs p = Inr (0, p)"
  by (cases docs) (simp_all add: add_def)

lemma processList_holds:
  assumes "page_holds namer p ds" "sorted (map namer (ds @ docs))"
  shows "\<exists>n p'. processList namer docs p = Inr (n, p') \<and> same_config p p' \<and> n \<le> length docs \<and>
    page_holds namer p' (ds @ take n docs) \<and> (n < length docs \<longrightarrow> isExhausted p')"
  using assms
proof (induction docs arbitrary: p ds)
  case Nil
  then show ?case by (simp add: same_config_def)
next
  case (Cons x docs)
  show ?case
  proof (cases "isExhausted p")
    case True
    then show ?thesis using Cons.prems(1) processList_exhausted [OF True, of namer "x # docs"] by (simp add: same_config_def)
  next
    case False
    have le: "ds = [] \<or> namer (last ds) \<le> namer x"
      using Cons.prems(2) by (cases ds rule: rev_cases) (auto simp: sorted_append)
    obtain b p1 where b: "add (namer x) x p = Inr (b, p1)" "same_config p p1"
        "if b then page_holds namer p1 (ds @ [x]) else page_holds namer p1 ds \<and> isExhausted p1"
      using add_holds [OF Cons.prems(1) False le] by blast
    show ?thesis
    proof (cases "isExhausted p1")
      case True
      then show ?thesis using b by (cases b) auto
    next
      case False
      then have "b" using b(3) by (simp split: if_splits)
      then obtain n p2 where "processList namer docs p1 = Inr (n, p2)" "same_config p1 p2" "n \<le> length docs"
          "page_holds namer p2 ((ds @ [x]) @ take n docs)" "n < length docs \<longrightarrow> isExhausted p2"
        using Cons.IH [of p1 "ds @ [x]"] b(3) Cons.prems(2) by auto
      then show ?thesis using b(1,2) False \<open>b\<close> same_config_trans by fastforce
    qed
  qed
qed

text \<open>What \<open>fill\<close> returns when the reader cuts a sorted list: the first \<open>n\<close> documents.\<close>

lemma fill_loop_holds:
  assumes "page_holds namer p (take off L)" "sorted (map namer L)" "maxResults p = m" "m \<ge> 1" "off \<le> length L"
    and reader: "\<And>o'. reader o' = take m (drop o' L)"
  shows "\<exists>p' docs n k. fill_loop reader namer off (reader off) a p = Some (Inr (p', docs, k)) \<and>
    same_config p p' \<and> n \<le> length L \<and> page_holds namer p' (take n L) \<and>
    (if k < length docs then n < length L \<and> isExhausted p' else n = length L)"
  using assms(1,3,5)
proof (induction "length L - off" arbitrary: off p a rule: less_induct)
  case less
  let ?docs = "take m (drop off L)"
  have srt: "sorted (map namer (take off L @ ?docs))"
  proof -
    have "take off L @ ?docs = take (off + m) L" by (simp add: take_add)
    then show ?thesis using assms(2) by (simp add: take_map [symmetric] sorted_wrt_take)
  qed
  obtain k p1 where k: "processList namer ?docs p = Inr (k, p1)" "same_config p p1" "k \<le> length ?docs"
      "page_holds namer p1 (take off L @ take k ?docs)" "k < length ?docs \<longrightarrow> isExhausted p1"
    using processList_holds [OF less.prems(1) srt] by blast
  have tk: "take off L @ take k ?docs = take (off + k) L" using k(3) by (simp add: take_add)
  have m1: "maxResults p1 = m" using k(2) less.prems(2) by (simp add: same_config_def)
  show ?case
  proof (cases "?docs = []")
    case True
    then have "off = length L" using assms(4) less.prems(3) by auto
    then show ?thesis using True less.prems(1) reader
      by (subst fill_loop.simps) (auto intro!: exI [of _ p] exI [of _ off] simp: same_config_def)
  next
    case ne: False
    show ?thesis
    proof (cases "k < m")
      case True
      then have loop: "fill_loop reader namer off (reader off) a p = Some (Inr (p1, ?docs, k))"
        using ne k(1) m1 reader by (subst fill_loop.simps) simp
      have fin: "if k < length ?docs then off + k < length L \<and> isExhausted p1 else off + k = length L"
        using k(3,5) True less.prems(3) by auto
      have "off + k \<le> length L" using k(3) less.prems(3) by auto
      then show ?thesis using loop fin k(2,4) tk by (intro exI [of _ p1] exI [of _ ?docs] exI [of _ "off + k"] exI [of _ k]) simp
    next
      case False
      then have km: "k = m" "off + k \<le> length L" using k(3) less.prems(3) by auto
      then have loop: "fill_loop reader namer off (reader off) a p = fill_loop reader namer (off + k) (reader (off + k)) k p1"
        using ne k(1) m1 reader by (subst fill_loop.simps) simp
      have "length L - (off + k) < length L - off" using km assms(4) by simp
      then obtain p' docs n k' where r: "fill_loop reader namer (off + k) (reader (off + k)) k p1 = Some (Inr (p', docs, k'))"
          "same_config p1 p'" "n \<le> length L" "page_holds namer p' (take n L)"
          "if k' < length docs then n < length L \<and> isExhausted p' else n = length L"
        using less.hyps [of "off + k" p1 k] km(2) k(4) tk m1 by auto
      then show ?thesis using loop same_config_trans [OF k(2)]
        by (intro exI [of _ p'] exI [of _ docs] exI [of _ n] exI [of _ k']) simp
    qed
  qed
qed

lemma fill_spec:
  assumes "sorted (map namer L)" "m \<ge> 1" "\<And>o'. reader o' = take m (drop o' L)"
    and pre: "pre = (\<lambda>x. item_prefix d (case prefix of None \<Rightarrow> 0 | Some q \<Rightarrow> length q) (namer x))"
  shows "\<exists>n\<le>length L. \<exists>marker.
    fill reader namer (new_PageWithDelimiter m d prefix) =
      Some (Inr (listed_items pre (take n L), listed_prefixes pre (take n L), marker)) \<and>
    length (listed_items pre (take n L)) + length (listed_prefixes pre (take n L)) \<le> m \<and>
    (n < length L \<longrightarrow> n \<ge> 1 \<and> marker = namer (L ! (n - 1)) \<and>
       length (listed_items pre (take n L)) + length (listed_prefixes pre (take n L)) = m) \<and>
    (n = length L \<longrightarrow> marker = '''')"
proof -
  let ?p = "new_PageWithDelimiter m d prefix"
  have start: "page_holds namer ?p (take 0 L)" "maxResults ?p = m" using assms(2)
    by (simp_all add: page_holds_def new_PageWithDelimiter_def listed_items_def listed_prefixes_def)
  obtain p' docs n k where loop: "fill_loop reader namer 0 (reader 0) 0 ?p = Some (Inr (p', docs, k))"
      "same_config ?p p'" "n \<le> length L" and holds: "page_holds namer p' (take n L)"
      and fin: "if k < length docs then n < length L \<and> isExhausted p' else n = length L"
    using fill_loop_holds [OF start(1) assms(1) start(2) assms(2) _ assms(3), of 0] by auto
  have p': "page_prefix namer p' = pre" "maxResults p' = m"
    using loop(2) pre by (simp_all add: page_prefix_def same_config_def new_PageWithDelimiter_def fun_eq_iff)
  have f: "fill reader namer ?p = Some (Inr (listed_items pre (take n L), listed_prefixes pre (take n L),
      if k < length docs then latestMarker p' else ''''))"
    using loop(1) holds p' by (simp add: fill_def page_holds_def)
  have le: "length (listed_items pre (take n L)) + length (listed_prefixes pre (take n L)) \<le> m"
    using holds p' by (auto simp: page_holds_def)
  have part: "n \<ge> 1 \<and> latestMarker p' = namer (L ! (n - 1)) \<and>
      length (listed_items pre (take n L)) + length (listed_prefixes pre (take n L)) = m" if "n < length L"
  proof -
    have full: "length (listed_items pre (take n L)) + length (listed_prefixes pre (take n L)) = m"
      using fin that holds p' by (auto simp: page_holds_def split: if_splits)
    then have "n \<noteq> 0" using assms(2) by (intro notI) (simp add: listed_items_def listed_prefixes_def)
    then show ?thesis using full holds that by (auto simp: page_holds_def last_conv_nth min_def)
  qed
  have "n < length L \<longrightarrow> k < length docs" "n = length L \<longrightarrow> \<not> k < length docs" using fin by (auto split: if_splits)
  then show ?thesis using f le part loop(3) by (intro exI [of _ n] conjI exI) auto
qed

section \<open>Continuing after the marker\<close>

lemma strict_filter_drop:
  assumes "sorted_wrt (\<lambda>a b. f a < (f b :: 'b::linorder)) L" "1 \<le> n" "n \<le> length L"
  shows "filter (\<lambda>x. f (L ! (n - 1)) < f x) L = drop n L"
proof -
  have L: "L = take n L @ drop n L" by simp
  have low: "\<not> f (L ! (n - 1)) < f x" if x: "x \<in> set (take n L)" for x
  proof -
    obtain i where "i < n" "x = L ! i" using x by (auto simp: in_set_conv_nth)
    moreover from this have "i < n - 1 \<or> i = n - 1" by auto
    ultimately show ?thesis using sorted_wrt_nth_less [OF assms(1), of i "n - 1"] assms(2,3) by fastforce
  qed
  have high: "f (L ! (n - 1)) < f x" if x: "x \<in> set (drop n L)" for x
  proof -
    obtain i where i: "i < length (drop n L)" "x = drop n L ! i" using x by (auto simp: in_set_conv_nth)
    then have "n + i < length L" "x = L ! (n + i)" by auto
    then show ?thesis using sorted_wrt_nth_less [OF assms(1), of "n - 1" "n + i"] assms(2) by auto
  qed
  have "filter (\<lambda>x. f (L ! (n - 1)) < f x) (take n L @ drop n L) = drop n L"
    using low high by (simp only: filter_append) (simp add: filter_empty_conv filter_id_conv)
  then show ?thesis using L by simp
qed

lemma strictly_sorted_names:
  assumes "sorted (map f L)" "distinct (map f L)"
  shows "sorted_wrt (\<lambda>a b. f a < f b) L"
proof -
  have "sorted_wrt (<) (map f L)" using assms by (simp only: strict_sorted_iff)
  then show ?thesis by (simp only: sorted_wrt_map)
qed

lemma mset_filter_eq: "mset xs = mset ys \<Longrightarrow> mset (filter P xs) = mset (filter P ys)"
  by (simp add: mset_filter)

lemma distinct_names_mset: "mset xs = mset ys \<Longrightarrow> distinct (map f ys) \<Longrightarrow> distinct (map f xs)"
  using mset_eq_imp_distinct_iff [of "map f xs" "map f ys"] by simp

text \<open>One request: the documents it covers, and those that the next request has left.\<close>

lemma listBlobs_page:
  assumes chain: "sorted_chain chain found" and m: "1 \<le> m"
    and dist: "distinct (map lb_name (filter (listBlobs_where marker s u) found))"
    and pre: "pre = (\<lambda>b. item_prefix d (length prefix) (lb_name b))"
  shows "\<exists>L n nxt. mset L = mset (filter (listBlobs_where marker s u) found) \<and> n \<le> length L \<and>
    listBlobs chain d prefix m marker s u =
      Some (Inr (listed_items pre (take n L), listed_prefixes pre (take n L), nxt)) \<and>
    length (listed_items pre (take n L)) + length (listed_prefixes pre (take n L)) \<le> m \<and>
    (if nxt = '''' then n = length L
     else n \<ge> 1 \<and> mset (filter (listBlobs_where nxt s u) found) = mset (drop n L) \<and>
       length (listed_items pre (take n L)) + length (listed_prefixes pre (take n L)) = m)"
proof -
  obtain L where L: "mset L = mset (filter (listBlobs_where marker s u) found)" "sorted (map lb_name L)"
      "\<And>off lim. chain (listBlobs_where marker s u) off lim = take lim (drop off L)"
    using chain unfolding sorted_chain_def by blast
  have "distinct (map lb_name L)" using distinct_names_mset [OF L(1) dist] .
  then have strict: "sorted_wrt (\<lambda>a b. lb_name a < lb_name b) L" using L(2) strictly_sorted_names by blast
  obtain n nxt where n: "n \<le> length L" "listBlobs chain d prefix m marker s u =
        Some (Inr (listed_items pre (take n L), listed_prefixes pre (take n L), nxt))"
      "length (listed_items pre (take n L)) + length (listed_prefixes pre (take n L)) \<le> m"
      "n < length L \<longrightarrow> n \<ge> 1 \<and> nxt = lb_name (L ! (n - 1)) \<and>
        length (listed_items pre (take n L)) + length (listed_prefixes pre (take n L)) = m"
      "n = length L \<longrightarrow> nxt = ''''"
    using fill_spec [OF L(2) m L(3), of pre d "Some prefix"] pre by (auto simp: listBlobs_def)
  show ?thesis
  proof (cases "n = length L")
    case True
    then show ?thesis using L(1) n by (intro exI [of _ L] exI [of _ n] exI [of _ nxt]) simp
  next
    case False
    then have part: "n < length L" "n \<ge> 1" "nxt = lb_name (L ! (n - 1))" using n(1,4) by auto
    then have "L ! (n - 1) \<in> set (filter (listBlobs_where marker s u) found)"
      using L(1) by (metis diff_less less_imp_le_nat less_le_trans less_numeral_extra(1) nth_mem set_mset_mset)
    then have gt: "marker < nxt" using part(3) by (simp add: listBlobs_where_def)
    then have "filter (listBlobs_where nxt s u) found =
        filter (\<lambda>b. nxt < lb_name b) (filter (listBlobs_where marker s u) found)"
      by (auto simp: listBlobs_where_def intro!: filter_cong)
    then have "mset (filter (listBlobs_where nxt s u) found) = mset (filter (\<lambda>b. nxt < lb_name b) L)"
      using mset_filter_eq [OF L(1)] by simp
    also have "\<dots> = mset (drop n L)" using strict_filter_drop [OF strict] part by simp
    finally have rest: "mset (filter (listBlobs_where nxt s u) found) = mset (drop n L)" .
    have "nxt \<noteq> ''''" using gt by auto
    then show ?thesis using L(1) n part rest by (intro exI [of _ L] exI [of _ n] exI [of _ nxt]) simp
  qed
qed

text \<open>A client that follows the markers; \<open>None\<close> when a request fails or the fuel is used up.\<close>

fun list_pages ::
  "nat \<Rightarrow> loki_chain \<Rightarrow> string option \<Rightarrow> string \<Rightarrow> nat \<Rightarrow> string \<Rightarrow> bool \<Rightarrow> bool \<Rightarrow>
   (listed_blob list \<times> string list) list option" where
  "list_pages 0 chain d prefix m marker s u = None"
| "list_pages (Suc k) chain d prefix m marker s u =
     (case listBlobs chain d prefix m marker s u of
        Some (Inr (items, prefixes, nxt)) \<Rightarrow>
          if nxt = '''' then Some [(items, prefixes)]
          else map_option ((#) (items, prefixes)) (list_pages k chain d prefix m nxt s u)
      | _ \<Rightarrow> None)"

lemma listed_prefixes_set: "set (listed_prefixes pre ds) = {q. \<exists>x\<in>set ds. pre x = Some q}"
proof (induction ds rule: rev_induct)
  case Nil
  then show ?case by (simp add: listed_prefixes_def)
next
  case (snoc x ds)
  then show ?case by (auto simp: listed_snoc set_add_def split: option.splits)
qed

lemma list_pages_complete:
  assumes chain: "sorted_chain chain found" and m: "1 \<le> m"
    and pre: "pre = (\<lambda>b. item_prefix d (length prefix) (lb_name b))"
  shows "distinct (map lb_name (filter (listBlobs_where marker s u) found)) \<Longrightarrow>
    length (filter (listBlobs_where marker s u) found) < k \<Longrightarrow>
    \<exists>pages. list_pages k chain d prefix m marker s u = Some pages \<and>
      mset (concat (map fst pages)) = mset (listed_items pre (filter (listBlobs_where marker s u) found)) \<and>
      set (concat (map snd pages)) = {q. \<exists>b\<in>set (filter (listBlobs_where marker s u) found). pre b = Some q} \<and>
      list_all (\<lambda>(items, prefixes). length items + length prefixes \<le> m) pages"
proof (induction k arbitrary: marker)
  case (Suc k)
  let ?C = "\<lambda>marker. filter (listBlobs_where marker s u) found"
  obtain L n nxt where L: "mset L = mset (?C marker)" "n \<le> length L"
      "listBlobs chain d prefix m marker s u = Some (Inr (listed_items pre (take n L), listed_prefixes pre (take n L), nxt))"
      "length (listed_items pre (take n L)) + length (listed_prefixes pre (take n L)) \<le> m"
      "if nxt = '''' then n = length L else n \<ge> 1 \<and> mset (?C nxt) = mset (drop n L) \<and>
         length (listed_items pre (take n L)) + length (listed_prefixes pre (take n L)) = m"
    using listBlobs_page [OF chain m Suc.prems(1) pre] by blast
  have split: "mset (listed_items pre (?C marker)) = mset (listed_items pre (take n L)) + mset (listed_items pre (drop n L))"
    using L(1) by (metis append_take_drop_id listed_items_append listed_items_def mset_append mset_filter)
  have sets: "set (?C marker) = set (take n L) \<union> set (drop n L)"
    using L(1) by (metis append_take_drop_id set_append set_mset_mset)
  show ?case
  proof (cases "nxt = ''''")
    case True
    then have all: "take n L = L" using L(5) by simp
    have "mset (listed_items pre L) = mset (listed_items pre (?C marker))"
      unfolding listed_items_def by (rule mset_filter_eq [OF L(1)])
    moreover have "set L = set (?C marker)" using L(1) by (metis set_mset_mset)
    ultimately show ?thesis using True L(3,4) all by (simp add: listed_prefixes_set)
  next
    case False
    then have nx: "n \<ge> 1" "mset (?C nxt) = mset (drop n L)" using L(5) by auto
    have "length (?C nxt) < length (?C marker)"
      using nx L(1,2) by (metis diff_less length_drop less_le_trans mset_eq_length zero_less_one)
    moreover have "distinct (map lb_name (?C nxt))"
    proof -
      have "distinct (map lb_name L)" using distinct_names_mset [OF L(1) Suc.prems(1)] .
      then have "distinct (map lb_name (drop n L))" by (simp add: drop_map [symmetric])
      then show ?thesis by (rule distinct_names_mset [OF nx(2)])
    qed
    ultimately obtain pages where p: "list_pages k chain d prefix m nxt s u = Some pages"
        "mset (concat (map fst pages)) = mset (listed_items pre (?C nxt))"
        "set (concat (map snd pages)) = {q. \<exists>b\<in>set (?C nxt). pre b = Some q}"
        "list_all (\<lambda>(items, prefixes). length items + length prefixes \<le> m) pages"
      using Suc.IH [of nxt] Suc.prems(2) by auto
    have "set (?C nxt) = set (drop n L)" using nx(2) by (metis set_mset_mset)
    moreover have "mset (listed_items pre (?C nxt)) = mset (listed_items pre (drop n L))"
      unfolding listed_items_def by (rule mset_filter_eq [OF nx(2)])
    ultimately show ?thesis using False L(3,4) p split sets
      by (intro exI [of _ "(listed_items pre (take n L), listed_prefixes pre (take n L)) # pages"])
        (auto simp: listed_prefixes_set)
  qed
qed simp

section \<open>A search page is a page without prefixes\<close>

definition embed_page :: "'a FilterBlobPage \<Rightarrow> 'a PageWithDelimiter" where
  "embed_page p = \<lparr>delimiter = None, maxResults = fp_maxResults p, prefixLength = 0, blobItems = fp_items p,
     blobPrefixes = [], latestMarker = fp_latestMarker p, isFull = fp_isFull p, isExhausted = fp_isExhausted p\<rparr>"

lemma add_embed: "add name x (embed_page p) = map_sum id (map_prod id embed_page) (fp_add name x p)"
  by (simp add: add_def fp_add_def addItem_def fp_addItem_def updateFull_def fp_updateFull_def embed_page_def Let_def)

lemma processList_embed: "processList namer docs (embed_page p) = map_sum id (map_prod id embed_page) (fp_processList namer docs p)"
proof (induction docs arbitrary: p)
  case (Cons x docs)
  then show ?case
    by (cases "fp_add (namer x) x p")
      (auto simp: id_def add_embed bind_result_def embed_page_def [THEN arg_cong [where f = isExhausted]]
        split: sum.splits prod.splits)
qed simp

lemma fill_loop_embed:
  "fp_fill_loop reader namer offset docs a p = Some r \<Longrightarrow>
   fill_loop reader namer offset docs a (embed_page p) = Some (map_sum id (map_prod embed_page id) r)"
proof (induction rule: fp_fill_loop.raw_induct [rotated, consumes 1, case_names step])
  case (step loop reader namer offset docs a p r)
  then show ?case
    by (subst fill_loop.simps)
      (auto simp: id_def processList_embed embed_page_def [THEN arg_cong [where f = maxResults]] split: if_splits sum.splits)
qed

lemma fill_loop_embed_converse:
  "fill_loop reader namer offset docs a q = Some r \<Longrightarrow> q = embed_page p \<Longrightarrow>
   \<exists>r'. fp_fill_loop reader namer offset docs a p = Some r'"
proof (induction arbitrary: p rule: fill_loop.raw_induct [rotated, consumes 1, case_names step])
  case (step loop reader namer offset docs a q r)
  then show ?case
    by (subst fp_fill_loop.simps)
      (auto simp: id_def processList_embed embed_page_def [THEN arg_cong [where f = maxResults]] split: if_splits sum.splits)
qed

lemma fp_fill_eq_fill:
  fixes reader :: "nat \<Rightarrow> 'a list"
  shows "fp_fill reader namer (new_FilterBlobPage m) =
   map_option (map_sum id (\<lambda>(items, prefixes, marker). (items, marker)))
     (fill reader namer (new_PageWithDelimiter m None None))"
proof -
  have new: "(new_PageWithDelimiter m None None :: 'a PageWithDelimiter) = embed_page (new_FilterBlobPage m)"
    by (simp add: new_PageWithDelimiter_def new_FilterBlobPage_def embed_page_def)
  show ?thesis
  proof (cases "fp_fill_loop reader namer 0 (reader 0) 0 (new_FilterBlobPage m)")
    case None
    then have "fill_loop reader namer 0 (reader 0) 0 (embed_page (new_FilterBlobPage m)) = None"
      using fill_loop_embed_converse [of reader namer 0 "reader 0" 0 "embed_page (new_FilterBlobPage m)" _ "new_FilterBlobPage m"]
      by (cases "fill_loop reader namer 0 (reader 0) 0 (embed_page (new_FilterBlobPage m))") auto
    then show ?thesis using None new by (simp add: fill_def fp_fill_def)
  next
    case (Some r)
    then show ?thesis using fill_loop_embed [OF Some] new
      by (cases r) (auto simp: fill_def fp_fill_def embed_page_def)
  qed
qed

section \<open>Examples\<close>

text \<open>The prefix a blob is listed under, for a request with a delimiter and a prefix.\<close>

definition blob_prefix :: "string option \<Rightarrow> string \<Rightarrow> listed_blob \<Rightarrow> string option" where
  "blob_prefix d prefix b = item_prefix d (length prefix) (lb_name b)"

definition example_blob :: "string \<Rightarrow> string \<Rightarrow> BlobTag list \<Rightarrow> listed_blob" where
  "example_blob name snapshot tags = \<lparr>lb_name = name, lb_container = ''c'', lb_snapshot = snapshot,
     lb_isCommitted = True, lb_tags = Some tags, lb_committedBlocksInOrder = None, lb_pageRangesInOrder = None,
     lb_persistency = Some (''extent-'' @ name @ snapshot)\<rparr>"

lemma list_chain_sorted: "sorted_chain (list_chain found) found"
  unfolding sorted_chain_def
proof (intro allI)
  fix cond
  show "\<exists>docs. mset docs = mset (filter cond found) \<and> sorted (map lb_name docs) \<and>
      (\<forall>offset limit. list_chain found cond offset limit = take limit (drop offset docs))"
    by (intro exI [of _ "sort_key lb_name (filter cond found)"]) (simp add: list_chain_def)
qed

text \<open>
  Blobs with the same name are lost between pages: listing a blob and its snapshot with one
  result per page returns the blob and its name as the marker, and the request after the marker
  returns nothing, so the snapshot is never listed.
\<close>

lemma paging_loses_snapshots:
  "listBlobs (list_chain [example_blob ''x'' '''' [], example_blob ''x'' ''2020'' []]) None '''' 1 '''' True False =
     Some (Inr ([example_blob ''x'' '''' []], [], ''x'')) \<and>
   listBlobs (list_chain [example_blob ''x'' '''' [], example_blob ''x'' ''2020'' []]) None '''' 1 ''x'' True False =
     Some (Inr ([], [], ''''))"
  by code_simp

text \<open>
  Only the first character of a longer delimiter is kept in a prefix.
\<close>

lemma long_delimiter_is_cut:
  "listBlobs (list_chain [example_blob ''a--b'' '''' []]) (Some ''--'') '''' 1 '''' False False =
     Some (Inr ([], [''a-''], ''''))"
  by code_simp

section \<open>Properties\<close>



text \<open>
  C16: A client that follows the markers sees every blob exactly once and every prefix, in pages of at
  most \<open>maxResults\<close> entries, after at most as many requests as there are candidates, plus one.
\<close>

theorem list_blobs_complete:
  assumes "sorted_chain chain found" "1 \<le> m"
    and "distinct (map lb_name (filter (listBlobs_where marker s u) found))"
    and "length (filter (listBlobs_where marker s u) found) < k"
  shows "\<exists>pages. list_pages k chain d prefix m marker s u = Some pages \<and>
      mset (concat (map fst pages)) = mset (listed_items (blob_prefix d prefix) (filter (listBlobs_where marker s u) found)) \<and>
      set (concat (map snd pages)) = {q. \<exists>b\<in>set (filter (listBlobs_where marker s u) found). blob_prefix d prefix b = Some q} \<and>
      list_all (\<lambda>(items, prefixes). length items + length prefixes \<le> m) pages"
  by (rule list_pages_complete [OF assms(1,2) _ assms(3,4)]) (simp add: blob_prefix_def fun_eq_iff)

theorem list_blobs_complete_witness:
  "\<exists>pages. list_pages 3 (list_chain [example_blob ''b'' '''' [], example_blob ''a'' '''' []]) None '''' 1 '''' False False =
      Some pages \<and> size (mset (concat (map fst pages))) = 2"
  using list_blobs_complete [OF list_chain_sorted, of 1 "''''" False False
      "[example_blob ''b'' '''' [], example_blob ''a'' '''' []]" 3 None "''''"]
  by (fastforce simp: example_blob_def listBlobs_where_def listed_items_def blob_prefix_def item_prefix_def)

text \<open>
  A search stops at the first page without a match: the tags are tested after the page is cut, so
  if none of the first \<open>maxResults\<close> blobs matches, the search returns nothing and no marker,
  whatever follows.
\<close>

lemma search_stops_at_first_empty_page:
  assumes "\<forall>b\<in>set (chain (filterBlobs_where marker) 0 m). filterFunction (filter_item b) = []"
  shows "filterBlobs chain filterFunction m marker = Some (Inr ([], ''''))"
proof -
  have "filter_page filterFunction (chain (filterBlobs_where marker) 0 m) = []"
    using assms by (simp add: filter_page_def filter_empty_conv)
  then show ?thesis
    by (simp add: filterBlobs_def fp_fill_def fp_fill_loop.simps new_FilterBlobPage_def)
qed

text \<open>
  The page of a search behaves like the page of a listing without a delimiter, for every reader,
  also one that makes the loop run forever.
\<close>

lemma search_page_is_plain_page:
  "fp_fill reader namer (new_FilterBlobPage m) =
   map_option (map_sum id (\<lambda>(items, prefixes, marker). (items, marker)))
     (fill reader namer (new_PageWithDelimiter m None None))"
  by (rule fp_fill_eq_fill)

end
