(* ===== verification/Garbage_Collection.thy ===== *)
theory Garbage_Collection
  imports Blob_Listing
begin

text \<open>
  Mark and sweep over the extents that hold blob and message contents: \<open>blob/gc/BlobGCManager.ts\<close>,
  \<open>queue/gc/QueueGCManager.ts\<close>, the iterators over referred extents
  (\<open>blob/persistence/BlobReferredExtentsAsyncIterator.ts\<close>,
  \<open>queue/persistence/QueueReferredExtentsAsyncIterator.ts\<close>) and over all extents
  (\<open>common/persistence/AllExtentsAsyncIterator.ts\<close>), and the listings of the Loki store behind them. An
  iterator is a function from its state to a result and a new state. The status of the manager can
  change between any two awaited calls, so the code's tests read it from a sequence. The metadata
  does not change during a run.
\<close>

section \<open>Iterators\<close>

record IteratorResult =
  res_done :: bool
  res_value :: "string list"

text \<open>A listing by pages: from a marker to the entries of the page and the next marker.\<close>

type_synonym ('m, 'v) pager = "'m option \<Rightarrow> 'v list \<times> 'm option"

record 'm paged_iterator =
  it_done :: bool
  it_marker :: "'m option"

definition new_paged_iterator :: "'m paged_iterator" where
  "new_paged_iterator = \<lparr>it_done = False, it_marker = None\<rparr>"

definition AllExtentsAsyncIterator_next ::
  "('m, string) pager \<Rightarrow> 'm paged_iterator \<Rightarrow> IteratorResult \<times> 'm paged_iterator" where
  "AllExtentsAsyncIterator_next listExtents it =
     (if it_done it then (\<lparr>res_done = True, res_value = []\<rparr>, it)
      else let (extents, nextMarker) = listExtents (it_marker it) in
      (\<lparr>res_done = False, res_value = extents\<rparr>,
       it\<lparr>it_marker := nextMarker, it_done := (if nextMarker = None then True else it_done it)\<rparr>))"

definition QueueReferredExtentsAsyncIterator_next ::
  "('m, string) pager \<Rightarrow> 'm paged_iterator \<Rightarrow> IteratorResult \<times> 'm paged_iterator" where
  "QueueReferredExtentsAsyncIterator_next listMessages it =
     (if it_done it then (\<lparr>res_done = True, res_value = []\<rparr>, it)
      else let (messages, nextMarker) = listMessages (it_marker it) in
      (\<lparr>res_done = False, res_value = messages\<rparr>,
       it\<lparr>it_marker := nextMarker, it_done := (if nextMarker = None then True else it_done it)\<rparr>))"

datatype State = LISTING_EXTENTS_IN_BLOBS | LISTING_EXTENTS_IN_BLOCKS | DONE

record blob_iterator =
  it_state :: State
  blobListingMarker :: "string option"
  blockListingMarker :: "int option"

definition new_blob_iterator :: blob_iterator where
  "new_blob_iterator = \<lparr>it_state = LISTING_EXTENTS_IN_BLOBS, blobListingMarker = None, blockListingMarker = None\<rparr>"

definition list_or_empty :: "'a list option \<Rightarrow> 'a list" where
  "list_or_empty l = (case l of None \<Rightarrow> [] | Some xs \<Rightarrow> xs)"

text \<open>The extents one blob refers to.\<close>

definition blob_extents :: "listed_blob \<Rightarrow> string list" where
  "blob_extents b = list_or_empty (lb_committedBlocksInOrder b) @ list_or_empty (lb_pageRangesInOrder b) @
     (case lb_persistency b of None \<Rightarrow> [] | Some i \<Rightarrow> [i])"

definition BlobReferredExtentsAsyncIterator_next ::
  "(string, listed_blob) pager \<Rightarrow> (int, string) pager \<Rightarrow> blob_iterator \<Rightarrow> IteratorResult \<times> blob_iterator" where
  "BlobReferredExtentsAsyncIterator_next listAllBlobs listUncommittedBlocks it =
     (case it_state it of
        LISTING_EXTENTS_IN_BLOBS \<Rightarrow>
          (let (blobs, marker) = listAllBlobs (blobListingMarker it) in
           (\<lparr>res_done = False, res_value = concat (map blob_extents blobs)\<rparr>,
            it\<lparr>blobListingMarker := marker,
               it_state := (if marker = None then LISTING_EXTENTS_IN_BLOCKS else it_state it)\<rparr>))
      | LISTING_EXTENTS_IN_BLOCKS \<Rightarrow>
          (let (blocks, marker) = listUncommittedBlocks (blockListingMarker it) in
           (\<lparr>res_done = False, res_value = blocks\<rparr>,
            it\<lparr>blockListingMarker := marker, it_state := (if marker = None then DONE else it_state it)\<rparr>))
      | DONE \<Rightarrow> (\<lparr>res_done = True, res_value = []\<rparr>, it))"

section \<open>The listings of the Loki store\<close>

definition DEFAULT_LIST_BLOBS_MAX_RESULTS :: nat where
  "DEFAULT_LIST_BLOBS_MAX_RESULTS = 5000"

text \<open>\<open>listAllBlobs\<close>: one document more than asked for tells whether there is another page.\<close>

definition listAllBlobs ::
  "loki_chain \<Rightarrow> nat option \<Rightarrow> string option \<Rightarrow> bool \<Rightarrow> bool \<Rightarrow> listed_blob list \<times> string option" where
  "listAllBlobs chain maxResults' marker' includeSnapshots includeUncommittedBlobs =
     (let m = (case maxResults' of None \<Rightarrow> DEFAULT_LIST_BLOBS_MAX_RESULTS | Some n \<Rightarrow> n);
          marker = (case marker' of None \<Rightarrow> '''' | Some s \<Rightarrow> s);
          docs = chain (listBlobs_where marker includeSnapshots includeUncommittedBlobs) 0 (m + 1) in
      if length docs \<le> m then (docs, None)
      else (butlast docs, Some (lb_name (docs ! (length docs - 2)))))"

text \<open>A block is its \<open>$loki\<close> number and the extent of its chunk; the query on the collection returns
  the blocks above a number in ascending order, up to a limit. The marker is the number in
  decimal.\<close>

type_synonym block_chain = "int \<Rightarrow> nat \<Rightarrow> (int \<times> string) list"

definition sorted_block_chain :: "block_chain \<Rightarrow> (int \<times> string) list \<Rightarrow> bool" where
  "sorted_block_chain chain blocks \<longleftrightarrow>
     (\<exists>L. mset L = mset blocks \<and> sorted_wrt (\<lambda>a b. fst a < fst b) L \<and> list_all (\<lambda>b. 0 \<le> fst b) L \<and>
        (\<forall>marker limit. chain marker limit = take limit (filter (\<lambda>b. fst b > marker) L)))"

definition listUncommittedBlockPersistencyChunks ::
  "block_chain \<Rightarrow> nat \<Rightarrow> int option \<Rightarrow> string list \<times> int option" where
  "listUncommittedBlockPersistencyChunks chain maxResults' marker' =
     (let marker = (case marker' of None \<Rightarrow> -1 | Some n \<Rightarrow> n);
          blockDocs = chain marker (maxResults' + 1) in
      if length blockDocs \<le> maxResults' then (map snd blockDocs, None)
      else let docs = butlast blockDocs in (map snd docs, Some (fst (docs ! (maxResults' - 1)))))"

text \<open>\<open>iteratorExtents\<close> of the Loki blob store: the pages have their default sizes.\<close>

definition blob_iteratorExtents ::
  "loki_chain \<Rightarrow> block_chain \<Rightarrow> blob_iterator \<Rightarrow> IteratorResult \<times> blob_iterator" where
  "blob_iteratorExtents chain blocks =
     BlobReferredExtentsAsyncIterator_next (\<lambda>marker. listAllBlobs chain None marker True True)
       (listUncommittedBlockPersistencyChunks blocks 2000)"

section \<open>Mark and sweep\<close>

datatype Status = Initializing | Running | Closing | Closed

text \<open>The loops read the status from the sequence \<open>status\<close>, whose position they return. A set of
  extents is a list without repetitions.\<close>

partial_function (option) getAllExtents ::
  "('s \<Rightarrow> IteratorResult \<times> 's) \<Rightarrow> (nat \<Rightarrow> Status) \<Rightarrow> nat \<Rightarrow> 's \<Rightarrow> string list \<Rightarrow> (string list \<times> nat) option" where
  "getAllExtents nxt status i it ids =
     (let (res, it') = nxt it in
      if \<not> res_done res \<or> res_value res \<noteq> []
      then (if status i = Running
            then getAllExtents nxt status (i + 1) it' (fold set_add (res_value res) ids)
            else Some (ids, i + 1))
      else Some (ids, i))"

declare getAllExtents.simps [code]

partial_function (option) mark_loop ::
  "('s \<Rightarrow> IteratorResult \<times> 's) \<Rightarrow> (nat \<Rightarrow> Status) \<Rightarrow> nat \<Rightarrow> 's \<Rightarrow> string list \<Rightarrow> (string list \<times> nat) option" where
  "mark_loop nxt status i it ids =
     (let (res, it') = nxt it in
      if \<not> res_done res \<or> res_value res \<noteq> []
      then (if status i = Running
            then mark_loop nxt status (i + 1) it' (filter (\<lambda>x. x \<notin> set (res_value res)) ids)
            else Some (ids, i + 1))
      else Some (ids, i))"

declare mark_loop.simps [code]

text \<open>One run: the extents that are handed to \<open>deleteExtents\<close>.\<close>

definition markSweep ::
  "('a \<Rightarrow> IteratorResult \<times> 'a) \<Rightarrow> 'a \<Rightarrow> ('r \<Rightarrow> IteratorResult \<times> 'r) \<Rightarrow> 'r \<Rightarrow> (nat \<Rightarrow> Status) \<Rightarrow> string list option" where
  "markSweep allNext allIt referredNext referredIt status =
     (case getAllExtents allNext status 0 allIt [] of
        None \<Rightarrow> None
      | Some (allExtents, i) \<Rightarrow>
          if status i \<noteq> Running then Some []
          else map_option fst (mark_loop referredNext status (i + 1) referredIt allExtents))"

text \<open>The queue's manager ends its loops at the first result that is done, and tests the status inside
  them.\<close>

partial_function (option) queue_getAllExtents ::
  "('s \<Rightarrow> IteratorResult \<times> 's) \<Rightarrow> (nat \<Rightarrow> Status) \<Rightarrow> nat \<Rightarrow> 's \<Rightarrow> string list \<Rightarrow> (string list \<times> nat) option" where
  "queue_getAllExtents nxt status i it ids =
     (let (bucket, it') = nxt it in
      if \<not> res_done bucket
      then (if status i \<noteq> Running then Some (ids, i + 1)
            else queue_getAllExtents nxt status (i + 1) it' (fold set_add (res_value bucket) ids))
      else Some (ids, i))"

partial_function (option) queue_mark_loop ::
  "('s \<Rightarrow> IteratorResult \<times> 's) \<Rightarrow> (nat \<Rightarrow> Status) \<Rightarrow> nat \<Rightarrow> 's \<Rightarrow> string list \<Rightarrow> (string list \<times> nat) option" where
  "queue_mark_loop nxt status i it ids =
     (let (bucket, it') = nxt it in
      if \<not> res_done bucket
      then (if status i \<noteq> Running then Some (ids, i + 1)
            else queue_mark_loop nxt status (i + 1) it' (filter (\<lambda>x. x \<notin> set (res_value bucket)) ids))
      else Some (ids, i))"

definition queue_markSweep ::
  "('a \<Rightarrow> IteratorResult \<times> 'a) \<Rightarrow> 'a \<Rightarrow> ('r \<Rightarrow> IteratorResult \<times> 'r) \<Rightarrow> 'r \<Rightarrow> (nat \<Rightarrow> Status) \<Rightarrow> string list option" where
  "queue_markSweep allNext allIt referredNext referredIt status =
     (case queue_getAllExtents allNext status 0 allIt [] of
        None \<Rightarrow> None
      | Some (allExtents, i) \<Rightarrow>
          if status i \<noteq> Running then Some []
          else map_option fst (queue_mark_loop referredNext status (i + 1) referredIt allExtents))"

section \<open>What the iterators yield\<close>

text \<open>The values an iterator returns until it is done, and the pages of a listing.\<close>

inductive yields :: "('s \<Rightarrow> IteratorResult \<times> 's) \<Rightarrow> 's \<Rightarrow> string list list \<Rightarrow> bool" for nxt where
  yields_done: "nxt it = (\<lparr>res_done = True, res_value = []\<rparr>, it') \<Longrightarrow> yields nxt it []"
| yields_next: "nxt it = (\<lparr>res_done = False, res_value = b\<rparr>, it') \<Longrightarrow> yields nxt it' bs \<Longrightarrow> yields nxt it (b # bs)"

inductive paged :: "('m, 'v) pager \<Rightarrow> 'm option \<Rightarrow> 'v list list \<Rightarrow> bool" for list where
  paged_last: "list marker = (vs, None) \<Longrightarrow> paged list marker [vs]"
| paged_more: "list marker = (vs, Some m) \<Longrightarrow> paged list (Some m) ps \<Longrightarrow> paged list marker (vs # ps)"

inductive_cases yieldsE: "yields nxt it bs"

lemma set_add_set [simp]: "set (set_add x xs) = insert x (set xs)"
  by (auto simp: set_add_def)

lemma fold_set_add_set [simp]: "set (fold set_add xs ys) = set ys \<union> set xs"
  by (induction xs arbitrary: ys) auto

lemma getAllExtents_yields:
  assumes "yields nxt it bs" "\<And>j. i \<le> j \<Longrightarrow> j < i + length bs \<Longrightarrow> status j = Running"
  shows "\<exists>ids'. getAllExtents nxt status i it ids = Some (ids', i + length bs) \<and> set ids' = set ids \<union> set (concat bs)"
  using assms
proof (induction arbitrary: i ids rule: yields.induct)
  case (yields_done it it')
  then show ?case by (subst getAllExtents.simps) simp
next
  case (yields_next it b it' bs)
  obtain ids' where "getAllExtents nxt status (i + 1) it' (fold set_add b ids) = Some (ids', i + 1 + length bs)"
      "set ids' = set (fold set_add b ids) \<union> set (concat bs)"
    using yields_next.IH [of "i + 1" "fold set_add b ids"] yields_next.prems by auto
  then show ?case using yields_next.hyps(1) yields_next.prems [of i] by (subst getAllExtents.simps) auto
qed

lemma mark_loop_yields:
  assumes "yields nxt it bs" "\<And>j. i \<le> j \<Longrightarrow> status j = Running"
  shows "\<exists>ids' i'. mark_loop nxt status i it ids = Some (ids', i') \<and> set ids' = set ids - set (concat bs)"
  using assms
proof (induction arbitrary: i ids rule: yields.induct)
  case (yields_done it it')
  then show ?case by (subst mark_loop.simps) simp
next
  case (yields_next it b it' bs)
  obtain ids' i' where "mark_loop nxt status (i + 1) it' (filter (\<lambda>x. x \<notin> set b) ids) = Some (ids', i')"
      "set ids' = set (filter (\<lambda>x. x \<notin> set b) ids) - set (concat bs)"
    using yields_next.IH [of "i + 1" "filter (\<lambda>x. x \<notin> set b) ids"] yields_next.prems by auto
  then show ?case using yields_next.hyps(1) yields_next.prems [of i] by (subst mark_loop.simps) auto
qed

lemma mark_loop_closing:
  assumes "yields nxt it (b # bs)" "status i \<noteq> Running"
  shows "mark_loop nxt status i it ids = Some (ids, i + 1)"
  using assms(1) by (cases rule: yields.cases) (use assms(2) in \<open>subst mark_loop.simps, simp\<close>)+

lemma queue_getAllExtents_yields:
  assumes "yields nxt it bs" "\<And>j. i \<le> j \<Longrightarrow> j < i + length bs \<Longrightarrow> status j = Running"
  shows "\<exists>ids'. queue_getAllExtents nxt status i it ids = Some (ids', i + length bs) \<and> set ids' = set ids \<union> set (concat bs)"
  using assms
proof (induction arbitrary: i ids rule: yields.induct)
  case (yields_done it it')
  then show ?case by (subst queue_getAllExtents.simps) simp
next
  case (yields_next it b it' bs)
  obtain ids' where "queue_getAllExtents nxt status (i + 1) it' (fold set_add b ids) = Some (ids', i + 1 + length bs)"
      "set ids' = set (fold set_add b ids) \<union> set (concat bs)"
    using yields_next.IH [of "i + 1" "fold set_add b ids"] yields_next.prems by auto
  then show ?case using yields_next.hyps(1) yields_next.prems [of i] by (subst queue_getAllExtents.simps) auto
qed

lemma queue_mark_loop_yields:
  assumes "yields nxt it bs" "\<And>j. i \<le> j \<Longrightarrow> status j = Running"
  shows "\<exists>ids' i'. queue_mark_loop nxt status i it ids = Some (ids', i') \<and> set ids' = set ids - set (concat bs)"
  using assms
proof (induction arbitrary: i ids rule: yields.induct)
  case (yields_done it it')
  then show ?case by (subst queue_mark_loop.simps) simp
next
  case (yields_next it b it' bs)
  obtain ids' i' where "queue_mark_loop nxt status (i + 1) it' (filter (\<lambda>x. x \<notin> set b) ids) = Some (ids', i')"
      "set ids' = set (filter (\<lambda>x. x \<notin> set b) ids) - set (concat bs)"
    using yields_next.IH [of "i + 1" "filter (\<lambda>x. x \<notin> set b) ids"] yields_next.prems by auto
  then show ?case using yields_next.hyps(1) yields_next.prems [of i] by (subst queue_mark_loop.simps) auto
qed

section \<open>The contract of an extent provider\<close>

text \<open>
  What the managers rely on: from its start, an iterator over an admissible store returns finitely
  many values and then is done, and together they are the extents of the store.
\<close>

locale extent_provider =
  fixes nxt :: "'env \<Rightarrow> 's \<Rightarrow> IteratorResult \<times> 's"
    and start :: 's
    and ok :: "'env \<Rightarrow> bool"
    and extents :: "'env \<Rightarrow> string set"
  assumes complete: "ok e \<Longrightarrow> \<exists>bs. yields (nxt e) start bs \<and> set (concat bs) = extents e"
begin

lemma sweep_exact:
  assumes "ok e" "yields allNext allIt as" "\<And>j. status j = Running"
  shows "\<exists>ds. markSweep allNext allIt (nxt e) start status = Some ds \<and> set ds = set (concat as) - extents e"
proof -
  obtain bs where bs: "yields (nxt e) start bs" "set (concat bs) = extents e" using complete [OF assms(1)] by blast
  obtain ids where ids: "getAllExtents allNext status 0 allIt [] = Some (ids, length as)" "set ids = set (concat as)"
    using getAllExtents_yields [OF assms(2), of 0 status "[]"] assms(3) by auto
  obtain ds i' where "mark_loop (nxt e) status (length as + 1) start ids = Some (ds, i')"
      "set ds = set ids - set (concat bs)"
    using mark_loop_yields [OF bs(1), of "length as + 1" status ids] assms(3) by auto
  then show ?thesis using ids assms(3) bs(2) by (simp add: markSweep_def)
qed

lemma queue_sweep_exact:
  assumes "ok e" "yields allNext allIt as" "\<And>j. status j = Running"
  shows "\<exists>ds. queue_markSweep allNext allIt (nxt e) start status = Some ds \<and> set ds = set (concat as) - extents e"
proof -
  obtain bs where bs: "yields (nxt e) start bs" "set (concat bs) = extents e" using complete [OF assms(1)] by blast
  obtain ids where ids: "queue_getAllExtents allNext status 0 allIt [] = Some (ids, length as)" "set ids = set (concat as)"
    using queue_getAllExtents_yields [OF assms(2), of 0 status "[]"] assms(3) by auto
  obtain ds i' where "queue_mark_loop (nxt e) status (length as + 1) start ids = Some (ds, i')"
      "set ds = set ids - set (concat bs)"
    using queue_mark_loop_yields [OF bs(1), of "length as + 1" status ids] assms(3) by auto
  then show ?thesis using ids assms(3) bs(2) by (simp add: queue_markSweep_def)
qed

end

section \<open>The providers\<close>

lemma paged_yields:
  assumes "paged list marker ps"
    and step: "\<And>it. nxt it = (if it_done it then (\<lparr>res_done = True, res_value = []\<rparr>, it)
      else let (vs, m) = list (it_marker it) in (\<lparr>res_done = False, res_value = vs\<rparr>,
        it\<lparr>it_marker := m, it_done := (if m = None then True else it_done it)\<rparr>))"
  shows "yields nxt \<lparr>it_done = False, it_marker = marker\<rparr> ps"
  using assms(1)
proof (induction rule: paged.induct)
  case (paged_last marker vs)
  have fin: "yields nxt \<lparr>it_done = True, it_marker = None\<rparr> []"
    by (rule yields_done [of _ _ "\<lparr>it_done = True, it_marker = None\<rparr>"]) (simp add: step)
  have "nxt \<lparr>it_done = False, it_marker = marker\<rparr> =
      (\<lparr>res_done = False, res_value = vs\<rparr>, \<lparr>it_done = True, it_marker = None\<rparr>)"
    using paged_last by (simp add: step)
  then show ?case using fin by (rule yields_next)
next
  case (paged_more marker vs m ps)
  have "nxt \<lparr>it_done = False, it_marker = marker\<rparr> =
      (\<lparr>res_done = False, res_value = vs\<rparr>, \<lparr>it_done = False, it_marker = Some m\<rparr>)"
    using paged_more.hyps(1) by (simp add: step)
  then show ?case using paged_more.IH by (rule yields_next)
qed

interpretation all_extents: extent_provider
  "\<lambda>e. AllExtentsAsyncIterator_next (fst e)" new_paged_iterator
  "\<lambda>e. paged (fst e) None (snd e)" "\<lambda>e. set (concat (snd e))"
proof
  fix e :: "('m, string) pager \<times> string list list"
  assume "paged (fst e) None (snd e)"
  then show "\<exists>bs. yields (AllExtentsAsyncIterator_next (fst e)) new_paged_iterator bs \<and> set (concat bs) = set (concat (snd e))"
    unfolding new_paged_iterator_def
    by (intro exI [of _ "snd e"] conjI paged_yields) (auto simp: AllExtentsAsyncIterator_next_def)
qed

interpretation queue_referred: extent_provider
  "\<lambda>e. QueueReferredExtentsAsyncIterator_next (fst e)" new_paged_iterator
  "\<lambda>e. paged (fst e) None (snd e)" "\<lambda>e. set (concat (snd e))"
proof
  fix e :: "('m, string) pager \<times> string list list"
  assume "paged (fst e) None (snd e)"
  then show "\<exists>bs. yields (QueueReferredExtentsAsyncIterator_next (fst e)) new_paged_iterator bs \<and> set (concat bs) = set (concat (snd e))"
    unfolding new_paged_iterator_def
    by (intro exI [of _ "snd e"] conjI paged_yields) (auto simp: QueueReferredExtentsAsyncIterator_next_def)
qed

text \<open>The pages of \<open>listAllBlobs\<close> hold every blob, if their names are distinct.\<close>

lemma listAllBlobs_paged:
  assumes chain: "sorted_chain chain found" and m: "1 \<le> (case mo of None \<Rightarrow> DEFAULT_LIST_BLOBS_MAX_RESULTS | Some n \<Rightarrow> n)"
  shows "distinct (map lb_name (filter (listBlobs_where (case mk of None \<Rightarrow> '''' | Some x \<Rightarrow> x) s u) found)) \<Longrightarrow>
    \<exists>ps. paged (\<lambda>mk. listAllBlobs chain mo mk s u) mk ps \<and>
      set (concat ps) = set (filter (listBlobs_where (case mk of None \<Rightarrow> '''' | Some x \<Rightarrow> x) s u) found)"
proof (induction "length (filter (listBlobs_where (case mk of None \<Rightarrow> '''' | Some x \<Rightarrow> x) s u) found)"
    arbitrary: mk rule: less_induct)
  case less
  let ?m = "case mo of None \<Rightarrow> DEFAULT_LIST_BLOBS_MAX_RESULTS | Some n \<Rightarrow> n"
  let ?marker = "case mk of None \<Rightarrow> '''' | Some x \<Rightarrow> x"
  let ?C = "\<lambda>marker. filter (listBlobs_where marker s u) found"
  obtain L where L: "mset L = mset (?C ?marker)" "sorted (map lb_name L)"
      "\<And>off lim. chain (listBlobs_where ?marker s u) off lim = take lim (drop off L)"
    using chain unfolding sorted_chain_def by blast
  have strict: "sorted_wrt (\<lambda>a b. lb_name a < lb_name b) L"
    using strictly_sorted_names [OF L(2) distinct_names_mset [OF L(1) less.prems]] .
  have set_L: "set L = set (?C ?marker)" using L(1) by (metis set_mset_mset)
  show ?case
  proof (cases "length L \<le> ?m")
    case True
    then have "listAllBlobs chain mo mk s u = (L, None)"
      using L(3) [of 0 "?m + 1"] by (simp add: listAllBlobs_def Let_def)
    then show ?thesis using set_L by (intro exI [of _ "[L]"]) (simp add: paged_last)
  next
    case False
    let ?nxt = "lb_name (L ! (?m - 1))"
    have docs: "chain (listBlobs_where ?marker s u) 0 (Suc ?m) = take (Suc ?m) L" using L(3) by simp
    have len: "length (take (Suc ?m) L) = Suc ?m" using False by simp
    have page: "listAllBlobs chain mo mk s u = (take ?m L, Some ?nxt)"
      using False m len by (simp add: listAllBlobs_def Let_def docs butlast_take)
    have "L ! (?m - 1) \<in> set (?C ?marker)" using False m set_L by (metis diff_less less_le_trans linorder_not_le nth_mem order.strict_trans zero_less_one)
    then have gt: "?marker < ?nxt" by (simp add: listBlobs_where_def)
    have "?C ?nxt = filter (\<lambda>b. ?nxt < lb_name b) (?C ?marker)"
      using gt by (auto simp: listBlobs_where_def intro!: filter_cong)
    then have "mset (?C ?nxt) = mset (filter (\<lambda>b. ?nxt < lb_name b) L)" using mset_filter_eq [OF L(1)] by simp
    also have "\<dots> = mset (drop ?m L)" using strict_filter_drop [OF strict m] False by simp
    finally have rest: "mset (?C ?nxt) = mset (drop ?m L)" .
    have "length (?C ?nxt) < length (?C ?marker)"
      using mset_eq_length [OF rest] mset_eq_length [OF L(1)] m False by simp
    moreover have "distinct (map lb_name (?C ?nxt))"
      by (rule distinct_names_mset [OF rest])
        (use distinct_names_mset [OF L(1) less.prems] in \<open>simp add: drop_map [symmetric]\<close>)
    ultimately obtain ps where ps: "paged (\<lambda>mk. listAllBlobs chain mo mk s u) (Some ?nxt) ps" "set (concat ps) = set (?C ?nxt)"
      using less.hyps [of "Some ?nxt"] by auto
    have "set (?C ?nxt) = set (drop ?m L)" using rest by (metis set_mset_mset)
    then have "set (concat (take ?m L # ps)) = set (?C ?marker)"
      using ps(2) set_L append_take_drop_id [of ?m L] by (metis concat.simps(2) set_append)
    then show ?thesis using paged_more [OF page ps(1)] by blast
  qed
qed

lemma listUncommitted_paged:
  assumes sorted: "sorted_wrt (\<lambda>a b. fst a < fst b) L" and m: "1 \<le> m"
    and chain: "\<And>marker limit. chain marker limit = take limit (filter (\<lambda>b. fst b > marker) L)"
  shows "\<exists>ps. paged (listUncommittedBlockPersistencyChunks chain m) mk ps \<and>
    set (concat ps) = snd ` set (filter (\<lambda>b. fst b > (case mk of None \<Rightarrow> -1 | Some n \<Rightarrow> n)) L)"
proof (induction "length (filter (\<lambda>b. fst b > (case mk of None \<Rightarrow> -1 | Some n \<Rightarrow> n)) L)" arbitrary: mk rule: less_induct)
  case less
  let ?marker = "case mk of None \<Rightarrow> -1 | Some n \<Rightarrow> n"
  let ?R = "filter (\<lambda>b. fst b > ?marker) L"
  have strict: "sorted_wrt (\<lambda>a b. fst a < fst b) ?R" using sorted by (rule sorted_wrt_filter)
  show ?case
  proof (cases "length ?R \<le> m")
    case True
    then have "listUncommittedBlockPersistencyChunks chain m mk = (map snd ?R, None)"
      by (simp add: listUncommittedBlockPersistencyChunks_def chain)
    then show ?thesis by (intro exI [of _ "[map snd ?R]"]) (simp add: paged_last)
  next
    case False
    let ?nxt = "fst (?R ! (m - 1))"
    have page: "listUncommittedBlockPersistencyChunks chain m mk = (map snd (take m ?R), Some ?nxt)"
      using False m by (simp add: listUncommittedBlockPersistencyChunks_def chain butlast_take Let_def)
    have "?R ! (m - 1) \<in> set ?R" using False m by (intro nth_mem) simp
    then have "?marker < ?nxt" by simp
    then have "filter (\<lambda>b. fst b > ?nxt) L = filter (\<lambda>b. fst b > ?nxt) ?R" by (auto intro!: filter_cong)
    also have "\<dots> = drop m ?R" using strict_filter_drop [OF strict m] False by simp
    finally have rest: "filter (\<lambda>b. fst b > ?nxt) L = drop m ?R" .
    have "length (filter (\<lambda>b. fst b > ?nxt) L) < length ?R" using m False unfolding rest by simp
    then obtain ps where ps: "paged (listUncommittedBlockPersistencyChunks chain m) (Some ?nxt) ps"
        "set (concat ps) = snd ` set (filter (\<lambda>b. fst b > ?nxt) L)"
      using less.hyps [of "Some ?nxt"] by auto
    have "set (concat (map snd (take m ?R) # ps)) = snd ` (set (take m ?R) \<union> set (drop m ?R))"
      using ps(2) unfolding rest by (simp add: image_Un)
    also have "set (take m ?R) \<union> set (drop m ?R) = set ?R" by (metis append_take_drop_id set_append)
    finally show ?thesis using paged_more [OF page ps(1)] by blast
  qed
qed

lemma blob_iterator_blocks:
  assumes "paged blocks marker qs"
  shows "yields (BlobReferredExtentsAsyncIterator_next blobs blocks)
    \<lparr>it_state = LISTING_EXTENTS_IN_BLOCKS, blobListingMarker = bm, blockListingMarker = marker\<rparr> qs"
  using assms
proof (induction rule: paged.induct)
  case (paged_last marker vs)
  have fin: "yields (BlobReferredExtentsAsyncIterator_next blobs blocks)
      \<lparr>it_state = DONE, blobListingMarker = bm, blockListingMarker = None\<rparr> []"
    by (rule yields_done) (simp add: BlobReferredExtentsAsyncIterator_next_def)
  show ?case
    by (rule yields_next [OF _ fin]) (use paged_last in \<open>simp add: BlobReferredExtentsAsyncIterator_next_def\<close>)
next
  case (paged_more marker vs m ps)
  show ?case
    by (rule yields_next [OF _ paged_more.IH]) (use paged_more.hyps(1) in \<open>simp add: BlobReferredExtentsAsyncIterator_next_def\<close>)
qed

lemma blob_iterator_blobs:
  assumes "paged blobs marker ps" "paged blocks None qs"
  shows "yields (BlobReferredExtentsAsyncIterator_next blobs blocks)
    \<lparr>it_state = LISTING_EXTENTS_IN_BLOBS, blobListingMarker = marker, blockListingMarker = None\<rparr>
    (map (\<lambda>p. concat (map blob_extents p)) ps @ qs)"
  using assms(1)
proof (induction rule: paged.induct)
  case (paged_last marker vs)
  show ?case
    unfolding list.map append.simps
    by (rule yields_next [OF _ blob_iterator_blocks [OF assms(2)]])
      (use paged_last in \<open>simp add: BlobReferredExtentsAsyncIterator_next_def\<close>)
next
  case (paged_more marker vs m ps)
  show ?case
    unfolding list.map append.simps
    by (rule yields_next [OF _ paged_more.IH])
      (use paged_more.hyps(1) in \<open>simp add: BlobReferredExtentsAsyncIterator_next_def\<close>)
qed

text \<open>The blob store as a provider: its database answers the queries, the names of all blobs and
  snapshots are distinct and not empty.\<close>

record blob_store =
  bs_chain :: loki_chain
  bs_blobs :: "listed_blob list"
  bs_block_chain :: block_chain
  bs_blocks :: "(int \<times> string) list"

definition blob_store_ok :: "blob_store \<Rightarrow> bool" where
  "blob_store_ok e \<longleftrightarrow> sorted_chain (bs_chain e) (bs_blobs e) \<and>
     sorted_block_chain (bs_block_chain e) (bs_blocks e) \<and>
     distinct (map lb_name (bs_blobs e)) \<and> list_all (\<lambda>b. lb_name b \<noteq> '''') (bs_blobs e)"

definition referred_extents :: "blob_store \<Rightarrow> string set" where
  "referred_extents e = (\<Union>b\<in>set (bs_blobs e). set (blob_extents b)) \<union> snd ` set (bs_blocks e)"

lemma blob_store_yields:
  assumes "blob_store_ok e"
  shows "\<exists>bs. yields (blob_iteratorExtents (bs_chain e) (bs_block_chain e)) new_blob_iterator bs \<and>
    set (concat bs) = referred_extents e"
proof -
  have all: "filter (listBlobs_where '''' True True) (bs_blobs e) = bs_blobs e"
    using assms by (auto simp: blob_store_ok_def list_all_iff listBlobs_where_def filter_id_conv neq_Nil_conv)
  obtain ps where ps: "paged (\<lambda>mk. listAllBlobs (bs_chain e) None mk True True) None ps" "set (concat ps) = set (bs_blobs e)"
    using listAllBlobs_paged [of "bs_chain e" "bs_blobs e" None None True True] assms all
    by (auto simp: blob_store_ok_def DEFAULT_LIST_BLOBS_MAX_RESULTS_def)
  obtain L where L: "mset L = mset (bs_blocks e)" "sorted_wrt (\<lambda>a b. fst a < fst b) L" "list_all (\<lambda>b. 0 \<le> fst b) L"
      "\<And>marker limit. bs_block_chain e marker limit = take limit (filter (\<lambda>b. fst b > marker) L)"
    using assms unfolding blob_store_ok_def sorted_block_chain_def by blast
  have "filter (\<lambda>b. fst b > -1) L = L" using L(3) by (auto simp: filter_id_conv list_all_iff)
  then obtain qs where qs: "paged (listUncommittedBlockPersistencyChunks (bs_block_chain e) 2000) None qs"
      "set (concat qs) = snd ` set L"
    using listUncommitted_paged [OF L(2) _ L(4), of 2000 None] by auto
  have blobs: "set (concat (map (\<lambda>p. concat (map blob_extents p)) ps)) = (\<Union>b\<in>set (bs_blobs e). set (blob_extents b))"
    unfolding ps(2) [symmetric] by auto
  have blocks: "set (concat qs) = snd ` set (bs_blocks e)" using qs(2) L(1) by (metis set_mset_mset)
  have "set (concat (map (\<lambda>p. concat (map blob_extents p)) ps @ qs)) = referred_extents e"
    unfolding referred_extents_def concat_append set_append blobs blocks ..
  then show ?thesis
    using blob_iterator_blobs [OF ps(1) qs(1)] unfolding blob_iteratorExtents_def new_blob_iterator_def by blast
qed

interpretation blob_referred: extent_provider
  "\<lambda>e. blob_iteratorExtents (bs_chain e) (bs_block_chain e)" new_blob_iterator blob_store_ok referred_extents
  by unfold_locales (rule blob_store_yields)

section \<open>Examples\<close>

definition example_store :: blob_store where
  "example_store =
     (let bs = [example_blob ''a'' '''' [], example_blob ''b'' '''' []] in
      \<lparr>bs_chain = list_chain bs, bs_blobs = bs, bs_block_chain = (\<lambda>marker limit. take limit (filter (\<lambda>b. fst b > marker) [(1, ''staged'')])),
       bs_blocks = [(1, ''staged'')]\<rparr>)"

lemma example_store_ok: "blob_store_ok example_store"
proof -
  have "sorted_block_chain (bs_block_chain example_store) (bs_blocks example_store)"
    unfolding sorted_block_chain_def by (intro exI [of _ "[(1, ''staged'')]"]) (simp add: example_store_def Let_def)
  moreover have "sorted_chain (bs_chain example_store) (bs_blobs example_store)"
    using list_chain_sorted by (simp add: example_store_def Let_def)
  ultimately show ?thesis by (simp add: blob_store_ok_def example_store_def Let_def example_blob_def)
qed

definition example_pager :: "(nat, string) pager" where
  "example_pager marker = ([''extent-a'', ''extent-b'', ''staged'', ''old''], None)"

lemma example_pager_yields:
  "yields (AllExtentsAsyncIterator_next example_pager) new_paged_iterator [[''extent-a'', ''extent-b'', ''staged'', ''old'']]"
  unfolding new_paged_iterator_def
  by (rule paged_yields [of example_pager]) (auto simp: AllExtentsAsyncIterator_next_def example_pager_def intro: paged_last)

text \<open>
  Two blobs with the same name in different containers: when a page of \<open>listAllBlobs\<close> ends between
  them, the second is never visited and its extents are not marked.
\<close>

lemma listAllBlobs_loses_same_names:
  "let found = [(example_blob ''x'' '''' [])\<lparr>lb_container := ''c1'', lb_persistency := Some ''e1''\<rparr>,
      (example_blob ''x'' '''' [])\<lparr>lb_container := ''c2'', lb_persistency := Some ''e2''\<rparr>] in
   listAllBlobs (list_chain found) (Some 1) None True True = ([hd found], Some ''x'') \<and>
   listAllBlobs (list_chain found) (Some 1) (Some ''x'') True True = ([], None)"
  by code_simp

section \<open>Properties\<close>





text \<open>
  C20: Closing the manager while it marks deletes extents in use: the loop over the referred extents
  ends when the status is no longer running, and the sweep follows without another test, so if the
  status changes before the first referred extents are marked, every extent is deleted.
\<close>

theorem gc_close_while_marking_deletes_everything:
  assumes "yields allNext allIt as" "yields referredNext referredIt (b # bs)"
    and "\<And>j. j \<le> length as \<Longrightarrow> status j = Running" "status (length as + 1) = Closing"
  shows "\<exists>ds. markSweep allNext allIt referredNext referredIt status = Some ds \<and> set ds = set (concat as)"
proof -
  obtain ids where ids: "getAllExtents allNext status 0 allIt [] = Some (ids, length as)" "set ids = set (concat as)"
    using getAllExtents_yields [OF assms(1), of 0 status "[]"] assms(3) by auto
  have "mark_loop referredNext status (length as + 1) referredIt ids = Some (ids, length as + 2)"
    using mark_loop_closing [OF assms(2), of status "length as + 1" ids] assms(4) by simp
  then show ?thesis using ids assms(3) by (simp add: markSweep_def)
qed

theorem gc_close_while_marking_deletes_everything_witness:
  "\<exists>ds. markSweep (AllExtentsAsyncIterator_next example_pager) new_paged_iterator
      (AllExtentsAsyncIterator_next example_pager) new_paged_iterator (\<lambda>i. if i \<le> 1 then Running else Closing) = Some ds \<and>
    set ds = {''extent-a'', ''extent-b'', ''staged'', ''old''}"
  using gc_close_while_marking_deletes_everything [OF example_pager_yields example_pager_yields,
      of "\<lambda>i. if i \<le> 1 then Running else Closing"] by simp

end
