(* ===== verification/Loki_Collection.thy ===== *)
theory Loki_Collection
  imports Storage_Errors
begin

text \<open>
  What the metadata stores are written with. A store operation is a function from the store to a
  result and the store afterwards: an error does not undo what was written before it, since the
  documents of a LokiJS collection are mutable objects and the code changes them in place.
  LokiJS itself is not part of the repository: a collection is given by its operations (the record
  \<open>loki_collection\<close>), and the locale \<open>loki\<close> states the documented behaviour of those
  operations in terms of \<open>get\<close>, which returns the document with a given \<open>$loki\<close> number.
\<close>

section \<open>Operations with state and errors\<close>

type_synonym ('s, 'a) store_op = "'s \<Rightarrow> 'a result \<times> 's"

definition return :: "'a \<Rightarrow> ('s, 'a) store_op" where
  "return x s = (Inr x, s)"

definition throw :: "js_error \<Rightarrow> ('s, 'a) store_op" where
  "throw e s = (Inl e, s)"

definition lift_result :: "'a result \<Rightarrow> ('s, 'a) store_op" where
  "lift_result r s = (r, s)"

definition bind_op :: "('s, 'a) store_op \<Rightarrow> ('a \<Rightarrow> ('s, 'b) store_op) \<Rightarrow> ('s, 'b) store_op" where
  "bind_op m f s = (case m s of (Inl e, s') \<Rightarrow> (Inl e, s') | (Inr x, s') \<Rightarrow> f x s')"

definition update_op :: "('s \<Rightarrow> 's) \<Rightarrow> ('s, unit) store_op" where
  "update_op f s = (Inr (), f s)"

definition read_op :: "('s \<Rightarrow> 'a) \<Rightarrow> ('s, 'a) store_op" where
  "read_op f s = (Inr (f s), s)"

text \<open>\<open>wp m Q R s\<close>: started in \<open>s\<close>, the operation returns and leaves a state with \<open>Q\<close>, or
  throws and leaves a state with \<open>R\<close>.\<close>

definition wp :: "('s, 'a) store_op \<Rightarrow> ('a \<Rightarrow> 's \<Rightarrow> bool) \<Rightarrow> (js_error \<Rightarrow> 's \<Rightarrow> bool) \<Rightarrow> 's \<Rightarrow> bool" where
  "wp m Q R s = (case m s of (Inl e, s') \<Rightarrow> R e s' | (Inr x, s') \<Rightarrow> Q x s')"

text \<open>The outcome of an operation: the error, if any, and the store afterwards.\<close>

definition outcome :: "('s, 'a) store_op \<Rightarrow> 's \<Rightarrow> js_error option \<Rightarrow> 's \<Rightarrow> bool" where
  "outcome m s r s' \<longleftrightarrow> s' = snd (m s) \<and> r = (case fst (m s) of Inl e \<Rightarrow> Some e | Inr _ \<Rightarrow> None)"

section \<open>Collections\<close>

record ('c, 'd) loki_collection =
  get_doc :: "'c \<Rightarrow> nat \<Rightarrow> 'd option"
  findOne :: "'c \<Rightarrow> ('d \<Rightarrow> bool) \<Rightarrow> (nat \<times> 'd) option"
  find_simplesort :: "'c \<Rightarrow> ('d \<Rightarrow> bool) \<Rightarrow> (nat \<times> 'd) list"
  count_docs :: "'c \<Rightarrow> ('d \<Rightarrow> bool) \<Rightarrow> nat"
  insert_doc :: "'c \<Rightarrow> 'd \<Rightarrow> 'c"
  set_doc :: "'c \<Rightarrow> nat \<Rightarrow> 'd \<Rightarrow> 'c"
  remove_doc :: "'c \<Rightarrow> nat \<Rightarrow> 'c"
  findAndRemove :: "'c \<Rightarrow> ('d \<Rightarrow> bool) \<Rightarrow> 'c"

text \<open>
  \<open>find_simplesort c p\<close> is \<open>chain().find(p).simplesort("$loki").data()\<close>, which are also the documents
  of \<open>chain().find(p).data()\<close> in the order of insertion, \<open>set_doc c i d\<close> the
  collection after the object with number \<open>i\<close> was changed to \<open>d\<close>. The laws: a query returns
  documents of the collection that satisfy it, and \<open>undefined\<close> only if there is none; an inserted
  document gets a number above all others; changing, removing and \<open>findAndRemove\<close> affect exactly
  the documents they name.
\<close>

locale loki =
  fixes L :: "('c, 'd) loki_collection"
  assumes findOne_Some: "findOne L c p = Some (i, d) \<Longrightarrow> get_doc L c i = Some d \<and> p d"
    and findOne_None: "findOne L c p = None \<Longrightarrow> get_doc L c i = Some d \<Longrightarrow> \<not> p d"
    and find_set: "set (find_simplesort L c p) = {(i, d). get_doc L c i = Some d \<and> p d}"
    and find_sorted: "sorted_wrt (<) (map fst (find_simplesort L c p))"
    and count_card: "count_docs L c p = card {i. \<exists>d. get_doc L c i = Some d \<and> p d}"
    and insert_get: "\<exists>i. (\<forall>j d'. get_doc L c j = Some d' \<longrightarrow> j < i) \<and>
      get_doc L (insert_doc L c d) = (get_doc L c)(i \<mapsto> d)"
    and set_get: "get_doc L c i \<noteq> None \<Longrightarrow>
      get_doc L (set_doc L c i d) = (get_doc L c)(i \<mapsto> d)"
    and remove_get: "get_doc L (remove_doc L c i) = (get_doc L c)(i := None)"
    and findAndRemove_get: "get_doc L (findAndRemove L c p) i =
      (case get_doc L c i of None \<Rightarrow> None | Some d \<Rightarrow> if p d then None else Some d)"

text \<open>A collection as the list of its documents, the number being the position; a removed
  document leaves its place empty.\<close>

type_synonym 'd list_coll = "'d option list"

definition list_get :: "'d list_coll \<Rightarrow> nat \<Rightarrow> 'd option" where
  "list_get c i = (if i < length c then c ! i else None)"

definition list_find :: "'d list_coll \<Rightarrow> ('d \<Rightarrow> bool) \<Rightarrow> (nat \<times> 'd) list" where
  "list_find c p = map (\<lambda>(i, d). (i, the d)) (filter (\<lambda>(i, d). d \<noteq> None \<and> p (the d)) (enumerate 0 c))"

definition list_findOne :: "'d list_coll \<Rightarrow> ('d \<Rightarrow> bool) \<Rightarrow> (nat \<times> 'd) option" where
  "list_findOne c p = (case list_find c p of [] \<Rightarrow> None | x # _ \<Rightarrow> Some x)"

definition list_collection :: "('d list_coll, 'd) loki_collection" where
  "list_collection =
     \<lparr>get_doc = list_get, findOne = list_findOne, find_simplesort = list_find,
      count_docs = (\<lambda>c p. length (list_find c p)), insert_doc = (\<lambda>c d. c @ [Some d]),
      set_doc = (\<lambda>c i d. c[i := Some d]), remove_doc = (\<lambda>c i. c[i := None]),
      findAndRemove = (\<lambda>c p. map (\<lambda>d. case d of None \<Rightarrow> None | Some x \<Rightarrow> if p x then None else Some x) c)\<rparr>"

lemmas list_collection_simps =
  list_collection_def list_get_def list_find_def list_findOne_def

section \<open>Lemmas\<close>

lemmas op_defs = return_def throw_def bind_op_def update_op_def read_op_def lift_result_def

lemma wp_return [simp]: "wp (return x) Q R = Q x"
  by (simp add: wp_def op_defs fun_eq_iff)

lemma wp_throw [simp]: "wp (throw e) Q R s = R e s"
  by (simp add: wp_def op_defs)

lemma wp_bind [simp]: "wp (bind_op m f) Q R s = wp m (\<lambda>x. wp (f x) Q R) R s"
  by (simp add: wp_def op_defs split: prod.splits sum.splits)

lemma wp_update [simp]: "wp (update_op g) Q R s = Q () (g s)"
  by (simp add: wp_def op_defs)

lemma wp_read [simp]: "wp (read_op h) Q R s = Q (h s) s"
  by (simp add: wp_def op_defs)

lemma wp_lift [simp]:
  "wp (lift_result r) Q R s = (case r of Inl e \<Rightarrow> R e s | Inr x \<Rightarrow> Q x s)"
  by (cases r) (simp_all add: wp_def op_defs)

lemma wp_if [simp]: "wp (if b then m else m') Q R s = (if b then wp m Q R s else wp m' Q R s)"
  by simp

lemma wp_option [simp]:
  "wp (case x of None \<Rightarrow> n | Some y \<Rightarrow> f y) Q R s =
     (case x of None \<Rightarrow> wp n Q R s | Some y \<Rightarrow> wp (f y) Q R s)"
  by (simp split: option.splits)

lemma wp_prod [simp]:
  "wp (case z of (u, v) \<Rightarrow> g u v) Q R s = (case z of (u, v) \<Rightarrow> wp (g u v) Q R s)"
  by (simp split: prod.splits)

lemma wp_mono:
  assumes "wp m Q R s" and "\<And>x t. Q x t \<Longrightarrow> Q' x t" and "\<And>e t. R e t \<Longrightarrow> R' e t"
  shows "wp m Q' R' s"
  using assms by (auto simp: wp_def split: prod.splits sum.splits)

lemma wp_conj:
  "wp m (\<lambda>x t. Q x t \<and> Q' x t) (\<lambda>e t. R e t \<and> R' e t) s \<longleftrightarrow> wp m Q R s \<and> wp m Q' R' s"
  by (auto simp: wp_def split: prod.splits sum.splits)

lemma wp_result: "wp m Q R s \<Longrightarrow> m s = (Inr x, s') \<Longrightarrow> Q x s'"
  by (simp add: wp_def)

lemma wp_error: "wp m Q R s \<Longrightarrow> m s = (Inl e, s') \<Longrightarrow> R e s'"
  by (simp add: wp_def)

lemma wp_state: "wp m (\<lambda>_. P) (\<lambda>_. P) s \<longleftrightarrow> P (snd (m s))"
  by (auto simp: wp_def split: prod.splits sum.splits)

lemma outcome_wp:
  assumes "wp m Q R s" "outcome m s r s'"
  shows "case r of None \<Rightarrow> \<exists>x. Q x s' | Some e \<Rightarrow> R e s'"
  using assms by (auto simp: wp_def outcome_def split: prod.splits sum.splits)

lemma list_find_iff: "(i, d) \<in> set (list_find c p) \<longleftrightarrow> list_get c i = Some d \<and> p d"
  by (force simp: list_find_def list_get_def in_set_enumerate_eq image_iff)

lemma list_find_sorted: "sorted_wrt (<) (map fst (list_find c p))"
proof -
  let ?f = "filter (\<lambda>(i, d). d \<noteq> None \<and> p (the d)) (enumerate 0 c)"
  have "sorted_wrt (\<lambda>x y. fst x < fst y) (enumerate 0 c)"
    by (auto simp: sorted_wrt_iff_nth_less nth_enumerate_eq)
  then have "sorted_wrt (\<lambda>x y. fst x < fst y) ?f" by (rule sorted_wrt_filter)
  then have "sorted_wrt (<) (map fst ?f)" by (subst sorted_wrt_map)
  also have "map fst ?f = map fst (list_find c p)"
    by (simp add: list_find_def case_prod_unfold)
  finally show ?thesis .
qed

lemma list_find_card: "length (list_find c p) = card {i. \<exists>d. list_get c i = Some d \<and> p d}"
proof -
  have "{i. \<exists>d. list_get c i = Some d \<and> p d} = set (map fst (list_find c p))"
    by (auto simp flip: list_find_iff simp: image_iff Bex_def)
  moreover have "distinct (map fst (list_find c p))"
    using list_find_sorted strict_sorted_iff by blast
  ultimately show ?thesis by (metis distinct_card length_map)
qed

interpretation list_coll: loki list_collection
proof
  fix c :: "'d list_coll" and p i d
  show "get_doc list_collection c i = Some d \<and> p d" if "findOne list_collection c p = Some (i, d)"
  proof -
    have "(i, d) \<in> set (list_find c p)"
      using that by (auto simp: list_collection_def list_findOne_def split: list.splits)
    then show ?thesis by (simp add: list_find_iff list_collection_def)
  qed
  show "\<not> p d" if "findOne list_collection c p = None" "get_doc list_collection c i = Some d"
    using that list_find_iff [of i d c p]
    by (auto simp: list_collection_def list_findOne_def split: list.splits)
  show "set (find_simplesort list_collection c p) = {(i, d). get_doc list_collection c i = Some d \<and> p d}"
    using list_find_iff [of _ _ c p] by (auto simp: list_collection_def)
  show "\<exists>i. (\<forall>j d'. get_doc list_collection c j = Some d' \<longrightarrow> j < i) \<and>
      get_doc list_collection (insert_doc list_collection c d) = (get_doc list_collection c)(i \<mapsto> d)"
    by (rule exI [of _ "length c"])
      (auto simp: list_collection_def list_get_def nth_append split: if_splits)
qed (auto simp: list_collection_def list_find_sorted list_find_card list_get_def split: option.splits if_splits)

text \<open>What every store derives from the laws, once.\<close>

context loki
begin

lemma wp_findOne:
  assumes "\<And>i d. get_doc L (f s) i = Some d \<Longrightarrow> p d \<Longrightarrow> Q (Some (i, d)) s"
    and "\<forall>i d. get_doc L (f s) i = Some d \<longrightarrow> \<not> p d \<Longrightarrow> Q None s"
  shows "wp (read_op (\<lambda>s. findOne L (f s) p)) Q R s"
proof (cases "findOne L (f s) p")
  case None
  then have "\<forall>i d. get_doc L (f s) i = Some d \<longrightarrow> \<not> p d" using findOne_None by blast
  then show ?thesis using assms(2) None by simp
next
  case (Some x)
  then have "get_doc L (f s) (fst x) = Some (snd x) \<and> p (snd x)"
    by (intro findOne_Some) simp
  then show ?thesis using assms(1) [of "fst x" "snd x"] Some by simp
qed

lemma insert_getE:
  obtains i where "get_doc L c i = None" "get_doc L (insert_doc L c d) = (get_doc L c)(i \<mapsto> d)"
    "\<And>j e. get_doc L c j = Some e \<Longrightarrow> j < i"
proof -
  obtain i where i: "\<forall>j d'. get_doc L c j = Some d' \<longrightarrow> j < i"
    and ins: "get_doc L (insert_doc L c d) = (get_doc L c)(i \<mapsto> d)" using insert_get by blast
  from i have "get_doc L c i = None" by (cases "get_doc L c i") auto
  with i ins show thesis by (intro that [of i]) auto
qed

end

end
