(* ===== verification/Lease.thy ===== *)
theory Lease
  imports Storage_Errors
begin

text \<open>
  The lease state machine of \<open>blob/lease\<close>: the lease record \<open>ILease\<close>, the five state classes
  with their validating constructors and their five operations, and the factory that chooses the
  class from the stored record and the request time. A call of \<open>uuid()\<close> is the argument
  \<open>fresh\<close>, the string that the call returns.
\<close>

section \<open>Data\<close>

datatype LeaseStateType = Available | Leased | Expired | Breaking | Broken

datatype LeaseStatusType = Locked | Unlocked

datatype LeaseDurationType = Infinite | Fixed

record ILease =
  leaseId :: "string option"
  leaseState :: "LeaseStateType option"
  leaseStatus :: "LeaseStatusType option"
  leaseDurationType :: "LeaseDurationType option"
  leaseDurationSeconds :: "int option"
  leaseExpireTime :: "js_date option"
  leaseBreakTime :: "js_date option"

text \<open>The part of the request context the lease code reads.\<close>

record Context =
  startTime :: "js_date option"

text \<open>An instance of a state class: which class, the lease it holds, its context.\<close>

datatype lease_class = CAvailable | CLeased | CBreaking | CBroken | CExpired

record LeaseState =
  lclass :: lease_class
  lease :: ILease
  lcontext :: Context

text \<open>\<open>context.startTime!\<close>; every constructor refuses a context without it.\<close>

definition ctx_now :: "Context \<Rightarrow> js_date" where
  "ctx_now ctx = (case startTime ctx of None \<Rightarrow> InvalidDate | Some d \<Rightarrow> d)"

text \<open>The object literals the operations build.\<close>

definition undefined_lease :: ILease where
  "undefined_lease = \<lparr>leaseId = None, leaseState = None, leaseStatus = None,
     leaseDurationType = None, leaseDurationSeconds = None, leaseExpireTime = None,
     leaseBreakTime = None\<rparr>"

definition available_lease :: ILease where
  "available_lease = \<lparr>leaseId = None, leaseState = Some Available, leaseStatus = Some Unlocked,
     leaseDurationType = None, leaseDurationSeconds = None, leaseExpireTime = None,
     leaseBreakTime = None\<rparr>"

definition broken_lease :: "string option \<Rightarrow> ILease" where
  "broken_lease i = \<lparr>leaseId = i, leaseState = Some Broken, leaseStatus = Some Unlocked,
     leaseDurationType = None, leaseDurationSeconds = None, leaseExpireTime = None,
     leaseBreakTime = None\<rparr>"

definition breaking_lease :: "string option \<Rightarrow> js_date option \<Rightarrow> ILease" where
  "breaking_lease i b = \<lparr>leaseId = i, leaseState = Some Breaking, leaseStatus = Some Locked,
     leaseDurationType = None, leaseDurationSeconds = None, leaseExpireTime = None,
     leaseBreakTime = b\<rparr>"

definition expired_lease :: "string option \<Rightarrow> int option \<Rightarrow> ILease" where
  "expired_lease i d = \<lparr>leaseId = i, leaseState = Some Expired, leaseStatus = Some Unlocked,
     leaseDurationType = None, leaseDurationSeconds = d, leaseExpireTime = None,
     leaseBreakTime = None\<rparr>"

definition leased_lease ::
  "string option \<Rightarrow> LeaseDurationType option \<Rightarrow> int option \<Rightarrow> js_date option \<Rightarrow> ILease" where
  "leased_lease i ty d e = \<lparr>leaseId = i, leaseState = Some Leased, leaseStatus = Some Locked,
     leaseDurationType = ty, leaseDurationSeconds = d, leaseExpireTime = e,
     leaseBreakTime = None\<rparr>"

section \<open>Constructors\<close>

definition LeaseAvailableState :: "ILease \<Rightarrow> Context \<Rightarrow> LeaseState result" where
  "LeaseAvailableState l ctx =
     (if startTime ctx = None then Inl RangeError
      else if leaseState l = None
      then Inr \<lparr>lclass = CAvailable, lease = undefined_lease, lcontext = ctx\<rparr>
      else if leaseState l \<noteq> Some Available then Inl RangeError
      else if leaseStatus l \<noteq> Some Unlocked then Inl RangeError
      else if leaseId l \<noteq> None then Inl RangeError
      else if leaseExpireTime l \<noteq> None then Inl RangeError
      else if leaseDurationSeconds l \<noteq> None then Inl RangeError
      else if leaseDurationType l \<noteq> None then Inl RangeError
      else if leaseBreakTime l \<noteq> None then Inl RangeError
      else Inr \<lparr>lclass = CAvailable, lease = l, lcontext = ctx\<rparr>)"

definition LeaseLeasedState :: "ILease \<Rightarrow> Context \<Rightarrow> LeaseState result" where
  "LeaseLeasedState l ctx =
     (if startTime ctx = None then Inl RangeError
      else if leaseState l \<noteq> Some Leased then Inl RangeError
      else if leaseStatus l \<noteq> Some Locked then Inl RangeError
      else if leaseId l = None then Inl RangeError
      else if (case leaseExpireTime l of None \<Rightarrow> False | Some e \<Rightarrow> date_ge (ctx_now ctx) e)
      then Inl RangeError
      else if leaseDurationType l = None then Inl RangeError
      else if leaseBreakTime l \<noteq> None then Inl RangeError
      else Inr \<lparr>lclass = CLeased, lease = l, lcontext = ctx\<rparr>)"

definition LeaseBreakingState :: "ILease \<Rightarrow> Context \<Rightarrow> LeaseState result" where
  "LeaseBreakingState l ctx =
     (if startTime ctx = None then Inl RangeError
      else if leaseState l \<noteq> Some Breaking then Inl RangeError
      else if leaseStatus l \<noteq> Some Locked then Inl RangeError
      else if leaseId l = None then Inl RangeError
      else if leaseExpireTime l \<noteq> None then Inl RangeError
      else if leaseDurationSeconds l \<noteq> None then Inl RangeError
      else if leaseDurationType l \<noteq> None then Inl RangeError
      else if (case leaseBreakTime l of None \<Rightarrow> True | Some b \<Rightarrow> date_ge (ctx_now ctx) b)
      then Inl RangeError
      else Inr \<lparr>lclass = CBreaking, lease = l, lcontext = ctx\<rparr>)"

definition LeaseBrokenState :: "ILease \<Rightarrow> Context \<Rightarrow> LeaseState result" where
  "LeaseBrokenState l ctx =
     (if startTime ctx = None then Inl RangeError
      else if leaseState l = Some Broken
      then if leaseStatus l \<noteq> Some Unlocked then Inl RangeError
        else if leaseId l = None then Inl RangeError
        else if leaseExpireTime l \<noteq> None then Inl RangeError
        else if leaseDurationSeconds l \<noteq> None then Inl RangeError
        else if leaseDurationType l \<noteq> None then Inl RangeError
        else if leaseBreakTime l \<noteq> None then Inl RangeError
        else Inr \<lparr>lclass = CBroken, lease = l, lcontext = ctx\<rparr>
      else if leaseState l = Some Breaking
      then if leaseStatus l \<noteq> Some Locked then Inl RangeError
        else if leaseId l = None then Inl RangeError
        else if leaseExpireTime l \<noteq> None then Inl RangeError
        else if leaseDurationSeconds l \<noteq> None then Inl RangeError
        else if leaseDurationType l \<noteq> None then Inl RangeError
        else if (case leaseBreakTime l of None \<Rightarrow> True | Some b \<Rightarrow> date_lt (ctx_now ctx) b)
        then Inl RangeError
        else Inr \<lparr>lclass = CBroken, lease = broken_lease (leaseId l), lcontext = ctx\<rparr>
      else Inl RangeError)"

definition LeaseExpiredState :: "ILease \<Rightarrow> Context \<Rightarrow> LeaseState result" where
  "LeaseExpiredState l ctx =
     (if startTime ctx = None then Inl RangeError
      else if leaseState l = Some Expired
      then if leaseStatus l \<noteq> Some Unlocked then Inl RangeError
        else if leaseId l = None then Inl RangeError
        else if leaseExpireTime l \<noteq> None then Inl RangeError
        else if leaseDurationSeconds l = None \<or> leaseDurationSeconds l = Some (-1)
        then Inl RangeError
        else if leaseDurationType l \<noteq> None then Inl RangeError
        else if leaseBreakTime l \<noteq> None then Inl RangeError
        else Inr \<lparr>lclass = CExpired, lease = l, lcontext = ctx\<rparr>
      else if leaseState l = Some Leased
      then if leaseStatus l \<noteq> Some Locked then Inl RangeError
        else if leaseId l = None then Inl RangeError
        else if (case leaseExpireTime l of None \<Rightarrow> True | Some e \<Rightarrow> date_lt (ctx_now ctx) e)
        then Inl RangeError
        else if leaseDurationSeconds l = None \<or> leaseDurationSeconds l = Some (-1)
        then Inl RangeError
        else if leaseDurationType l \<noteq> Some Fixed then Inl RangeError
        else if leaseBreakTime l \<noteq> None then Inl RangeError
        else Inr \<lparr>lclass = CExpired, lease = expired_lease (leaseId l) (leaseDurationSeconds l),
                  lcontext = ctx\<rparr>
      else Inl RangeError)"

text \<open>\<open>LeaseFactory.createLeaseState\<close>: the stored record may be a \<open>Leased\<close> one whose time is
  over, or a \<open>Breaking\<close> one whose break time has passed.\<close>

definition createLeaseState :: "ILease \<Rightarrow> Context \<Rightarrow> LeaseState result" where
  "createLeaseState l ctx =
     (if startTime ctx = None then Inl RangeError
      else (case leaseState l of
          None \<Rightarrow> LeaseAvailableState l ctx
        | Some Available \<Rightarrow> LeaseAvailableState l ctx
        | Some Leased \<Rightarrow>
            (case leaseExpireTime l of
               None \<Rightarrow> LeaseLeasedState l ctx
             | Some e \<Rightarrow> if date_lt (ctx_now ctx) e then LeaseLeasedState l ctx
                         else LeaseExpiredState l ctx)
        | Some Expired \<Rightarrow> LeaseExpiredState l ctx
        | Some Breaking \<Rightarrow>
            (case leaseBreakTime l of
               None \<Rightarrow> Inl RangeError
             | Some b \<Rightarrow> if date_lt (ctx_now ctx) b then LeaseBreakingState l ctx
                         else LeaseBrokenState l ctx)
        | Some Broken \<Rightarrow> LeaseBrokenState l ctx))"

section \<open>Operations\<close>

text \<open>The tail that \<open>acquire\<close> has in four of the five classes.\<close>

definition grant_lease :: "Context \<Rightarrow> int \<Rightarrow> string \<Rightarrow> string \<Rightarrow> LeaseState result" where
  "grant_lease ctx duration proposedLeaseId fresh =
     (if (duration < 15 \<or> duration > 60) \<and> duration \<noteq> -1 then Inl getInvalidLeaseDuration
      else if duration = -1
      then LeaseLeasedState
             (leased_lease (Some (str_or proposedLeaseId fresh)) (Some Infinite) None None) ctx
      else LeaseLeasedState
             (leased_lease (Some (str_or proposedLeaseId fresh)) (Some Fixed) (Some duration)
                (Some (date_plus_seconds (ctx_now ctx) (Some duration)))) ctx)"

definition LeaseAvailableState_acquire ::
  "LeaseState \<Rightarrow> int \<Rightarrow> string \<Rightarrow> string \<Rightarrow> LeaseState result" where
  "LeaseAvailableState_acquire s duration proposedLeaseId fresh =
     grant_lease (lcontext s) duration proposedLeaseId fresh"

definition LeaseAvailableState_break :: "LeaseState \<Rightarrow> LeaseState result" where
  "LeaseAvailableState_break s = Inl getLeaseNotPresentWithLeaseOperation"

definition LeaseAvailableState_renew :: "LeaseState \<Rightarrow> string \<Rightarrow> LeaseState result" where
  "LeaseAvailableState_renew s i = Inl getLeaseIdMismatchWithLeaseOperation"

definition LeaseAvailableState_change :: "LeaseState \<Rightarrow> LeaseState result" where
  "LeaseAvailableState_change s = Inl getLeaseNotPresentWithLeaseOperation"

definition LeaseAvailableState_release :: "LeaseState \<Rightarrow> string \<Rightarrow> LeaseState result" where
  "LeaseAvailableState_release s i = Inl getLeaseIdMismatchWithLeaseOperation"

definition LeaseLeasedState_acquire ::
  "LeaseState \<Rightarrow> int \<Rightarrow> string \<Rightarrow> string \<Rightarrow> LeaseState result" where
  "LeaseLeasedState_acquire s duration proposedLeaseId fresh =
     (if Some proposedLeaseId \<noteq> leaseId (lease s) then Inl getLeaseAlreadyPresent
      else grant_lease (lcontext s) duration proposedLeaseId fresh)"

definition LeaseLeasedState_break :: "LeaseState \<Rightarrow> int option \<Rightarrow> LeaseState result" where
  "LeaseLeasedState_break s breakPeriod =
     (let i = leaseId (lease s); now = ctx_now (lcontext s) in
      if leaseDurationType (lease s) = Some Infinite
      then if breakPeriod = Some 0 \<or> breakPeriod = None
        then LeaseBrokenState (broken_lease i) (lcontext s)
        else LeaseBreakingState (breaking_lease i (Some (date_plus_seconds now breakPeriod)))
               (lcontext s)
      else if breakPeriod = Some 0 then LeaseBrokenState (broken_lease i) (lcontext s)
      else (case breakPeriod of
          None \<Rightarrow> LeaseBreakingState (breaking_lease i (leaseExpireTime (lease s))) (lcontext s)
        | Some p \<Rightarrow>
            if p < 0 \<or> p > 60 then Inl getInvalidLeaseBreakPeriod
            else LeaseBreakingState
                   (breaking_lease i
                      (minDate (leaseExpireTime (lease s)) (date_plus_seconds now (Some p))))
                   (lcontext s)))"

definition LeaseLeasedState_renew :: "LeaseState \<Rightarrow> string \<Rightarrow> LeaseState result" where
  "LeaseLeasedState_renew s i =
     (if leaseId (lease s) \<noteq> Some i then Inl getLeaseIdMismatchWithLeaseOperation
      else if leaseDurationType (lease s) = Some Infinite then Inr s
      else LeaseLeasedState
             (leased_lease (leaseId (lease s)) (Some Fixed) (leaseDurationSeconds (lease s))
                (Some (date_plus_seconds (ctx_now (lcontext s)) (leaseDurationSeconds (lease s)))))
             (lcontext s))"

definition LeaseLeasedState_change ::
  "LeaseState \<Rightarrow> string \<Rightarrow> string \<Rightarrow> LeaseState result" where
  "LeaseLeasedState_change s i proposedLeaseId =
     (if leaseId (lease s) \<noteq> Some i \<and> leaseId (lease s) \<noteq> Some proposedLeaseId
      then Inl getLeaseIdMismatchWithLeaseOperation
      else LeaseLeasedState
             (leased_lease (Some proposedLeaseId) (leaseDurationType (lease s))
                (leaseDurationSeconds (lease s)) (leaseExpireTime (lease s)))
             (lcontext s))"

definition LeaseLeasedState_release :: "LeaseState \<Rightarrow> string \<Rightarrow> LeaseState result" where
  "LeaseLeasedState_release s i =
     (if leaseId (lease s) \<noteq> Some i then Inl getLeaseIdMismatchWithLeaseOperation
      else LeaseAvailableState available_lease (lcontext s))"

definition LeaseBreakingState_acquire ::
  "LeaseState \<Rightarrow> int \<Rightarrow> string \<Rightarrow> LeaseState result" where
  "LeaseBreakingState_acquire s duration proposedLeaseId =
     (if Some proposedLeaseId = leaseId (lease s)
      then Inl getLeaseIsBreakingAndCannotBeAcquired else Inl getLeaseAlreadyPresent)"

definition LeaseBreakingState_break :: "LeaseState \<Rightarrow> int option \<Rightarrow> LeaseState result" where
  "LeaseBreakingState_break s breakPeriod =
     (let i = leaseId (lease s) in
      case breakPeriod of
        None \<Rightarrow> Inr s
      | Some p \<Rightarrow>
          if p = 0 then LeaseBrokenState (broken_lease i) (lcontext s)
          else if p > 0 \<and> p \<le> 60
          then LeaseBreakingState
                 (breaking_lease i
                    (minDate (leaseBreakTime (lease s))
                       (date_plus_seconds (ctx_now (lcontext s)) (Some p))))
                 (lcontext s)
          else Inl getInvalidLeaseBreakPeriod)"

definition LeaseBreakingState_renew :: "LeaseState \<Rightarrow> string \<Rightarrow> LeaseState result" where
  "LeaseBreakingState_renew s proposedLeaseId =
     (if Some proposedLeaseId = leaseId (lease s) then Inl getLeaseIsBrokenAndCannotBeRenewed
      else Inl getLeaseIdMismatchWithLeaseOperation)"

definition LeaseBreakingState_change :: "LeaseState \<Rightarrow> string \<Rightarrow> LeaseState result" where
  "LeaseBreakingState_change s proposedLeaseId =
     (if Some proposedLeaseId = leaseId (lease s) then Inl getLeaseIsBreakingAndCannotBeChanged
      else Inl getLeaseIdMismatchWithLeaseOperation)"

definition LeaseBreakingState_release :: "LeaseState \<Rightarrow> string \<Rightarrow> LeaseState result" where
  "LeaseBreakingState_release s i =
     (if leaseId (lease s) \<noteq> Some i then Inl getLeaseIdMismatchWithLeaseOperation
      else LeaseAvailableState available_lease (lcontext s))"

definition LeaseBrokenState_acquire ::
  "LeaseState \<Rightarrow> int \<Rightarrow> string \<Rightarrow> string \<Rightarrow> LeaseState result" where
  "LeaseBrokenState_acquire s duration proposedLeaseId fresh =
     grant_lease (lcontext s) duration proposedLeaseId fresh"

definition LeaseBrokenState_break :: "LeaseState \<Rightarrow> int option \<Rightarrow> LeaseState result" where
  "LeaseBrokenState_break s breakPeriod = Inr s"

definition LeaseBrokenState_renew :: "LeaseState \<Rightarrow> string \<Rightarrow> LeaseState result" where
  "LeaseBrokenState_renew s proposedLeaseId =
     (if Some proposedLeaseId = leaseId (lease s) then Inl getLeaseIsBrokenAndCannotBeRenewed
      else Inl getLeaseIdMismatchWithLeaseOperation)"

definition LeaseBrokenState_change :: "LeaseState \<Rightarrow> LeaseState result" where
  "LeaseBrokenState_change s = Inl getLeaseNotPresentWithLeaseOperation"

definition LeaseBrokenState_release :: "LeaseState \<Rightarrow> string \<Rightarrow> LeaseState result" where
  "LeaseBrokenState_release s i =
     (if leaseId (lease s) \<noteq> Some i then Inl getLeaseIdMismatchWithLeaseOperation
      else LeaseAvailableState available_lease (lcontext s))"

definition LeaseExpiredState_acquire ::
  "LeaseState \<Rightarrow> int \<Rightarrow> string \<Rightarrow> string \<Rightarrow> LeaseState result" where
  "LeaseExpiredState_acquire s duration proposedLeaseId fresh =
     grant_lease (lcontext s) duration proposedLeaseId fresh"

definition LeaseExpiredState_break :: "LeaseState \<Rightarrow> int option \<Rightarrow> LeaseState result" where
  "LeaseExpiredState_break s breakPeriod =
     LeaseBrokenState (broken_lease (leaseId (lease s))) (lcontext s)"

definition LeaseExpiredState_renew :: "LeaseState \<Rightarrow> LeaseState result" where
  "LeaseExpiredState_renew s =
     LeaseLeasedState
       (leased_lease (leaseId (lease s)) (Some Fixed) (leaseDurationSeconds (lease s))
          (Some (date_plus_seconds (ctx_now (lcontext s)) (leaseDurationSeconds (lease s)))))
       (lcontext s)"

definition LeaseExpiredState_change :: "LeaseState \<Rightarrow> LeaseState result" where
  "LeaseExpiredState_change s = Inl getLeaseNotPresentWithLeaseOperation"

definition LeaseExpiredState_release :: "LeaseState \<Rightarrow> string \<Rightarrow> LeaseState result" where
  "LeaseExpiredState_release s i =
     (if leaseId (lease s) \<noteq> Some i then Inl getLeaseIdMismatchWithLeaseOperation
      else LeaseAvailableState available_lease (lcontext s))"

section \<open>The interface: dynamic dispatch on the class\<close>

text \<open>The operations of the interface \<open>ILeaseState\<close> with their arguments; a missing proposed
  lease identifier is the default \<open>""\<close>.\<close>

datatype lease_op =
    Acquire int "string option" string
  | Break "int option"
  | Renew string
  | Change string string
  | Release string

definition default_id :: "string option \<Rightarrow> string" where
  "default_id p = (case p of None \<Rightarrow> '''' | Some i \<Rightarrow> i)"

fun lease_exec :: "lease_op \<Rightarrow> LeaseState \<Rightarrow> LeaseState result" where
  "lease_exec (Acquire d p fresh) s =
     (case lclass s of
        CAvailable \<Rightarrow> LeaseAvailableState_acquire s d (default_id p) fresh
      | CLeased \<Rightarrow> LeaseLeasedState_acquire s d (default_id p) fresh
      | CBreaking \<Rightarrow> LeaseBreakingState_acquire s d (default_id p)
      | CBroken \<Rightarrow> LeaseBrokenState_acquire s d (default_id p) fresh
      | CExpired \<Rightarrow> LeaseExpiredState_acquire s d (default_id p) fresh)"
| "lease_exec (Break p) s =
     (case lclass s of
        CAvailable \<Rightarrow> LeaseAvailableState_break s
      | CLeased \<Rightarrow> LeaseLeasedState_break s p
      | CBreaking \<Rightarrow> LeaseBreakingState_break s p
      | CBroken \<Rightarrow> LeaseBrokenState_break s p
      | CExpired \<Rightarrow> LeaseExpiredState_break s p)"
| "lease_exec (Renew i) s =
     (case lclass s of
        CAvailable \<Rightarrow> LeaseAvailableState_renew s i
      | CLeased \<Rightarrow> LeaseLeasedState_renew s i
      | CBreaking \<Rightarrow> LeaseBreakingState_renew s i
      | CBroken \<Rightarrow> LeaseBrokenState_renew s i
      | CExpired \<Rightarrow> LeaseExpiredState_renew s)"
| "lease_exec (Change i p) s =
     (case lclass s of
        CAvailable \<Rightarrow> LeaseAvailableState_change s
      | CLeased \<Rightarrow> LeaseLeasedState_change s i p
      | CBreaking \<Rightarrow> LeaseBreakingState_change s i
      | CBroken \<Rightarrow> LeaseBrokenState_change s
      | CExpired \<Rightarrow> LeaseExpiredState_change s)"
| "lease_exec (Release i) s =
     (case lclass s of
        CAvailable \<Rightarrow> LeaseAvailableState_release s i
      | CLeased \<Rightarrow> LeaseLeasedState_release s i
      | CBreaking \<Rightarrow> LeaseBreakingState_release s i
      | CBroken \<Rightarrow> LeaseBrokenState_release s i
      | CExpired \<Rightarrow> LeaseExpiredState_release s i)"

text \<open>What a metadata store does with a lease request: rebuild the state from the stored record at
  the request time, run the operation, keep the lease of the resulting state.\<close>

definition at_time :: "int \<Rightarrow> Context" where
  "at_time t = \<lparr>startTime = Some (Valid t)\<rparr>"

definition lease_request :: "int \<Rightarrow> lease_op \<Rightarrow> ILease \<Rightarrow> ILease result" where
  "lease_request t op l =
     bind_result (createLeaseState l (at_time t))
       (\<lambda>s. bind_result (lease_exec op s) (\<lambda>s'. Inr (lease s')))"

section \<open>Well-formed leases and the abstract lease\<close>

text \<open>The shape of every lease record the operations store.\<close>

definition lease_wf :: "ILease \<Rightarrow> bool" where
  "lease_wf l \<longleftrightarrow>
     (case leaseState l of
        None \<Rightarrow> True
      | Some Available \<Rightarrow> l = available_lease
      | Some Leased \<Rightarrow>
          leaseStatus l = Some Locked \<and> leaseId l \<noteq> None \<and> leaseBreakTime l = None \<and>
          (case leaseDurationType l of
             None \<Rightarrow> False
           | Some Infinite \<Rightarrow> leaseDurationSeconds l = None \<and> leaseExpireTime l = None
           | Some Fixed \<Rightarrow>
               (case leaseDurationSeconds l of None \<Rightarrow> False | Some d \<Rightarrow> 15 \<le> d \<and> d \<le> 60) \<and>
               (case leaseExpireTime l of Some (Valid _) \<Rightarrow> True | _ \<Rightarrow> False))
      | Some Breaking \<Rightarrow>
          leaseId l \<noteq> None \<and> l = breaking_lease (leaseId l) (leaseBreakTime l) \<and>
          (case leaseBreakTime l of Some (Valid _) \<Rightarrow> True | _ \<Rightarrow> False)
      | Some Broken \<Rightarrow> leaseId l \<noteq> None \<and> l = broken_lease (leaseId l)
      | Some Expired \<Rightarrow>
          leaseId l \<noteq> None \<and> l = expired_lease (leaseId l) (leaseDurationSeconds l) \<and>
          (case leaseDurationSeconds l of None \<Rightarrow> False | Some d \<Rightarrow> 15 \<le> d \<and> d \<le> 60))"

text \<open>What a client can know of a lease at a time: nobody holds it; it is held, for ever or until
  an expiry with the duration a renewal would grant again; it is being broken until a time; it was
  broken; it expired.\<close>

datatype alease =
    AFree
  | AHeld string "(int \<times> int) option"
  | ABreaking string int
  | ABroken string
  | AExpired string int

fun date_ms :: "js_date \<Rightarrow> int" where
  "date_ms (Valid t) = t"
| "date_ms InvalidDate = 0"

definition lease_view :: "int \<Rightarrow> ILease \<Rightarrow> alease" where
  "lease_view t l =
     (let i = the (leaseId l) in
      case leaseState l of
        None \<Rightarrow> AFree
      | Some Available \<Rightarrow> AFree
      | Some Leased \<Rightarrow>
          (case leaseExpireTime l of
             None \<Rightarrow> AHeld i None
           | Some e \<Rightarrow> if t < date_ms e then AHeld i (Some (date_ms e, the (leaseDurationSeconds l)))
                       else AExpired i (the (leaseDurationSeconds l)))
      | Some Breaking \<Rightarrow>
          (let b = date_ms (the (leaseBreakTime l)) in if t < b then ABreaking i b else ABroken i)
      | Some Broken \<Rightarrow> ABroken i
      | Some Expired \<Rightarrow> AExpired i (the (leaseDurationSeconds l)))"

text \<open>The abstract machine: what each operation does to the abstract lease at time \<open>t\<close>.\<close>

definition spec_grant :: "int \<Rightarrow> int \<Rightarrow> string \<Rightarrow> alease result" where
  "spec_grant t d i =
     (if d = -1 then Inr (AHeld i None)
      else if 15 \<le> d \<and> d \<le> 60 then Inr (AHeld i (Some (t + d * 1000, d)))
      else Inl getInvalidLeaseDuration)"

fun spec_exec :: "int \<Rightarrow> lease_op \<Rightarrow> alease \<Rightarrow> alease result" where
  "spec_exec t (Acquire d p fresh) (AHeld i _) =
     (if default_id p = i then spec_grant t d (str_or i fresh) else Inl getLeaseAlreadyPresent)"
| "spec_exec t (Acquire d p fresh) (ABreaking i _) =
     (if default_id p = i then Inl getLeaseIsBreakingAndCannotBeAcquired
      else Inl getLeaseAlreadyPresent)"
| "spec_exec t (Acquire d p fresh) _ = spec_grant t d (str_or (default_id p) fresh)"
| "spec_exec t (Break p) AFree = Inl getLeaseNotPresentWithLeaseOperation"
| "spec_exec t (Break p) (AHeld i None) =
     (case p of
        None \<Rightarrow> Inr (ABroken i)
      | Some n \<Rightarrow> if n = 0 then Inr (ABroken i)
                  else if n < 0 then Inl RangeError
                  else Inr (ABreaking i (t + n * 1000)))"
| "spec_exec t (Break p) (AHeld i (Some (e, d))) =
     (case p of
        None \<Rightarrow> Inr (ABreaking i e)
      | Some n \<Rightarrow> if n = 0 then Inr (ABroken i)
                  else if n < 0 \<or> 60 < n then Inl getInvalidLeaseBreakPeriod
                  else Inr (ABreaking i (min e (t + n * 1000))))"
| "spec_exec t (Break p) (ABreaking i b) =
     (case p of
        None \<Rightarrow> Inr (ABreaking i b)
      | Some n \<Rightarrow> if n = 0 then Inr (ABroken i)
                  else if n < 0 \<or> 60 < n then Inl getInvalidLeaseBreakPeriod
                  else Inr (ABreaking i (min b (t + n * 1000))))"
| "spec_exec t (Break p) (ABroken i) = Inr (ABroken i)"
| "spec_exec t (Break p) (AExpired i d) = Inr (ABroken i)"
| "spec_exec t (Renew j) AFree = Inl getLeaseIdMismatchWithLeaseOperation"
| "spec_exec t (Renew j) (AHeld i x) =
     (if i \<noteq> j then Inl getLeaseIdMismatchWithLeaseOperation
      else Inr (AHeld i (map_option (\<lambda>(e, d). (t + d * 1000, d)) x)))"
| "spec_exec t (Renew j) (ABreaking i b) =
     (if i = j then Inl getLeaseIsBrokenAndCannotBeRenewed
      else Inl getLeaseIdMismatchWithLeaseOperation)"
| "spec_exec t (Renew j) (ABroken i) =
     (if i = j then Inl getLeaseIsBrokenAndCannotBeRenewed
      else Inl getLeaseIdMismatchWithLeaseOperation)"
| "spec_exec t (Renew j) (AExpired i d) = Inr (AHeld i (Some (t + d * 1000, d)))"
| "spec_exec t (Change j p) (AHeld i x) =
     (if i \<noteq> j \<and> i \<noteq> p then Inl getLeaseIdMismatchWithLeaseOperation else Inr (AHeld p x))"
| "spec_exec t (Change j p) (ABreaking i b) =
     (if i = j then Inl getLeaseIsBreakingAndCannotBeChanged
      else Inl getLeaseIdMismatchWithLeaseOperation)"
| "spec_exec t (Change j p) _ = Inl getLeaseNotPresentWithLeaseOperation"
| "spec_exec t (Release j) AFree = Inl getLeaseIdMismatchWithLeaseOperation"
| "spec_exec t (Release j) (AHeld i x) =
     (if i = j then Inr AFree else Inl getLeaseIdMismatchWithLeaseOperation)"
| "spec_exec t (Release j) (ABreaking i x) =
     (if i = j then Inr AFree else Inl getLeaseIdMismatchWithLeaseOperation)"
| "spec_exec t (Release j) (ABroken i) =
     (if i = j then Inr AFree else Inl getLeaseIdMismatchWithLeaseOperation)"
| "spec_exec t (Release j) (AExpired i x) =
     (if i = j then Inr AFree else Inl getLeaseIdMismatchWithLeaseOperation)"

text \<open>Whose lease excludes the others at time \<open>t\<close>, and which requests of others may disturb
  it: those that name the identifier, and breaking.\<close>

definition lease_holder :: "int \<Rightarrow> ILease \<Rightarrow> string option" where
  "lease_holder t l =
     (case lease_view t l of AHeld i _ \<Rightarrow> Some i | ABreaking i _ \<Rightarrow> Some i | _ \<Rightarrow> None)"

fun names_lease :: "string \<Rightarrow> lease_op \<Rightarrow> bool" where
  "names_lease i (Acquire d p fresh) = (default_id p = i)"
| "names_lease i (Break p) = True"
| "names_lease i (Renew j) = (j = i)"
| "names_lease i (Change j p) = (j = i \<or> p = i)"
| "names_lease i (Release j) = (j = i)"

text \<open>A sequence of requests; a refused one leaves the stored record as it is.\<close>

fun lease_run :: "ILease \<Rightarrow> (int \<times> lease_op) list \<Rightarrow> ILease" where
  "lease_run l [] = l"
| "lease_run l ((t, op) # es) =
     lease_run (case lease_request t op l of Inl _ \<Rightarrow> l | Inr l' \<Rightarrow> l') es"

section \<open>Lemmas\<close>

lemmas lease_literals =
  undefined_lease_def available_lease_def broken_lease_def breaking_lease_def expired_lease_def
  leased_lease_def

lemmas lease_constructors =
  LeaseAvailableState_def LeaseLeasedState_def LeaseBreakingState_def LeaseBrokenState_def
  LeaseExpiredState_def

lemmas lease_operations =
  LeaseAvailableState_acquire_def LeaseAvailableState_break_def LeaseAvailableState_renew_def
  LeaseAvailableState_change_def LeaseAvailableState_release_def
  LeaseLeasedState_acquire_def LeaseLeasedState_break_def LeaseLeasedState_renew_def
  LeaseLeasedState_change_def LeaseLeasedState_release_def
  LeaseBreakingState_acquire_def LeaseBreakingState_break_def LeaseBreakingState_renew_def
  LeaseBreakingState_change_def LeaseBreakingState_release_def
  LeaseBrokenState_acquire_def LeaseBrokenState_break_def LeaseBrokenState_renew_def
  LeaseBrokenState_change_def LeaseBrokenState_release_def
  LeaseExpiredState_acquire_def LeaseExpiredState_break_def LeaseExpiredState_renew_def
  LeaseExpiredState_change_def LeaseExpiredState_release_def

lemma at_time_simps [simp]:
  "startTime (at_time t) = Some (Valid t)" "ctx_now (at_time t) = Valid t"
  by (simp_all add: at_time_def ctx_now_def)

text \<open>The shapes of a well-formed record.\<close>

lemma lease_wf_cases [consumes 1, case_names Undefined Available Infinite Fixed Breaking Broken Expired]:
  assumes "lease_wf l"
  obtains "leaseState l = None"
    | "l = available_lease"
    | i where "l = leased_lease (Some i) (Some Infinite) None None"
    | i d e where "l = leased_lease (Some i) (Some Fixed) (Some d) (Some (Valid e))"
        "15 \<le> d" "d \<le> 60"
    | i b where "l = breaking_lease (Some i) (Some (Valid b))"
    | i where "l = broken_lease (Some i)"
    | i d where "l = expired_lease (Some i) (Some d)" "15 \<le> d" "d \<le> 60"
  using assms
  by (cases l)
    (auto simp: lease_wf_def lease_literals
      split: option.splits LeaseStateType.splits LeaseDurationType.splits js_date.splits)

text \<open>The state the factory builds for each shape.\<close>

lemma createLeaseState_shapes:
  "leaseState l = None \<Longrightarrow> createLeaseState l (at_time t) =
     Inr \<lparr>lclass = CAvailable, lease = undefined_lease, lcontext = at_time t\<rparr>"
  "createLeaseState available_lease (at_time t) =
     Inr \<lparr>lclass = CAvailable, lease = available_lease, lcontext = at_time t\<rparr>"
  "createLeaseState (leased_lease (Some i) (Some Infinite) None None) (at_time t) =
     Inr \<lparr>lclass = CLeased, lease = leased_lease (Some i) (Some Infinite) None None,
          lcontext = at_time t\<rparr>"
  "15 \<le> d \<Longrightarrow> d \<le> 60 \<Longrightarrow>
     createLeaseState (leased_lease (Some i) (Some Fixed) (Some d) (Some (Valid e))) (at_time t) =
     Inr (if t < e
       then \<lparr>lclass = CLeased, lease = leased_lease (Some i) (Some Fixed) (Some d) (Some (Valid e)),
             lcontext = at_time t\<rparr>
       else \<lparr>lclass = CExpired, lease = expired_lease (Some i) (Some d), lcontext = at_time t\<rparr>)"
  "createLeaseState (breaking_lease (Some i) (Some (Valid b))) (at_time t) =
     Inr (if t < b
       then \<lparr>lclass = CBreaking, lease = breaking_lease (Some i) (Some (Valid b)),
             lcontext = at_time t\<rparr>
       else \<lparr>lclass = CBroken, lease = broken_lease (Some i), lcontext = at_time t\<rparr>)"
  "createLeaseState (broken_lease (Some i)) (at_time t) =
     Inr \<lparr>lclass = CBroken, lease = broken_lease (Some i), lcontext = at_time t\<rparr>"
  "15 \<le> d \<Longrightarrow> d \<le> 60 \<Longrightarrow> createLeaseState (expired_lease (Some i) (Some d)) (at_time t) =
     Inr \<lparr>lclass = CExpired, lease = expired_lease (Some i) (Some d), lcontext = at_time t\<rparr>"
  by (simp_all add: createLeaseState_def lease_constructors lease_literals)

text \<open>The literals are accepted by the constructors of their classes.\<close>

lemma lease_constructor_shapes:
  "LeaseAvailableState available_lease (at_time t) =
     Inr \<lparr>lclass = CAvailable, lease = available_lease, lcontext = at_time t\<rparr>"
  "LeaseBrokenState (broken_lease (Some i)) (at_time t) =
     Inr \<lparr>lclass = CBroken, lease = broken_lease (Some i), lcontext = at_time t\<rparr>"
  "LeaseBreakingState (breaking_lease (Some i) (Some (Valid b))) (at_time t) =
     (if t < b
      then Inr \<lparr>lclass = CBreaking, lease = breaking_lease (Some i) (Some (Valid b)),
                lcontext = at_time t\<rparr>
      else Inl RangeError)"
  "LeaseLeasedState (leased_lease (Some i) (Some Infinite) None None) (at_time t) =
     Inr \<lparr>lclass = CLeased, lease = leased_lease (Some i) (Some Infinite) None None,
          lcontext = at_time t\<rparr>"
  "LeaseLeasedState (leased_lease (Some i) (Some Fixed) (Some d) (Some (Valid e))) (at_time t) =
     (if t < e
      then Inr \<lparr>lclass = CLeased, lease = leased_lease (Some i) (Some Fixed) (Some d) (Some (Valid e)),
                lcontext = at_time t\<rparr>
      else Inl RangeError)"
  by (simp_all add: lease_constructors lease_literals)

lemma lease_literal_fields [simp]:
  "leaseId (leased_lease i ty d e) = i" "leaseDurationType (leased_lease i ty d e) = ty"
  "leaseDurationSeconds (leased_lease i ty d e) = d" "leaseExpireTime (leased_lease i ty d e) = e"
  "leaseId (breaking_lease i b) = i" "leaseBreakTime (breaking_lease i b) = b"
  "leaseId (broken_lease i) = i"
  "leaseId (expired_lease i d) = i" "leaseDurationSeconds (expired_lease i d) = d"
  "leaseState available_lease = Some Available" "leaseState undefined_lease = None"
  "leaseState (leased_lease i ty d e) = Some Leased"
  "leaseState (breaking_lease i b) = Some Breaking" "leaseState (broken_lease i) = Some Broken"
  "leaseState (expired_lease i d) = Some Expired"
  "leaseStatus available_lease = Some Unlocked" "leaseStatus undefined_lease = None"
  "leaseStatus (leased_lease i ty d e) = Some Locked"
  "leaseStatus (breaking_lease i b) = Some Locked" "leaseStatus (broken_lease i) = Some Unlocked"
  "leaseStatus (expired_lease i d) = Some Unlocked"
  by (simp_all add: lease_literals)

lemma lease_view_shapes [simp]:
  "leaseState l = None \<Longrightarrow> lease_view t l = AFree"
  "lease_view t undefined_lease = AFree"
  "lease_view t available_lease = AFree"
  "lease_view t (leased_lease (Some i) ty ds None) = AHeld i None"
  "lease_view t (leased_lease (Some i) ty (Some d) (Some (Valid e))) =
     (if t < e then AHeld i (Some (e, d)) else AExpired i d)"
  "lease_view t (breaking_lease (Some i) (Some (Valid b))) =
     (if t < b then ABreaking i b else ABroken i)"
  "lease_view t (broken_lease (Some i)) = ABroken i"
  "lease_view t (expired_lease (Some i) (Some d)) = AExpired i d"
  by (simp_all add: lease_view_def lease_literals)

lemma lease_wf_shapes [simp]:
  "leaseState l = None \<Longrightarrow> lease_wf l" "lease_wf undefined_lease"
  "lease_wf available_lease"
  "lease_wf (leased_lease (Some i) (Some Infinite) None None)"
  "lease_wf (leased_lease (Some i) (Some Fixed) (Some d) (Some (Valid e))) \<longleftrightarrow> 15 \<le> d \<and> d \<le> 60"
  "lease_wf (breaking_lease (Some i) (Some (Valid b)))"
  "lease_wf (broken_lease (Some i))"
  "lease_wf (expired_lease (Some i) (Some d)) \<longleftrightarrow> 15 \<le> d \<and> d \<le> 60"
  by (simp_all add: lease_wf_def lease_literals)

lemma grant_lease_at:
  "grant_lease (at_time t) d p fresh =
     (if d = -1
      then Inr \<lparr>lclass = CLeased,
             lease = leased_lease (Some (str_or p fresh)) (Some Infinite) None None,
             lcontext = at_time t\<rparr>
      else if 15 \<le> d \<and> d \<le> 60
      then Inr \<lparr>lclass = CLeased,
             lease = leased_lease (Some (str_or p fresh)) (Some Fixed) (Some d)
                       (Some (Valid (t + d * 1000))),
             lcontext = at_time t\<rparr>
      else Inl getInvalidLeaseDuration)"
  by (auto simp: grant_lease_def lease_constructor_shapes)

lemmas lease_eval =
  lease_request_def lease_operations createLeaseState_shapes lease_constructor_shapes
  grant_lease_at spec_grant_def minDate_def Let_def

text \<open>One case of the refinement per shape of the stored record.\<close>

lemma lease_refines_free:
  "leaseState l = None \<or> l = available_lease \<Longrightarrow>
   map_sum id (lease_view t) (lease_request t op l) = spec_exec t op AFree"
  by (cases op) (auto simp: lease_eval)

lemma lease_refines_infinite:
  "map_sum id (lease_view t)
     (lease_request t op (leased_lease (Some i) (Some Infinite) None None)) =
   spec_exec t op (AHeld i None)"
  by (cases op) (auto simp: lease_eval split: option.splits)

lemma lease_refines_fixed:
  assumes "15 \<le> d" "d \<le> 60" "t < e"
  shows "map_sum id (lease_view t)
     (lease_request t op (leased_lease (Some i) (Some Fixed) (Some d) (Some (Valid e)))) =
   spec_exec t op (AHeld i (Some (e, d)))"
  using assms by (cases op) (auto simp: lease_eval split: option.splits)

lemma lease_refines_expired_state:
  assumes "15 \<le> d" "d \<le> 60"
    and "createLeaseState l (at_time t) =
      Inr \<lparr>lclass = CExpired, lease = expired_lease (Some i) (Some d), lcontext = at_time t\<rparr>"
  shows "map_sum id (lease_view t) (lease_request t op l) = spec_exec t op (AExpired i d)"
  using assms by (cases op) (auto simp: lease_eval split: option.splits)

lemma lease_refines_breaking:
  assumes "t < b"
  shows "map_sum id (lease_view t)
     (lease_request t op (breaking_lease (Some i) (Some (Valid b)))) =
   spec_exec t op (ABreaking i b)"
  using assms by (cases op) (auto simp: lease_eval split: option.splits)

lemma lease_refines_broken_state:
  assumes "createLeaseState l (at_time t) =
      Inr \<lparr>lclass = CBroken, lease = broken_lease (Some i), lcontext = at_time t\<rparr>"
  shows "map_sum id (lease_view t) (lease_request t op l) = spec_exec t op (ABroken i)"
  using assms by (cases op) (auto simp: lease_eval split: option.splits)

lemma lease_request_wf:
  assumes "lease_wf l" "lease_request t op l = Inr l'"
  shows "lease_wf l'"
  using assms
  by (cases rule: lease_wf_cases; cases op)
    (auto simp: lease_eval split: option.splits if_splits)

lemma lease_refines:
  assumes "lease_wf l"
  shows "map_sum id (lease_view t) (lease_request t op l) = spec_exec t op (lease_view t l)"
  using assms
proof (cases rule: lease_wf_cases)
  case (Fixed i d e)
  show ?thesis
  proof (cases "t < e")
    case True
    with Fixed show ?thesis by (simp add: lease_refines_fixed)
  next
    case False
    with Fixed have "lease_view t l = AExpired i d" by simp
    moreover from Fixed False
    have "map_sum id (lease_view t) (lease_request t op l) = spec_exec t op (AExpired i d)"
      by (intro lease_refines_expired_state) (simp_all add: createLeaseState_shapes)
    ultimately show ?thesis by simp
  qed
next
  case (Breaking i b)
  then show ?thesis
    by (cases "t < b")
      (simp_all add: lease_refines_breaking lease_refines_broken_state createLeaseState_shapes)
qed (simp_all add: lease_refines_free lease_refines_infinite lease_refines_broken_state
      lease_refines_expired_state createLeaseState_shapes)

text \<open>A result of the abstract machine tells the result of the code.\<close>

lemma lease_request_Inl:
  assumes "lease_wf l" "spec_exec t op (lease_view t l) = Inl e"
  shows "lease_request t op l = Inl e"
  using lease_refines [OF assms(1), of t op] assms(2) by (cases "lease_request t op l") auto

lemma lease_request_Inr:
  assumes "lease_wf l" "spec_exec t op (lease_view t l) = Inr a"
  obtains l' where "lease_request t op l = Inr l'" "lease_view t l' = a" "lease_wf l'"
  using lease_refines [OF assms(1), of t op] lease_request_wf [OF assms(1), of t op] assms(2)
  by (cases "lease_request t op l") auto

lemma lease_requestD:
  assumes "lease_wf l" "lease_request t op l = Inr l'"
  shows "spec_exec t op (lease_view t l) = Inr (lease_view t l')"
  using lease_refines [OF assms(1), of t op] assms(2) by simp

lemma spec_exec_foreign:
  assumes "(case a of AHeld i _ \<Rightarrow> Some i | ABreaking i _ \<Rightarrow> Some i | _ \<Rightarrow> None) = Some i"
    and "\<not> names_lease i op"
  shows "\<exists>e. spec_exec t op a = Inl e"
  using assms by (cases a; cases op) auto

section \<open>The contract of a lease machine\<close>

text \<open>What a store relies on: requests keep the record well formed, and a request that does not
  name the holder's lease is refused while the lease is held.\<close>

locale lease_machine =
  fixes request :: "int \<Rightarrow> 'op \<Rightarrow> 'l \<Rightarrow> 'e + 'l"
    and wf :: "'l \<Rightarrow> bool"
    and holder :: "int \<Rightarrow> 'l \<Rightarrow> 'i option"
    and names :: "'i \<Rightarrow> 'op \<Rightarrow> bool"
    and run :: "'l \<Rightarrow> (int \<times> 'op) list \<Rightarrow> 'l"
  assumes request_wf: "wf l \<Longrightarrow> request t op l = Inr l' \<Longrightarrow> wf l'"
    and request_foreign:
      "wf l \<Longrightarrow> holder t l = Some i \<Longrightarrow> \<not> names i op \<Longrightarrow> \<exists>e. request t op l = Inl e"
    and run_Nil: "run l [] = l"
    and run_Cons: "run l ((t, op) # es) = run (case request t op l of Inl _ \<Rightarrow> l | Inr l' \<Rightarrow> l') es"
begin

lemma run_wf: "wf l \<Longrightarrow> wf (run l es)"
proof (induction es arbitrary: l)
  case Nil
  then show ?case by (simp add: run_Nil)
next
  case (Cons e es)
  obtain t op where e: "e = (t, op)" by (cases e)
  have "wf (case request t op l of Inl _ \<Rightarrow> l | Inr l' \<Rightarrow> l')"
    using Cons.prems by (auto split: sum.splits intro: request_wf)
  then show ?case using Cons.IH by (simp add: e run_Cons)
qed

lemma held_lease_is_stable:
  assumes "wf l"
    and "\<And>t op. (t, op) \<in> set es \<Longrightarrow> holder t l = Some i \<and> \<not> names i op"
  shows "run l es = l"
  using assms(2)
proof (induction es)
  case Nil
  then show ?case by (simp add: run_Nil)
next
  case (Cons e es)
  obtain t op where e: "e = (t, op)" by (cases e)
  with Cons.prems have "holder t l = Some i" "\<not> names i op" by auto
  with assms(1) obtain err where "request t op l = Inl err" using request_foreign by blast
  then have "run l (e # es) = run l es" by (simp add: e run_Cons)
  also have "run l es = l" by (rule Cons.IH) (rule Cons.prems, simp)
  finally show ?case .
qed

end

interpretation lease_code: lease_machine lease_request lease_wf lease_holder names_lease lease_run
proof
  show "lease_wf l \<Longrightarrow> lease_request t op l = Inr l' \<Longrightarrow> lease_wf l'" for l t op l'
    by (rule lease_request_wf)
  show "\<exists>e. lease_request t op l = Inl e"
    if wf: "lease_wf l" and held: "lease_holder t l = Some i" and foreign: "\<not> names_lease i op"
    for l t i op
  proof -
    from held foreign obtain e where "spec_exec t op (lease_view t l) = Inl e"
      using spec_exec_foreign unfolding lease_holder_def by blast
    then show ?thesis using lease_request_Inl [OF wf] by blast
  qed
qed simp_all

section \<open>Properties\<close>

text \<open>
  C1: The lease classes implement the abstract lease: for every well-formed stored lease, request
  time and operation, rebuilding the state, running the operation and reading the result gives
  exactly the outcome (new lease or error) that the abstract machine prescribes.
\<close>

theorem lease_refinement:
  "lease_wf l \<Longrightarrow>
   map_sum id (lease_view t) (lease_request t op l) = spec_exec t op (lease_view t l)"
  by (rule lease_refines)

theorem lease_refinement_witness:
  "map_sum id (lease_view 1000)
     (lease_request 1000 (Break (Some 10))
        (leased_lease (Some ''a'') (Some Fixed) (Some 20) (Some (Valid 15000)))) =
   Inr (ABreaking ''a'' 11000)"
  using lease_refinement [of "leased_lease (Some ''a'') (Some Fixed) (Some 20) (Some (Valid 15000))"
      1000 "Break (Some 10)"] by simp

text \<open>
  On a well-formed lease no operation runs into the constructors' consistency checks, with one
  exception: breaking an infinite lease with a negative break period, which raises a RangeError
  instead of the storage error that a fixed lease gets.
\<close>

lemma lease_internal_error_only_negative_break:
  assumes "lease_wf l" "lease_request t op l = Inl e" "is_internal_error e"
  shows "e = RangeError \<and> (\<exists>p i. op = Break (Some p) \<and> p < 0 \<and> lease_view t l = AHeld i None)"
proof -
  have "spec_exec t op (lease_view t l) = Inl e"
    using lease_refines [OF assms(1), of t op] assms(2) by simp
  then show ?thesis using assms(3)
    by (cases op; cases "lease_view t l")
      (auto simp: spec_grant_def error_defs split: if_splits option.splits prod.splits
        elim!: spec_exec.elims)
qed



text \<open>
  A lease that nobody holds (never taken, released, broken or expired) can be acquired at once
  with any valid duration, and the requested identifier (or the generated one when none is
  proposed) is the holder until the lease time is over.
\<close>

lemma lease_acquire_when_free:
  assumes "lease_wf l" "lease_holder t l = None" "15 \<le> d" "d \<le> 60"
  shows "\<exists>l'. lease_request t (Acquire d p fresh) l = Inr l' \<and> lease_wf l' \<and>
    (\<forall>t'. lease_holder t' l' = (if t' < t + d * 1000 then Some (str_or (default_id p) fresh) else None))"
  using assms
  by (cases rule: lease_wf_cases)
    (auto simp: lease_eval lease_holder_def split: if_splits option.splits)

text \<open>
  C3: Breaking a fixed lease ends the exclusion no later than the lease itself would have ended,
  and no later than the break period when one is given; a break period outside 0..60 seconds is
  refused.
\<close>

theorem lease_break_bounded:
  assumes "lease_wf l" "lease_view t l = AHeld i (Some (e, d))"
    and "lease_request t (Break p) l = Inr l'"
  shows "(\<forall>t'. e \<le> t' \<longrightarrow> lease_holder t' l' = None) \<and>
    (\<forall>n t'. p = Some n \<longrightarrow> t + n * 1000 \<le> t' \<longrightarrow> lease_holder t' l' = None) \<and>
    (\<forall>n. p = Some n \<longrightarrow> 0 \<le> n \<and> n \<le> 60)"
  using assms
  by (cases rule: lease_wf_cases)
    (auto simp: lease_eval lease_holder_def split: if_splits option.splits)

theorem lease_break_bounded_witness:
  "\<exists>l'. lease_request 0 (Break (Some 10))
      (leased_lease (Some ''a'') (Some Fixed) (Some 20) (Some (Valid 20000))) = Inr l' \<and>
     lease_holder 10000 l' = None \<and> lease_holder 20000 l' = None \<and> lease_holder 9999 l' = Some ''a''"
proof -
  let ?l = "leased_lease (Some ''a'') (Some Fixed) (Some 20) (Some (Valid 20000))"
  obtain l' where l': "lease_request 0 (Break (Some 10)) ?l = Inr l'"
      and "lease_holder 9999 l' = Some ''a''"
    by (simp add: lease_eval lease_holder_def)
  moreover have "lease_holder 10000 l' = None \<and> lease_holder 20000 l' = None"
    using lease_break_bounded [OF _ _ l', of "''a''" 20000 20] by simp
  ultimately show ?thesis by blast
qed

text \<open>
  Renewing an expired lease succeeds for every identifier the request names, also one that is
  not the lease's own, and brings back the lease of the original holder: the expired state does
  not compare the identifier, while every other state does.
\<close>

lemma expired_renew_ignores_id:
  assumes "lease_wf l" "lease_view t l = AExpired i d"
  shows "\<exists>l'. lease_request t (Renew j) l = Inr l' \<and> lease_view t l' = AHeld i (Some (t + d * 1000, d))"
proof -
  have "spec_exec t (Renew j) (lease_view t l) = Inr (AHeld i (Some (t + d * 1000, d)))"
    using assms(2) by simp
  then show ?thesis using lease_request_Inr [OF assms(1)] by metis
qed

end
