(* ===== verification/Lease_Access.thy ===== *)
theory Lease_Access
  imports Lease
begin

text \<open>
  How blobs and containers carry a lease: the adapters that read it from a stored document, the
  syncers that write it back, the validators that guard reads, writes and deletions, and the
  transition system of a blob's lease under lease requests, writes and listings.
\<close>

section \<open>The lease fields of a stored document\<close>

text \<open>The fields of \<open>BlobModel\<close> and \<open>ContainerModel\<close> that the lease code reads and writes; the
  other fields of the document are the record's extension and stay as they are.\<close>

record lease_doc =
  doc_leaseId :: "string option"
  doc_leaseDurationSeconds :: "int option"
  doc_leaseExpireTime :: "js_date option"
  doc_leaseBreakTime :: "js_date option"
  prop_leaseDuration :: "LeaseDurationType option"
  prop_leaseState :: "LeaseStateType option"
  prop_leaseStatus :: "LeaseStatusType option"

section \<open>Adapters\<close>

text \<open>\<open>BlobLeaseAdapter\<close> fills in a missing lease state and status in the document it adapts.\<close>

definition blob_lease_defaults :: "'a lease_doc_scheme \<Rightarrow> 'a lease_doc_scheme" where
  "blob_lease_defaults doc =
     (let doc1 = (if prop_leaseState doc = None
                  then doc\<lparr>prop_leaseState := Some Available\<rparr> else doc)
      in if prop_leaseStatus doc1 = None
         then doc1\<lparr>prop_leaseStatus := Some Unlocked\<rparr> else doc1)"

definition doc_lease :: "'a lease_doc_scheme \<Rightarrow> ILease" where
  "doc_lease doc = \<lparr>leaseId = doc_leaseId doc, leaseState = prop_leaseState doc,
     leaseStatus = prop_leaseStatus doc, leaseDurationType = prop_leaseDuration doc,
     leaseDurationSeconds = doc_leaseDurationSeconds doc,
     leaseExpireTime = doc_leaseExpireTime doc, leaseBreakTime = doc_leaseBreakTime doc\<rparr>"

definition BlobLeaseAdapter :: "'a lease_doc_scheme \<Rightarrow> ILease \<times> 'a lease_doc_scheme" where
  "BlobLeaseAdapter doc = (let doc' = blob_lease_defaults doc in (doc_lease doc', doc'))"

definition ContainerLeaseAdapter :: "'a lease_doc_scheme \<Rightarrow> ILease result" where
  "ContainerLeaseAdapter doc =
     (if prop_leaseState doc = None then Inl RangeError
      else if prop_leaseStatus doc = None then Inl RangeError
      else Inr (doc_lease doc))"

section \<open>Syncers\<close>

definition BlobLeaseSyncer_sync :: "'a lease_doc_scheme \<Rightarrow> ILease \<Rightarrow> 'a lease_doc_scheme" where
  "BlobLeaseSyncer_sync blob l =
     blob\<lparr>doc_leaseId := leaseId l, doc_leaseExpireTime := leaseExpireTime l,
       doc_leaseDurationSeconds := leaseDurationSeconds l, doc_leaseBreakTime := leaseBreakTime l,
       prop_leaseDuration := leaseDurationType l, prop_leaseState := leaseState l,
       prop_leaseStatus := leaseStatus l\<rparr>"

definition ContainerLeaseSyncer_sync ::
  "'a lease_doc_scheme \<Rightarrow> ILease \<Rightarrow> 'a lease_doc_scheme" where
  "ContainerLeaseSyncer_sync container l =
     container\<lparr>doc_leaseId := leaseId l, doc_leaseExpireTime := leaseExpireTime l,
       doc_leaseDurationSeconds := leaseDurationSeconds l, doc_leaseBreakTime := leaseBreakTime l,
       prop_leaseDuration := leaseDurationType l, prop_leaseState := leaseState l,
       prop_leaseStatus := leaseStatus l\<rparr>"

text \<open>A write gives up a lease that has expired or was broken.\<close>

definition BlobWriteLeaseSyncer_sync ::
  "'a lease_doc_scheme \<Rightarrow> ILease \<Rightarrow> 'a lease_doc_scheme" where
  "BlobWriteLeaseSyncer_sync blob l =
     (if leaseState l = Some Expired \<or> leaseState l = Some Broken
      then blob\<lparr>prop_leaseState := Some Available, prop_leaseStatus := Some Unlocked,
             prop_leaseDuration := None, doc_leaseDurationSeconds := None, doc_leaseId := None,
             doc_leaseExpireTime := None, doc_leaseBreakTime := None\<rparr>
      else blob\<lparr>doc_leaseId := leaseId l, doc_leaseExpireTime := leaseExpireTime l,
             doc_leaseDurationSeconds := leaseDurationSeconds l,
             doc_leaseBreakTime := leaseBreakTime l, prop_leaseDuration := leaseDurationType l,
             prop_leaseState := leaseState l, prop_leaseStatus := leaseStatus l\<rparr>)"

section \<open>Validators\<close>

text \<open>The lease access conditions of a request: the lease identifier header, if any. The validators
  treat missing conditions as conditions without an identifier.\<close>

record LeaseAccessConditions =
  cond_leaseId :: "string option"

definition given_leaseId :: "LeaseAccessConditions option \<Rightarrow> string option" where
  "given_leaseId c = (case c of None \<Rightarrow> None | Some r \<Rightarrow> cond_leaseId r)"

text \<open>\<open>lease.leaseId !== undefined && given.toLowerCase() !== lease.leaseId.toLowerCase()\<close>\<close>

definition leaseId_differs :: "string \<Rightarrow> ILease \<Rightarrow> bool" where
  "leaseId_differs g l =
     (case leaseId l of None \<Rightarrow> False | Some i \<Rightarrow> toLowerCase g \<noteq> toLowerCase i)"

definition BlobReadLeaseValidator_validate ::
  "LeaseAccessConditions option \<Rightarrow> ILease \<Rightarrow> unit result" where
  "BlobReadLeaseValidator_validate c l =
     (case given_leaseId c of
        None \<Rightarrow> Inr ()
      | Some g \<Rightarrow>
          if g = '''' then Inr ()
          else if leaseStatus l = Some Unlocked then Inl getBlobLeaseLost
          else if leaseId_differs g l then Inl getBlobLeaseIdMismatchWithBlobOperation
          else Inr ())"

definition BlobWriteLeaseValidator_validate ::
  "LeaseAccessConditions option \<Rightarrow> ILease \<Rightarrow> unit result" where
  "BlobWriteLeaseValidator_validate c l =
     (if leaseStatus l = Some Locked
      then (case given_leaseId c of
          None \<Rightarrow> Inl getBlobLeaseIdMissing
        | Some g \<Rightarrow> if g = '''' then Inl getBlobLeaseIdMissing
                    else if leaseId_differs g l then Inl getBlobLeaseIdMismatchWithBlobOperation
                    else Inr ())
      else (case given_leaseId c of
          None \<Rightarrow> Inr ()
        | Some g \<Rightarrow> if g \<noteq> '''' then Inl getBlobLeaseLost else Inr ()))"

definition ContainerReadLeaseValidator_validate ::
  "LeaseAccessConditions option \<Rightarrow> ILease \<Rightarrow> unit result" where
  "ContainerReadLeaseValidator_validate c l =
     (case given_leaseId c of
        None \<Rightarrow> Inr ()
      | Some g \<Rightarrow>
          if g = '''' then Inr ()
          else if leaseStatus l = Some Unlocked then Inl getContainerLeaseLost
          else if leaseId_differs g l then Inl getContainerLeaseIdMismatchWithContainerOperation
          else Inr ())"

text \<open>Deleting a locked container compares an empty identifier like any other one.\<close>

definition ContainerDeleteLeaseValidator_validate ::
  "LeaseAccessConditions option \<Rightarrow> ILease \<Rightarrow> unit result" where
  "ContainerDeleteLeaseValidator_validate c l =
     (if leaseStatus l = Some Locked
      then (case given_leaseId c of
          None \<Rightarrow> Inl getContainerLeaseIdMissing
        | Some g \<Rightarrow> if leaseId_differs g l
                    then Inl getContainerLeaseIdMismatchWithContainerOperation else Inr ())
      else (case given_leaseId c of
          None \<Rightarrow> Inr ()
        | Some g \<Rightarrow> if g \<noteq> '''' then Inl getContainerLeaseLost else Inr ()))"

text \<open>\<open>LeaseStateBase.validate\<close>: run the validator on the state's lease, keep the state.\<close>

definition LeaseStateBase_validate ::
  "(ILease \<Rightarrow> unit result) \<Rightarrow> LeaseState \<Rightarrow> LeaseState result" where
  "LeaseStateBase_validate validate s = bind_result (validate (lease s)) (\<lambda>_. Inr s)"

definition LeaseStateBase_sync :: "(ILease \<Rightarrow> 'd) \<Rightarrow> LeaseState \<Rightarrow> 'd" where
  "LeaseStateBase_sync sync s = sync (lease s)"

section \<open>The chains the metadata store builds from them\<close>

text \<open>\<open>createLeaseState(new BlobLeaseAdapter(doc), context).op(...).sync(new BlobLeaseSyncer(doc))\<close>\<close>

definition blob_lease_chain ::
  "Context \<Rightarrow> lease_op \<Rightarrow> 'a lease_doc_scheme \<Rightarrow> 'a lease_doc_scheme result" where
  "blob_lease_chain ctx op doc =
     (let (l, doc') = BlobLeaseAdapter doc in
      bind_result (createLeaseState l ctx) (\<lambda>s.
      bind_result (lease_exec op s) (\<lambda>s'.
      Inr (LeaseStateBase_sync (BlobLeaseSyncer_sync doc') s'))))"

definition container_lease_chain ::
  "Context \<Rightarrow> lease_op \<Rightarrow> 'a lease_doc_scheme \<Rightarrow> 'a lease_doc_scheme result" where
  "container_lease_chain ctx op doc =
     bind_result (ContainerLeaseAdapter doc) (\<lambda>l.
     bind_result (createLeaseState l ctx) (\<lambda>s.
     bind_result (lease_exec op s) (\<lambda>s'.
     Inr (LeaseStateBase_sync (ContainerLeaseSyncer_sync doc) s'))))"

text \<open>A write: validate, then sync with \<open>BlobWriteLeaseSyncer\<close>.\<close>

definition blob_write_chain ::
  "Context \<Rightarrow> LeaseAccessConditions option \<Rightarrow> 'a lease_doc_scheme \<Rightarrow> 'a lease_doc_scheme result" where
  "blob_write_chain ctx c doc =
     (let (l, doc') = BlobLeaseAdapter doc in
      bind_result (createLeaseState l ctx) (\<lambda>s.
      bind_result (LeaseStateBase_validate (BlobWriteLeaseValidator_validate c) s) (\<lambda>s'.
      Inr (LeaseStateBase_sync (BlobWriteLeaseSyncer_sync doc') s'))))"

text \<open>A listing refreshes the lease fields: no operation, sync with \<open>BlobLeaseSyncer\<close>.\<close>

definition blob_observe_chain ::
  "Context \<Rightarrow> 'a lease_doc_scheme \<Rightarrow> 'a lease_doc_scheme result" where
  "blob_observe_chain ctx doc =
     (let (l, doc') = BlobLeaseAdapter doc in
      bind_result (createLeaseState l ctx) (\<lambda>s.
      Inr (LeaseStateBase_sync (BlobLeaseSyncer_sync doc') s)))"

text \<open>What may happen to the lease fields of a blob.\<close>

inductive blob_step :: "'a lease_doc_scheme \<Rightarrow> 'a lease_doc_scheme \<Rightarrow> bool" where
  blob_lease_op: "blob_lease_chain (at_time t) op doc = Inr doc' \<Longrightarrow> blob_step doc doc'"
| blob_write: "blob_write_chain (at_time t) c doc = Inr doc' \<Longrightarrow> blob_step doc doc'"
| blob_observe: "blob_observe_chain (at_time t) doc = Inr doc' \<Longrightarrow> blob_step doc doc'"

text \<open>A blob is created without a lease.\<close>

definition unleased :: "'a lease_doc_scheme \<Rightarrow> bool" where
  "unleased doc \<longleftrightarrow> doc_lease doc = available_lease \<or> doc_lease doc = undefined_lease"

inductive blob_reachable :: "'a lease_doc_scheme \<Rightarrow> bool" where
  start: "unleased doc \<Longrightarrow> blob_reachable doc"
| step: "blob_reachable doc \<Longrightarrow> blob_step doc doc' \<Longrightarrow> blob_reachable doc'"

text \<open>A document whose lease record is well formed, the missing one included.\<close>

definition doc_wf :: "'a lease_doc_scheme \<Rightarrow> bool" where
  "doc_wf doc \<longleftrightarrow> doc_lease doc = undefined_lease \<or>
     (leaseState (doc_lease doc) \<noteq> None \<and> lease_wf (doc_lease doc))"

text \<open>A document without lease fields, for the concrete instances.\<close>

definition example_doc :: lease_doc where
  "example_doc = \<lparr>doc_leaseId = None, doc_leaseDurationSeconds = None,
     doc_leaseExpireTime = None, doc_leaseBreakTime = None, prop_leaseDuration = None,
     prop_leaseState = None, prop_leaseStatus = None\<rparr>"

section \<open>Lemmas\<close>

lemmas lease_chains =
  blob_lease_chain_def container_lease_chain_def blob_write_chain_def blob_observe_chain_def
  BlobLeaseAdapter_def ContainerLeaseAdapter_def LeaseStateBase_validate_def
  LeaseStateBase_sync_def Let_def

lemma doc_lease_sync [simp]:
  "doc_lease (BlobLeaseSyncer_sync doc l) = l"
  "doc_lease (ContainerLeaseSyncer_sync doc l) = l"
  by (simp_all add: doc_lease_def BlobLeaseSyncer_sync_def ContainerLeaseSyncer_sync_def)

lemma doc_lease_write_sync [simp]:
  "doc_lease (BlobWriteLeaseSyncer_sync doc l) =
     (if leaseState l = Some Expired \<or> leaseState l = Some Broken then available_lease else l)"
  by (simp add: doc_lease_def BlobWriteLeaseSyncer_sync_def available_lease_def)

lemma lease_wf_status:
  assumes "lease_wf l" "leaseState l \<noteq> None"
  shows "leaseStatus l \<noteq> None"
  using assms by (cases rule: lease_wf_cases) simp_all

lemma doc_lease_defaults:
  assumes "doc_wf doc"
  shows "doc_lease (blob_lease_defaults doc) =
    (if doc_lease doc = undefined_lease then available_lease else doc_lease doc)"
proof (cases "doc_lease doc = undefined_lease")
  case True
  then show ?thesis
    by (simp add: blob_lease_defaults_def doc_lease_def undefined_lease_def available_lease_def)
next
  case False
  with assms have "leaseState (doc_lease doc) \<noteq> None" "leaseStatus (doc_lease doc) \<noteq> None"
    using lease_wf_status by (auto simp: doc_wf_def)
  with False show ?thesis by (auto simp: blob_lease_defaults_def doc_lease_def Let_def)
qed

lemma doc_wf_defaults:
  assumes "doc_wf doc"
  shows "lease_wf (doc_lease (blob_lease_defaults doc))"
    and "leaseState (doc_lease (blob_lease_defaults doc)) \<noteq> None"
proof -
  have "leaseState available_lease \<noteq> None" by (simp add: available_lease_def)
  with assms show "lease_wf (doc_lease (blob_lease_defaults doc))"
    and "leaseState (doc_lease (blob_lease_defaults doc)) \<noteq> None"
    by (auto simp: doc_lease_defaults doc_wf_def)
qed

lemma factory_state_wf:
  assumes "lease_wf l" "leaseState l \<noteq> None"
    and "createLeaseState l (at_time t) = Inr s"
  shows "lease_wf (lease s) \<and> leaseState (lease s) \<noteq> None"
  using assms
  by (cases rule: lease_wf_cases)
    (auto simp: createLeaseState_shapes split: if_splits)

lemma lease_request_state:
  assumes "lease_wf l" "leaseState l \<noteq> None" "lease_request t op l = Inr l'"
  shows "leaseState l' \<noteq> None"
  using assms
  by (cases rule: lease_wf_cases; cases op)
    (auto simp: lease_eval split: option.splits if_splits)

lemma blob_lease_chain_request:
  "blob_lease_chain (at_time t) op doc =
     map_sum id (BlobLeaseSyncer_sync (blob_lease_defaults doc))
       (lease_request t op (doc_lease (blob_lease_defaults doc)))"
  by (auto simp: lease_chains lease_request_def bind_result_def split: sum.splits)

lemma createLeaseState_total:
  assumes "lease_wf l"
  shows "\<exists>s. createLeaseState l (at_time t) = Inr s"
  using assms by (cases rule: lease_wf_cases) (auto simp: createLeaseState_shapes)

lemma blob_step_wf:
  assumes "doc_wf doc" "blob_step doc doc'"
  shows "doc_wf doc'"
  using assms(2)
proof (cases rule: blob_step.cases)
  case (blob_lease_op t op)
  let ?l = "doc_lease (blob_lease_defaults doc)"
  from blob_lease_op obtain l' where "lease_request t op ?l = Inr l'"
      "doc' = BlobLeaseSyncer_sync (blob_lease_defaults doc) l'"
    by (cases "lease_request t op ?l") (auto simp: blob_lease_chain_request)
  with lease_request_wf lease_request_state doc_wf_defaults [OF assms(1)]
  show ?thesis unfolding doc_wf_def by (metis doc_lease_sync(1))
next
  case (blob_write t c)
  then show ?thesis
    using doc_wf_defaults [OF assms(1)]
    by (auto simp: lease_chains doc_wf_def bind_result_Inr_iff dest: factory_state_wf)
next
  case (blob_observe t)
  then show ?thesis
    using doc_wf_defaults [OF assms(1)]
    by (auto simp: lease_chains doc_wf_def bind_result_Inr_iff dest: factory_state_wf)
qed

lemma blob_reachable_wf: "blob_reachable doc \<Longrightarrow> doc_wf doc"
proof (induction rule: blob_reachable.induct)
  case (start doc)
  then show ?case by (auto simp: unleased_def doc_wf_def available_lease_def lease_wf_def)
next
  case (step doc doc')
  then show ?case by (blast intro: blob_step_wf)
qed

lemma locked_iff_holder:
  assumes "lease_wf l" "createLeaseState l (at_time t) = Inr s"
  shows "leaseStatus (lease s) = Some Locked \<longleftrightarrow> lease_holder t l \<noteq> None"
  using assms
  by (cases rule: lease_wf_cases) (auto simp: createLeaseState_shapes lease_holder_def)

lemma holder_leaseId:
  assumes "lease_wf l" "createLeaseState l (at_time t) = Inr s" "lease_holder t l = Some i"
  shows "leaseId (lease s) = Some i"
  using assms
  by (cases rule: lease_wf_cases)
    (auto simp: createLeaseState_shapes lease_holder_def split: if_splits)

section \<open>Properties\<close>

text \<open>
  C4: Invariant. However lease requests, writes and listings follow each other, at whatever times,
  the lease fields of a blob stay well formed, so that the next request can always rebuild the
  lease state from them.
\<close>

theorem reachable_blob_lease_rebuilds:
  assumes "blob_reachable doc"
  shows "doc_wf doc \<and> (\<exists>s. createLeaseState (fst (BlobLeaseAdapter doc)) (at_time t) = Inr s)"
  using blob_reachable_wf [OF assms] createLeaseState_total [OF doc_wf_defaults(1)]
  by (simp add: BlobLeaseAdapter_def Let_def)

theorem reachable_blob_lease_rebuilds_witness:
  "doc_wf (example_doc :: lease_doc) \<and>
   (\<exists>s. createLeaseState (fst (BlobLeaseAdapter example_doc)) (at_time 7) = Inr s)"
  by (rule reachable_blob_lease_rebuilds, rule blob_reachable.start)
    (simp add: unleased_def example_doc_def doc_lease_def undefined_lease_def)

text \<open>
  C5: Write protection. A write to a blob passes its lease check exactly when the lease is held at
  that time and the request names it (up to the case of letters), or when nobody holds it and the
  request names no lease.
\<close>

theorem blob_write_allowed_iff:
  assumes "doc_wf doc"
  shows "is_ok (blob_write_chain (at_time t) c doc) \<longleftrightarrow>
    (case lease_holder t (doc_lease (blob_lease_defaults doc)) of
       None \<Rightarrow> given_leaseId c = None \<or> given_leaseId c = Some ''''
     | Some i \<Rightarrow> (\<exists>g. given_leaseId c = Some g \<and> g \<noteq> '''' \<and> toLowerCase g = toLowerCase i))"
proof -
  let ?l = "doc_lease (blob_lease_defaults doc)"
  obtain s where s: "createLeaseState ?l (at_time t) = Inr s"
    using createLeaseState_total doc_wf_defaults(1) [OF assms] by blast
  note holder = locked_iff_holder [OF doc_wf_defaults(1) [OF assms] s]
    holder_leaseId [OF doc_wf_defaults(1) [OF assms] s]
  have "is_ok (blob_write_chain (at_time t) c doc) \<longleftrightarrow>
      BlobWriteLeaseValidator_validate c (lease s) = Inr ()"
    by (auto simp: lease_chains s bind_result_def split: sum.splits)
  also have "\<dots> \<longleftrightarrow> (case lease_holder t ?l of
       None \<Rightarrow> given_leaseId c = None \<or> given_leaseId c = Some ''''
     | Some i \<Rightarrow> (\<exists>g. given_leaseId c = Some g \<and> g \<noteq> '''' \<and> toLowerCase g = toLowerCase i))"
    using holder
    by (auto simp: BlobWriteLeaseValidator_validate_def leaseId_differs_def split: option.splits)
  finally show ?thesis .
qed

theorem blob_write_allowed_iff_witness:
  "\<not> is_ok (blob_write_chain (at_time 5) None
      (BlobLeaseSyncer_sync example_doc (leased_lease (Some ''a'') (Some Infinite) None None)))"
proof -
  let ?d = "BlobLeaseSyncer_sync example_doc (leased_lease (Some ''a'') (Some Infinite) None None)"
  have "doc_wf ?d" by (simp add: doc_wf_def leased_lease_def lease_wf_def)
  from blob_write_allowed_iff [OF this, of 5 None] doc_lease_defaults [OF this] show ?thesis
    by (simp add: given_leaseId_def lease_holder_def leased_lease_def undefined_lease_def
        lease_view_def)
qed

text \<open>
  C6: A write ends a lease that is over. After a successful write to a blob whose lease had expired
  or was broken, the blob has no lease: renewing or releasing the old one is refused.
\<close>

theorem write_ends_old_lease:
  assumes "doc_wf doc" "blob_write_chain (at_time t) c doc = Inr doc'"
    and "lease_holder t (doc_lease (blob_lease_defaults doc)) = None"
  shows "lease_view t' (doc_lease doc') = AFree \<and>
    blob_lease_chain (at_time t') (Renew i) doc' = Inl getLeaseIdMismatchWithLeaseOperation \<and>
    blob_lease_chain (at_time t') (Release i) doc' = Inl getLeaseIdMismatchWithLeaseOperation"
proof -
  let ?l = "doc_lease (blob_lease_defaults doc)"
  have wf: "lease_wf ?l" "leaseState ?l \<noteq> None" using doc_wf_defaults [OF assms(1)] by simp_all
  obtain s where s: "createLeaseState ?l (at_time t) = Inr s"
    and doc': "doc' = BlobWriteLeaseSyncer_sync (blob_lease_defaults doc) (lease s)"
    using assms(2) by (auto simp: lease_chains bind_result_Inr_iff)
  have "doc_lease doc' = available_lease"
    using wf(1) assms(3) wf(2) s
    by (cases rule: lease_wf_cases)
      (auto simp: doc' lease_holder_def createLeaseState_shapes split: if_splits)
  moreover from this have "doc_lease (blob_lease_defaults doc') = available_lease"
    by (auto simp: blob_lease_defaults_def doc_lease_def available_lease_def Let_def)
  ultimately show ?thesis
    by (simp add: blob_lease_chain_request lease_request_Inl)
qed

theorem write_ends_old_lease_witness:
  "\<exists>doc'. blob_write_chain (at_time 5) None
      (BlobLeaseSyncer_sync example_doc (expired_lease (Some ''a'') (Some 20))) = Inr doc' \<and>
     blob_lease_chain (at_time 6) (Renew ''a'') doc' = Inl getLeaseIdMismatchWithLeaseOperation"
proof -
  let ?d = "BlobLeaseSyncer_sync example_doc (expired_lease (Some ''a'') (Some 20))"
  have wf: "doc_wf ?d" by (simp add: doc_wf_def expired_lease_def lease_wf_def)
  have free: "lease_holder 5 (doc_lease (blob_lease_defaults ?d)) = None"
    by (simp add: doc_lease_defaults [OF wf] lease_holder_def)
  have "is_ok (blob_write_chain (at_time 5) None ?d)"
    by (simp add: lease_chains BlobLeaseSyncer_sync_def example_doc_def expired_lease_def
        blob_lease_defaults_def doc_lease_def createLeaseState_def LeaseExpiredState_def
        BlobWriteLeaseValidator_validate_def given_leaseId_def)
  then obtain doc' where "blob_write_chain (at_time 5) None ?d = Inr doc'"
    by (auto simp: is_ok_iff)
  with write_ends_old_lease [OF wf this free, of 6 "''a''"] show ?thesis by blast
qed

text \<open>
  C7: Round trip. What a syncer writes to a document, the adapters read back: for blobs and for
  containers, every lease with a state and a status survives storing and loading.
\<close>

theorem lease_store_roundtrip:
  assumes "leaseState l \<noteq> None" "leaseStatus l \<noteq> None"
  shows "BlobLeaseAdapter (BlobLeaseSyncer_sync doc l) = (l, BlobLeaseSyncer_sync doc l) \<and>
    ContainerLeaseAdapter (ContainerLeaseSyncer_sync doc' l) = Inr l"
proof -
  have "blob_lease_defaults (BlobLeaseSyncer_sync doc l) = BlobLeaseSyncer_sync doc l"
    using assms by (auto simp: blob_lease_defaults_def BlobLeaseSyncer_sync_def)
  moreover have "prop_leaseState (ContainerLeaseSyncer_sync doc' l) \<noteq> None"
      "prop_leaseStatus (ContainerLeaseSyncer_sync doc' l) \<noteq> None"
    using assms by (auto simp: ContainerLeaseSyncer_sync_def)
  ultimately show ?thesis by (simp add: BlobLeaseAdapter_def ContainerLeaseAdapter_def)
qed

theorem lease_store_roundtrip_witness:
  "BlobLeaseAdapter (BlobLeaseSyncer_sync example_doc available_lease) =
     (available_lease, BlobLeaseSyncer_sync example_doc available_lease) \<and>
   ContainerLeaseAdapter (ContainerLeaseSyncer_sync example_doc available_lease) =
     Inr available_lease"
  by (rule lease_store_roundtrip) (simp_all add: available_lease_def)

end
