(* ===== verification/Page_Ranges.thy ===== *)
theory Page_Ranges
  imports Prelude
begin

text \<open>
  The page ranges of a page blob, \<open>blob/handlers/PageBlobRangesManager.ts\<close>: which chunk of which
  extent holds which bytes. A write merges a range into the list, a clear removes one, a read cuts
  the list to the requested range and fills the gaps with the zero extent. Numbers are \<open>int\<close>;
  the arrays that the code changes in place are returned.
\<close>

section \<open>Data\<close>

record IExtentChunk =
  chunk_id :: string
  chunk_offset :: int
  chunk_count :: int

record PageRange =
  rstart :: int
  rend :: int

record PersistencyPageRange = PageRange +
  persistency :: IExtentChunk

definition ZERO_EXTENT_ID :: string where
  "ZERO_EXTENT_ID = ''*ZERO*''"

text \<open>An index that may be \<open>Infinity\<close>.\<close>

datatype js_index = Idx int | Infinity

text \<open>\<open>ranges[i]\<close> followed by a field access: a \<open>TypeError\<close> when there is no such element.\<close>

definition range_at :: "'a list \<Rightarrow> int \<Rightarrow> 'a result" where
  "range_at rs i = (if 0 \<le> i \<and> i < int (length rs) then Inr (rs ! nat i) else Inl TypeError)"

text \<open>\<open>ranges.splice(start, deleteCount, ...items)\<close>: the start is limited to the length.\<close>

definition js_splice :: "'a list \<Rightarrow> js_index \<Rightarrow> int \<Rightarrow> 'a list \<Rightarrow> 'a list" where
  "js_splice xs i del items =
     (let k = (case i of Infinity \<Rightarrow> length xs | Idx n \<Rightarrow> min (nat n) (length xs))
      in take k xs @ items @ drop (k + nat del) xs)"

section \<open>Searching\<close>

definition positionInRange :: "('a) PageRange_scheme \<Rightarrow> int \<Rightarrow> bool" where
  "positionInRange r p \<longleftrightarrow> p \<ge> rstart r \<and> p \<le> rend r"

function locateFirstImpactedRange ::
  "PersistencyPageRange list \<Rightarrow> int \<Rightarrow> int \<Rightarrow> int \<Rightarrow> js_index result" where
  "locateFirstImpactedRange ranges searchStart0 searchEnd position =
     (let searchStart = (if searchStart0 < 0 then 0 else searchStart0) in
      if ranges = [] \<or> searchStart \<ge> searchEnd then Inr Infinity
      else if searchStart = searchEnd - 1
      then bind_result (range_at ranges searchStart) (\<lambda>r.
             Inr (if positionInRange r position \<or> position < rstart r
                  then Idx searchStart else Infinity))
      else let searchMid = (searchStart + searchEnd) div 2 in
           bind_result (locateFirstImpactedRange ranges searchStart searchMid position)
             (\<lambda>indexInLeft.
             if indexInLeft \<noteq> Infinity then Inr indexInLeft
             else bind_result (range_at ranges searchMid) (\<lambda>r.
               if positionInRange r position \<or> position < rstart r
               then Inr (Idx searchMid)
               else locateFirstImpactedRange ranges (searchMid + 1) searchEnd position)))"
  by pat_completeness auto
termination
  by (relation "measure (\<lambda>(ranges, s, e, p). nat (e - (if s < 0 then 0 else s)))") auto

function locateLastImpactedRange ::
  "PersistencyPageRange list \<Rightarrow> int \<Rightarrow> int \<Rightarrow> int \<Rightarrow> int result" where
  "locateLastImpactedRange ranges searchStart0 searchEnd position =
     (let searchStart = (if searchStart0 < 0 then 0 else searchStart0) in
      if ranges = [] \<or> searchStart \<ge> searchEnd then Inr (-1)
      else if searchStart = searchEnd - 1
      then bind_result (range_at ranges searchStart) (\<lambda>r.
             Inr (if positionInRange r position \<or> position > rend r then searchStart else -1))
      else let searchMid = (searchStart + searchEnd) div 2 in
           bind_result (locateLastImpactedRange ranges (searchMid + 1) searchEnd position)
             (\<lambda>indexInRight.
             if indexInRight > -1 then Inr indexInRight
             else bind_result (range_at ranges searchMid) (\<lambda>r.
               if positionInRange r position \<or> position > rend r
               then Inr searchMid
               else locateLastImpactedRange ranges searchStart searchMid position)))"
  by pat_completeness auto
termination
  by (relation "measure (\<lambda>(ranges, s, e, p). nat (e - (if s < 0 then 0 else s)))") auto

definition selectImpactedRanges ::
  "PersistencyPageRange list \<Rightarrow> int \<Rightarrow> int \<Rightarrow> (js_index \<times> int) result" where
  "selectImpactedRanges ranges start end' =
     (if ranges = [] then Inr (Infinity, -1)
      else if start > end' \<or> start < 0 then Inl RangeError
      else bind_result (locateFirstImpactedRange ranges 0 (int (length ranges)) start) (\<lambda>i.
           bind_result (locateLastImpactedRange ranges 0 (int (length ranges)) end') (\<lambda>j.
           Inr (i, j))))"

text \<open>\<open>start > end ? 0 : end - start + 1\<close>\<close>

definition impacted_count :: "js_index \<Rightarrow> int \<Rightarrow> int" where
  "impacted_count i j =
     (case i of Infinity \<Rightarrow> 0 | Idx n \<Rightarrow> if n > j then 0 else j - n + 1)"

section \<open>Writing and clearing\<close>

text \<open>The part of the first impacted range before \<open>start\<close> and of the last one after the end.\<close>

definition split_first ::
  "PersistencyPageRange \<Rightarrow> int \<Rightarrow> PersistencyPageRange list" where
  "split_first r start =
     (if rend r \<ge> start \<and> rstart r < start
      then [\<lparr>rstart = rstart r, rend = start - 1,
              persistency = \<lparr>chunk_id = chunk_id (persistency r),
                chunk_offset = chunk_offset (persistency r), chunk_count = start - rstart r\<rparr>\<rparr>]
      else [])"

definition split_last ::
  "PersistencyPageRange \<Rightarrow> int \<Rightarrow> PersistencyPageRange list" where
  "split_last r end' =
     (if end' \<ge> rstart r \<and> end' < rend r
      then [\<lparr>rstart = end' + 1, rend = rend r,
              persistency = \<lparr>chunk_id = chunk_id (persistency r),
                chunk_offset = chunk_offset (persistency r) + (end' + 1 - rstart r),
                chunk_count = rend r - end'\<rparr>\<rparr>]
      else [])"

definition index_of :: "js_index \<Rightarrow> int" where
  "index_of i = (case i of Idx n \<Rightarrow> n | Infinity \<Rightarrow> -1)"

definition mergeRange ::
  "PersistencyPageRange list \<Rightarrow> PersistencyPageRange \<Rightarrow> PersistencyPageRange list result" where
  "mergeRange ranges rg =
     (let start = rstart rg; end' = rend rg in
      bind_result (selectImpactedRanges ranges start end') (\<lambda>(i, j).
      let count = impacted_count i j;
          newRange = \<lparr>rstart = start, rend = end', persistency = persistency rg\<rparr> in
      if count = 0 then Inr (js_splice ranges i 0 [newRange])
      else bind_result (range_at ranges (index_of i)) (\<lambda>firstImpactedRange.
           bind_result (range_at ranges j) (\<lambda>lastImpactedRange.
           Inr (js_splice ranges i count
             (split_first firstImpactedRange start @ [newRange] @
              split_last lastImpactedRange end'))))))"

definition clearRange ::
  "PersistencyPageRange list \<Rightarrow> 'a PageRange_scheme \<Rightarrow> PersistencyPageRange list result" where
  "clearRange ranges rg =
     (let start = rstart rg; end' = rend rg in
      bind_result (selectImpactedRanges ranges start end') (\<lambda>(i, j).
      let count = impacted_count i j in
      if count > 0
      then bind_result (range_at ranges (index_of i)) (\<lambda>firstImpactedRange.
           bind_result (range_at ranges j) (\<lambda>lastImpactedRange.
           Inr (js_splice ranges i count
             (split_first firstImpactedRange start @ split_last lastImpactedRange end'))))
      else Inr ranges))"

section \<open>Reading\<close>

definition cut_first :: "PersistencyPageRange \<Rightarrow> int \<Rightarrow> PersistencyPageRange" where
  "cut_first r start =
     (if rend r \<ge> start \<and> rstart r < start
      then \<lparr>rstart = start, rend = rend r,
             persistency = \<lparr>chunk_id = chunk_id (persistency r),
               chunk_offset = start - rstart r + chunk_offset (persistency r),
               chunk_count = chunk_count (persistency r) - (start - rstart r)\<rparr>\<rparr>
      else r)"

definition cut_last :: "PersistencyPageRange \<Rightarrow> int \<Rightarrow> PersistencyPageRange" where
  "cut_last r end' =
     (if end' \<ge> rstart r \<and> end' < rend r
      then \<lparr>rstart = rstart r, rend = end',
             persistency = \<lparr>chunk_id = chunk_id (persistency r),
               chunk_offset = chunk_offset (persistency r),
               chunk_count = chunk_count (persistency r) - (rend r - end')\<rparr>\<rparr>
      else r)"

text \<open>\<open>ranges.slice(i, j + 1)\<close> is not empty here; its first and last element are replaced.\<close>

definition cutRanges ::
  "PersistencyPageRange list \<Rightarrow> 'a PageRange_scheme \<Rightarrow> PersistencyPageRange list result" where
  "cutRanges ranges rg =
     (let start = rstart rg; end' = rend rg in
      bind_result (selectImpactedRanges ranges start end') (\<lambda>(i, j).
      let count = impacted_count i j in
      if count > 0
      then (let impactedRanges = take (nat count) (drop (nat (index_of i)) ranges);
                cut1 = impactedRanges[0 := cut_first (hd impactedRanges) start];
                cut2 = cut1[length cut1 - 1 := cut_last (last cut1) end']
            in Inr cut2)
      else Inr []))"

definition zero_range :: "int \<Rightarrow> int \<Rightarrow> int \<Rightarrow> PersistencyPageRange" where
  "zero_range s e n = \<lparr>rstart = s, rend = e,
     persistency = \<lparr>chunk_id = ZERO_EXTENT_ID, chunk_offset = 0, chunk_count = n\<rparr>\<rparr>"

text \<open>The loop over the cut ranges, and the last one.\<close>

fun fill_gaps :: "PersistencyPageRange list \<Rightarrow> PersistencyPageRange list" where
  "fill_gaps [] = []"
| "fill_gaps [r] = [r]"
| "fill_gaps (currentRange # nextRange # rs) =
     (let gap = rstart nextRange - 1 - rend currentRange in
      currentRange #
      (if gap > 0 then [zero_range (rend currentRange + 1) (rstart nextRange - 1) gap] else []) @
      fill_gaps (nextRange # rs))"

definition fillZeroRanges ::
  "PersistencyPageRange list \<Rightarrow> 'a PageRange_scheme \<Rightarrow> PersistencyPageRange list result" where
  "fillZeroRanges ranges0 rg =
     bind_result (cutRanges ranges0 rg) (\<lambda>ranges.
     if ranges = []
     then Inr [zero_range (rstart rg) (rend rg) (rend rg + 1 - rstart rg)]
     else Inr
       ((if rstart rg < rstart (hd ranges)
         then [zero_range (rstart rg) (rstart (hd ranges) - 1) (rstart (hd ranges) - rstart rg)]
         else []) @
        fill_gaps ranges @
        (if rend (last ranges) < rend rg
         then [zero_range (rend (last ranges) + 1) (rend rg) (rend rg - rend (last ranges))]
         else [])))"

section \<open>What the searches compute\<close>

text \<open>The least, and the greatest, index in \<open>[s, e)\<close> with a property.\<close>

definition first_index :: "(int \<Rightarrow> bool) \<Rightarrow> int \<Rightarrow> int \<Rightarrow> js_index" where
  "first_index P s e = (case filter P [s..e - 1] of [] \<Rightarrow> Infinity | i # _ \<Rightarrow> Idx i)"

definition last_index :: "(int \<Rightarrow> bool) \<Rightarrow> int \<Rightarrow> int \<Rightarrow> int" where
  "last_index P s e = (case rev (filter P [s..e - 1]) of [] \<Rightarrow> -1 | i # _ \<Rightarrow> i)"

text \<open>The ranges that reach up to a position or beyond it, and that start at it or before.\<close>

definition reaches :: "'a PageRange_scheme \<Rightarrow> int \<Rightarrow> bool" where
  "reaches r p \<longleftrightarrow> positionInRange r p \<or> p < rstart r"

definition precedes :: "'a PageRange_scheme \<Rightarrow> int \<Rightarrow> bool" where
  "precedes r p \<longleftrightarrow> positionInRange r p \<or> rend r < p"

text \<open>Where the bytes of a blob are: the extent and the offset in it, if the page was written.\<close>

definition range_byte :: "PersistencyPageRange \<Rightarrow> int \<Rightarrow> string \<times> int" where
  "range_byte r p = (chunk_id (persistency r), chunk_offset (persistency r) + (p - rstart r))"

definition page_at :: "PersistencyPageRange list \<Rightarrow> int \<Rightarrow> (string \<times> int) option" where
  "page_at rs p = map_option (\<lambda>r. range_byte r p) (find (\<lambda>r. positionInRange r p) rs)"

text \<open>The invariant of the list: every range is a non-empty interval whose chunk has its length,
  and the ranges are in order and do not overlap.\<close>

definition wf_range :: "PersistencyPageRange \<Rightarrow> bool" where
  "wf_range r \<longleftrightarrow> 0 \<le> rstart r \<and> rstart r \<le> rend r \<and>
     chunk_count (persistency r) = rend r + 1 - rstart r"

definition wf_ranges :: "PersistencyPageRange list \<Rightarrow> bool" where
  "wf_ranges rs \<longleftrightarrow> list_all wf_range rs \<and> sorted_wrt (\<lambda>a b. rend a < rstart b) rs"

section \<open>Lemmas\<close>

declare locateFirstImpactedRange.simps [simp del] locateLastImpactedRange.simps [simp del]

lemma first_index_simps:
  "e \<le> s \<Longrightarrow> first_index P s e = Infinity"
  "first_index P s (s + 1) = (if P s then Idx s else Infinity)"
  by (simp_all add: first_index_def)

lemma first_index_split:
  assumes "s \<le> m" "m < e"
  shows "first_index P s e =
    (if first_index P s m \<noteq> Infinity then first_index P s m
     else if P m then Idx m else first_index P (m + 1) e)"
proof -
  have "[s..e - 1] = [s..m - 1] @ m # [m + 1..e - 1]" using assms by (simp add: upto_split3)
  then show ?thesis by (simp add: first_index_def split: list.splits)
qed

lemma last_index_simps:
  "e \<le> s \<Longrightarrow> last_index P s e = -1"
  "last_index P s (s + 1) = (if P s then s else -1)"
  by (simp_all add: last_index_def)

lemma last_index_split:
  assumes "0 \<le> s" "s \<le> m" "m < e"
  shows "last_index P s e =
    (if last_index P (m + 1) e > -1 then last_index P (m + 1) e
     else if P m then m else last_index P s m)"
proof -
  have "[s..e - 1] = [s..m - 1] @ m # [m + 1..e - 1]" using assms by (simp add: upto_split3)
  moreover have "\<forall>i\<in>set (filter P [m + 1..e - 1]). 0 \<le> i" using assms by auto
  ultimately show ?thesis
    by (cases "filter P [m + 1..e - 1]" rule: rev_cases)
      (auto simp: last_index_def split: list.splits)
qed

text \<open>The binary searches compute these indices on every list, sorted or not.\<close>

lemma locateFirst_eq:
  "0 \<le> s \<Longrightarrow> e \<le> int (length rs) \<Longrightarrow>
   locateFirstImpactedRange rs s e p = Inr (first_index (\<lambda>i. reaches (rs ! nat i) p) s e)"
proof (induction rs s e p rule: locateFirstImpactedRange.induct)
  case (1 rs s e p)
  consider "rs = [] \<or> s \<ge> e" | "rs \<noteq> []" "s < e" "s = e - 1" | "rs \<noteq> []" "s < e" "s \<noteq> e - 1"
    by linarith
  then show ?case
  proof cases
    case 1
    with "1.prems" show ?thesis
      by (auto simp: locateFirstImpactedRange.simps [of rs s e p] first_index_simps)
  next
    case 2
    then have e: "e = s + 1" by simp
    show ?thesis
      using "1.prems" 2(1) unfolding e
      by (subst locateFirstImpactedRange.simps)
        (auto simp: range_at_def first_index_simps reaches_def Let_def)
  next
    case 3
    let ?m = "(s + e) div 2"
    have m: "s \<le> ?m" "?m < e" using 3 by auto
    have l: "locateFirstImpactedRange rs s ?m p = Inr (first_index (\<lambda>i. reaches (rs ! nat i) p) s ?m)"
      using "1.IH"(1) [of s ?m] 3 "1.prems" m by simp
    have r: "locateFirstImpactedRange rs (?m + 1) e p =
        Inr (first_index (\<lambda>i. reaches (rs ! nat i) p) (?m + 1) e)"
      if "first_index (\<lambda>i. reaches (rs ! nat i) p) s ?m = Infinity" "\<not> reaches (rs ! nat ?m) p"
      using "1.IH"(2) [of s ?m Infinity "rs ! nat ?m"] 3 "1.prems" m l that
      by (simp add: range_at_def reaches_def)
    show ?thesis
      using 3 "1.prems" m
      by (subst locateFirstImpactedRange.simps, subst first_index_split [OF m])
        (auto simp: l r range_at_def reaches_def Let_def)
  qed
qed

lemma locateLast_eq:
  "0 \<le> s \<Longrightarrow> e \<le> int (length rs) \<Longrightarrow>
   locateLastImpactedRange rs s e p = Inr (last_index (\<lambda>i. precedes (rs ! nat i) p) s e)"
proof (induction rs s e p rule: locateLastImpactedRange.induct)
  case (1 rs s e p)
  consider "rs = [] \<or> s \<ge> e" | "rs \<noteq> []" "s < e" "s = e - 1" | "rs \<noteq> []" "s < e" "s \<noteq> e - 1"
    by linarith
  then show ?case
  proof cases
    case 1
    with "1.prems" show ?thesis
      by (auto simp: locateLastImpactedRange.simps [of rs s e p] last_index_simps)
  next
    case 2
    then have e: "e = s + 1" by simp
    show ?thesis
      using "1.prems" 2(1) unfolding e
      by (subst locateLastImpactedRange.simps)
        (auto simp: range_at_def last_index_simps precedes_def Let_def)
  next
    case 3
    let ?m = "(s + e) div 2"
    have m: "s \<le> ?m" "?m < e" using 3 by auto
    have r: "locateLastImpactedRange rs (?m + 1) e p =
        Inr (last_index (\<lambda>i. precedes (rs ! nat i) p) (?m + 1) e)"
      using "1.IH"(1) [of s ?m] 3 "1.prems" m by simp
    have l: "locateLastImpactedRange rs s ?m p = Inr (last_index (\<lambda>i. precedes (rs ! nat i) p) s ?m)"
      if "\<not> last_index (\<lambda>i. precedes (rs ! nat i) p) (?m + 1) e > -1" "\<not> precedes (rs ! nat ?m) p"
      using "1.IH"(2) [of s ?m _ "rs ! nat ?m"] 3 "1.prems" m r that
      by (simp add: range_at_def precedes_def)
    show ?thesis
      using 3 "1.prems" m
      by (subst locateLastImpactedRange.simps, subst last_index_split [OF _ m])
        (auto simp: l r range_at_def precedes_def Let_def)
  qed
qed

text \<open>A list in order is: ranges before the requested one, ranges it touches, ranges after it.\<close>

lemma first_index_at:
  assumes "0 \<le> k" "k \<le> n" "\<And>i. 0 \<le> i \<Longrightarrow> i < k \<Longrightarrow> \<not> P i" "k < n \<Longrightarrow> P k"
  shows "first_index P 0 n = (if k < n then Idx k else Infinity)"
proof (cases "k < n")
  case True
  have "filter P [0..k - 1] = []" using assms(3) by (auto simp: filter_empty_conv)
  then have "first_index P 0 k = Infinity" by (simp add: first_index_def)
  with True assms show ?thesis using first_index_split [of 0 k n P] by simp
next
  case False
  with assms(2,3) have "filter P [0..n - 1] = []" by (auto simp: filter_empty_conv)
  with False show ?thesis by (simp add: first_index_def)
qed

lemma last_index_at:
  assumes "0 \<le> k" "k \<le> n" "\<And>i. k \<le> i \<Longrightarrow> i < n \<Longrightarrow> \<not> P i" "0 < k \<Longrightarrow> P (k - 1)"
  shows "last_index P 0 n = k - 1"
proof (cases "0 < k")
  case True
  have "filter P [k..n - 1] = []" using assms(3) by (auto simp: filter_empty_conv)
  then have "last_index P k n = -1" by (simp add: last_index_def)
  with True assms show ?thesis using last_index_split [of 0 "k - 1" n P] by simp
next
  case False
  with assms(1,3) have "filter P [0..n - 1] = []" by (auto simp: filter_empty_conv)
  with False assms(1) show ?thesis by (simp add: last_index_def)
qed

lemma wf_ranges_simps [simp]:
  "wf_ranges []"
  "wf_ranges (r # rs) \<longleftrightarrow> wf_range r \<and> (\<forall>x\<in>set rs. rend r < rstart x) \<and> wf_ranges rs"
  by (auto simp: wf_ranges_def)

lemma wf_ranges_append:
  "wf_ranges (xs @ ys) \<longleftrightarrow>
   wf_ranges xs \<and> wf_ranges ys \<and> (\<forall>x\<in>set xs. \<forall>y\<in>set ys. rend x < rstart y)"
  by (auto simp: wf_ranges_def sorted_wrt_append)

lemma wf_ranges_wf_range: "wf_ranges rs \<Longrightarrow> r \<in> set rs \<Longrightarrow> wf_range r"
  by (simp add: wf_ranges_def list_all_iff)

lemma wf_range_order: "wf_range r \<Longrightarrow> rstart r \<le> rend r" "wf_range r \<Longrightarrow> 0 \<le> rstart r"
  by (simp_all add: wf_range_def)

text \<open>\<open>touches\<close>: the ranges \<open>A\<close> end before \<open>s\<close>, the ranges \<open>M\<close> overlap \<open>[s, e]\<close>, the ranges
  \<open>B\<close> start after \<open>e\<close>.\<close>

definition touches ::
  "int \<Rightarrow> int \<Rightarrow> PersistencyPageRange list \<Rightarrow> PersistencyPageRange list \<Rightarrow>
   PersistencyPageRange list \<Rightarrow> bool" where
  "touches s e A M B \<longleftrightarrow> (\<forall>r\<in>set A. rend r < s) \<and> (\<forall>r\<in>set M. s \<le> rend r \<and> rstart r \<le> e) \<and>
     (\<forall>r\<in>set B. e < rstart r)"

lemma touches_exists:
  assumes "wf_ranges rs" "s \<le> e"
  obtains A M B where "rs = A @ M @ B" "touches s e A M B"
proof -
  have "\<exists>A M B. rs = A @ M @ B \<and> touches s e A M B"
    using assms(1)
  proof (induction rs)
    case Nil
    show ?case by (rule exI [of _ "[]"])+ (simp add: touches_def)
  next
    case (Cons r rs)
    then obtain A M B where rs: "rs = A @ M @ B" and t: "touches s e A M B" by auto
    have later: "\<forall>x\<in>set rs. rend r < rstart x \<and> rstart x \<le> rend x" and "rstart r \<le> rend r"
      using Cons.prems wf_ranges_wf_range wf_range_order by auto
    consider "rend r < s" | "s \<le> rend r" "rstart r \<le> e" | "e < rstart r" by linarith
    then show ?case
    proof cases
      case 1
      with rs t have "r # rs = (r # A) @ M @ B \<and> touches s e (r # A) M B"
        by (simp add: touches_def)
      then show ?thesis by blast
    next
      case 2
      with later rs t have "A = []" by (cases A) (auto simp: touches_def)
      with rs t 2 have "r # rs = [] @ (r # M) @ B \<and> touches s e [] (r # M) B"
        by (simp add: touches_def)
      then show ?thesis by blast
    next
      case 3
      with later \<open>rstart r \<le> rend r\<close> have "touches s e [] [] (r # rs)"
        by (fastforce simp: touches_def)
      then have "r # rs = [] @ [] @ (r # rs) \<and> touches s e [] [] (r # rs)" by simp
      then show ?thesis by blast
    qed
  qed
  then show thesis using that by blast
qed

lemma selectImpactedRanges_touches:
  assumes wf: "wf_ranges (A @ M @ B)" and t: "touches s e A M B" and se: "0 \<le> s" "s \<le> e"
  shows "selectImpactedRanges (A @ M @ B) s e =
    Inr (if M @ B = [] then Infinity else Idx (int (length A)), int (length A + length M) - 1)"
proof (cases "A @ M @ B = []")
  case True
  then show ?thesis by (simp add: selectImpactedRanges_def)
next
  case False
  let ?rs = "A @ M @ B" and ?n = "int (length (A @ M @ B))"
  have ord: "rstart r \<le> rend r" if "r \<in> set ?rs" for r
    using wf_ranges_wf_range [OF wf that] wf_range_order by blast
  have A: "\<not> reaches r s" "precedes r e" if "r \<in> set A" for r
    using t se that ord by (fastforce simp: touches_def reaches_def precedes_def positionInRange_def)+
  have M: "reaches r s" "precedes r e" if "r \<in> set M" for r
    using t se that ord by (fastforce simp: touches_def reaches_def precedes_def positionInRange_def)+
  have B: "reaches r s" "\<not> precedes r e" if "r \<in> set B" for r
    using t se that ord by (fastforce simp: touches_def reaches_def precedes_def positionInRange_def)+
  have first: "first_index (\<lambda>i. reaches (?rs ! nat i) s) 0 ?n =
      (if int (length A) < ?n then Idx (int (length A)) else Infinity)"
  proof (rule first_index_at)
    show "\<not> reaches (?rs ! nat i) s" if "0 \<le> i" "i < int (length A)" for i
      using that A by (simp add: nth_append)
    show "reaches (?rs ! nat (int (length A))) s" if "int (length A) < ?n"
      using that M B by (cases M; cases B) (auto simp: nth_append)
  qed simp_all
  have last: "last_index (\<lambda>i. precedes (?rs ! nat i) e) 0 ?n = int (length A + length M) - 1"
  proof (rule last_index_at)
    show "\<not> precedes (?rs ! nat i) e" if "int (length A + length M) \<le> i" "i < ?n" for i
    proof -
      have "?rs ! nat i = B ! (nat i - (length A + length M))" using that by (simp add: nth_append)
      then show ?thesis using that B by simp
    qed
    show "precedes (?rs ! nat (int (length A + length M) - 1)) e" if "0 < int (length A + length M)"
    proof -
      have "?rs ! nat (int (length A + length M) - 1) \<in> set A \<union> set M"
        using that by (auto simp: nth_append)
      then show ?thesis using A M by blast
    qed
  qed simp_all
  have "(int (length A) < ?n) = (M @ B \<noteq> [])" by (cases M; cases B) auto
  then have "locateFirstImpactedRange ?rs 0 ?n s =
      Inr (if M @ B = [] then Infinity else Idx (int (length A)))"
    using first locateFirst_eq [of 0 ?n ?rs s] by simp
  moreover have "locateLastImpactedRange ?rs 0 ?n e = Inr (int (length A + length M) - 1)"
    using last locateLast_eq [of 0 ?n ?rs e] by simp
  ultimately show ?thesis using False se by (simp add: selectImpactedRanges_def)
qed

lemma js_splice_at [simp]:
  "js_splice (A @ M @ B) (Idx (int (length A))) (int (length M)) items = A @ items @ B"
  "js_splice (A @ B) (Idx (int (length A))) 0 items = A @ items @ B"
  "js_splice A Infinity 0 items = A @ items"
  by (simp_all add: js_splice_def)

lemma range_at_append [simp]:
  assumes "M \<noteq> []"
  shows "range_at (A @ M @ B) (int (length A)) = Inr (hd M)"
    and "range_at (A @ M @ B) (int (length A) + int (length M) - 1) = Inr (last M)"
proof -
  obtain m ms where M: "M = m # ms" using assms by (cases M) auto
  then show "range_at (A @ M @ B) (int (length A)) = Inr (hd M)"
    by (simp add: range_at_def nth_append)
  have "nat (int (length A) + int (length M) - 1) = length A + length ms" by (simp add: M)
  then show "range_at (A @ M @ B) (int (length A) + int (length M) - 1) = Inr (last M)"
    by (simp add: range_at_def nth_append last_conv_nth M)
qed

definition left_part :: "PersistencyPageRange list \<Rightarrow> int \<Rightarrow> PersistencyPageRange list" where
  "left_part M s = (if M = [] then [] else split_first (hd M) s)"

definition right_part :: "PersistencyPageRange list \<Rightarrow> int \<Rightarrow> PersistencyPageRange list" where
  "right_part M e = (if M = [] then [] else split_last (last M) e)"

lemma mergeRange_touches:
  assumes "wf_ranges (A @ M @ B)" "touches (rstart r) (rend r) A M B" "0 \<le> rstart r" "rstart r \<le> rend r"
  shows "mergeRange (A @ M @ B) r =
    Inr (A @ left_part M (rstart r) @ [r] @ right_part M (rend r) @ B)"
proof (cases "M = []")
  case True
  with selectImpactedRanges_touches [OF assms] show ?thesis
    by (cases "B = []")
      (simp_all add: mergeRange_def Let_def left_part_def right_part_def impacted_count_def)
next
  case False
  then show ?thesis
    by (simp add: mergeRange_def Let_def selectImpactedRanges_touches [OF assms]
        left_part_def right_part_def index_of_def impacted_count_def)
qed

lemma clearRange_touches:
  assumes "wf_ranges (A @ M @ B)" "touches (rstart r) (rend r) A M B" "0 \<le> rstart r" "rstart r \<le> rend r"
  shows "clearRange (A @ M @ B) r =
    Inr (A @ left_part M (rstart r) @ right_part M (rend r) @ B)"
proof (cases "M = []")
  case True
  with selectImpactedRanges_touches [OF assms] show ?thesis
    by (cases "B = []")
      (simp_all add: clearRange_def Let_def left_part_def right_part_def impacted_count_def)
next
  case False
  then show ?thesis
    by (simp add: clearRange_def Let_def selectImpactedRanges_touches [OF assms]
        left_part_def right_part_def index_of_def impacted_count_def)
qed

lemma page_at_simps [simp]:
  "page_at [] p = None"
  "page_at (r # rs) p = (if positionInRange r p then Some (range_byte r p) else page_at rs p)"
  by (simp_all add: page_at_def)

lemma page_at_append:
  "page_at (xs @ ys) p = (case page_at xs p of None \<Rightarrow> page_at ys p | Some v \<Rightarrow> Some v)"
  by (induction xs) auto

lemma page_at_outside:
  "(\<And>r. r \<in> set rs \<Longrightarrow> \<not> positionInRange r p) \<Longrightarrow> page_at rs p = None"
  by (induction rs) auto

lemma page_at_NoneD: "page_at rs p = None \<Longrightarrow> r \<in> set rs \<Longrightarrow> \<not> positionInRange r p"
  by (induction rs) (auto split: if_splits)

lemma page_at_left:
  assumes "wf_ranges M" "\<forall>r\<in>set M. s \<le> rend r" "p < s"
  shows "page_at (left_part M s) p = page_at M p"
proof (cases M)
  case (Cons m ms)
  with assms have "page_at ms p = None"
    by (intro page_at_outside) (fastforce simp: positionInRange_def)
  with Cons assms show ?thesis
    by (auto simp: left_part_def split_first_def positionInRange_def range_byte_def)
qed (simp add: left_part_def)

lemma page_at_right:
  assumes "wf_ranges M" "\<forall>r\<in>set M. rstart r \<le> e" "e < p"
  shows "page_at (right_part M e) p = page_at M p"
proof (cases M rule: rev_cases)
  case (snoc ms m)
  with assms have "page_at ms p = None"
    by (intro page_at_outside) (fastforce simp: positionInRange_def wf_ranges_append)
  with snoc assms show ?thesis
    by (auto simp: right_part_def split_last_def positionInRange_def range_byte_def page_at_append)
qed (simp add: right_part_def)

lemma left_part_within: "r \<in> set (left_part M s) \<Longrightarrow> rend r < s"
  by (auto simp: left_part_def split_first_def split: if_splits)

lemma right_part_within: "r \<in> set (right_part M e) \<Longrightarrow> e < rstart r"
  by (auto simp: right_part_def split_last_def split: if_splits)

text \<open>Replacing what a list has in \<open>[s, e]\<close> by \<open>N\<close>: the bytes outside stay where they were.\<close>

lemma page_at_replace:
  assumes wf: "wf_ranges (A @ M @ B)" and t: "touches s e A M B" and "s \<le> e"
    and N: "\<forall>r\<in>set N. s \<le> rstart r \<and> rend r \<le> e"
  shows "page_at (A @ left_part M s @ N @ right_part M e @ B) p =
    (if s \<le> p \<and> p \<le> e then page_at N p else page_at (A @ M @ B) p)"
proof -
  have out: "s \<le> p \<Longrightarrow> page_at A p = None" "s \<le> p \<Longrightarrow> page_at (left_part M s) p = None"
    "p \<le> e \<Longrightarrow> page_at B p = None" "p \<le> e \<Longrightarrow> page_at (right_part M e) p = None"
    "p < s \<or> e < p \<Longrightarrow> page_at N p = None"
    using t N left_part_within right_part_within
    by (auto intro!: page_at_outside simp: positionInRange_def touches_def) fastforce+
  have M: "wf_ranges M" using wf by (simp add: wf_ranges_append)
  consider "p < s" | "s \<le> p" "p \<le> e" | "e < p" by linarith
  then show ?thesis
  proof cases
    case 1
    then have "page_at (left_part M s) p = page_at M p"
      using page_at_left [OF M] t by (simp add: touches_def)
    with 1 \<open>s \<le> e\<close> out show ?thesis by (simp add: page_at_append split: option.splits)
  next
    case 2
    with out show ?thesis by (simp add: page_at_append split: option.splits)
  next
    case 3
    then have "page_at (right_part M e) p = page_at M p"
      using page_at_right [OF M] t by (simp add: touches_def)
    with 3 \<open>s \<le> e\<close> out show ?thesis by (simp add: page_at_append split: option.splits)
  qed
qed

lemma wf_left_part:
  assumes "wf_ranges (A @ M @ B)" "touches s e A M B"
  shows "wf_ranges (left_part M s)" "r \<in> set A \<Longrightarrow> r' \<in> set (left_part M s) \<Longrightarrow> rend r < rstart r'"
  using assms
  by (cases M; auto simp: left_part_def split_first_def wf_ranges_append wf_range_def touches_def)+

lemma wf_right_part:
  assumes "wf_ranges (A @ M @ B)" "touches s e A M B"
  shows "wf_ranges (right_part M e)" "r' \<in> set (right_part M e) \<Longrightarrow> r \<in> set B \<Longrightarrow> rend r' < rstart r"
  using assms
  by (cases M rule: rev_cases;
      auto simp: right_part_def split_last_def wf_ranges_append wf_range_def touches_def)+

lemma wf_replace:
  assumes wf: "wf_ranges (A @ M @ B)" and t: "touches s e A M B" and "s \<le> e"
    and N: "wf_ranges N" "\<forall>r\<in>set N. s \<le> rstart r \<and> rend r \<le> e"
  shows "wf_ranges (A @ left_part M s @ N @ right_part M e @ B)"
  using wf_left_part [OF wf t] wf_right_part [OF wf t] left_part_within right_part_within wf t N \<open>s \<le> e\<close>
  unfolding wf_ranges_append touches_def by (fastforce dest: left_part_within right_part_within)

text \<open>Cutting.\<close>

definition cut_ends :: "int \<Rightarrow> int \<Rightarrow> PersistencyPageRange list \<Rightarrow> PersistencyPageRange list" where
  "cut_ends s e M =
     (let cut1 = M[0 := cut_first (hd M) s] in cut1[length cut1 - 1 := cut_last (last cut1) e])"

lemma cutRanges_touches:
  assumes "wf_ranges (A @ M @ B)" "touches (rstart r) (rend r) A M B" "0 \<le> rstart r" "rstart r \<le> rend r"
  shows "cutRanges (A @ M @ B) r = Inr (if M = [] then [] else cut_ends (rstart r) (rend r) M)"
proof (cases "M = []")
  case True
  with selectImpactedRanges_touches [OF assms] show ?thesis
    by (cases "B = []") (simp_all add: cutRanges_def Let_def impacted_count_def)
next
  case False
  then show ?thesis
    by (simp add: cutRanges_def Let_def selectImpactedRanges_touches [OF assms]
        index_of_def impacted_count_def cut_ends_def)
qed

lemma cut_ends_simps:
  "cut_ends s e [m] = [cut_last (cut_first m s) e]"
  "cut_ends s e (m # ms @ [l]) = cut_first m s # ms @ [cut_last l e]"
  by (simp_all add: cut_ends_def list_update_append nth_append)

lemma list_ends_cases [case_names Nil Single Ends]:
  obtains "xs = []" | x where "xs = [x]" | x ys y where "xs = x # ys @ [y]"
  by (cases xs rule: rev_cases; cases "butlast xs") auto

lemma cut_first_facts:
  assumes "wf_range m" "s \<le> rend m"
  shows "rstart (cut_first m s) = max s (rstart m)" "rend (cut_first m s) = rend m"
    "0 \<le> s \<Longrightarrow> wf_range (cut_first m s)" "range_byte (cut_first m s) p = range_byte m p"
  using assms by (auto simp: cut_first_def wf_range_def range_byte_def max_def)

lemma cut_last_facts:
  assumes "wf_range l" "rstart l \<le> e"
  shows "rend (cut_last l e) = min e (rend l)" "rstart (cut_last l e) = rstart l"
    "wf_range (cut_last l e)" "range_byte (cut_last l e) p = range_byte l p"
  using assms by (auto simp: cut_last_def wf_range_def range_byte_def min_def)

lemma cut_ends_correct:
  assumes "wf_ranges M" "\<forall>r\<in>set M. s \<le> rend r \<and> rstart r \<le> e" "M \<noteq> []" "0 \<le> s" "s \<le> e"
  shows "wf_ranges (cut_ends s e M)"
    and "\<forall>r\<in>set (cut_ends s e M). s \<le> rstart r \<and> rend r \<le> e"
    and "page_at (cut_ends s e M) p = (if s \<le> p \<and> p \<le> e then page_at M p else None)"
proof -
  have "wf_ranges (cut_ends s e M) \<and> (\<forall>r\<in>set (cut_ends s e M). s \<le> rstart r \<and> rend r \<le> e) \<and>
    page_at (cut_ends s e M) p = (if s \<le> p \<and> p \<le> e then page_at M p else None)"
  proof (cases M rule: list_ends_cases)
    case Nil
    with assms show ?thesis by simp
  next
    case (Single m)
    with assms have m: "wf_range m" "s \<le> rend m" "rstart m \<le> e" by auto
    note f = cut_first_facts [OF m(1,2)]
    have c: "wf_range (cut_first m s)" "rstart (cut_first m s) \<le> e"
      using f m assms(4,5) by auto
    show ?thesis
      using Single assms(4,5) m f cut_last_facts [OF c]
      by (auto simp: cut_ends_simps positionInRange_def)
  next
    case (Ends m ms l)
    with assms have m: "wf_range m" "s \<le> rend m" and l: "wf_range l" "rstart l \<le> e" "s \<le> rend l"
      and ord: "\<forall>x\<in>set ms. rend m < rstart x \<and> rend x < rstart l \<and> wf_range x" "rend m < rstart l"
      and mid: "wf_ranges ms"
      by (auto simp: wf_ranges_append wf_ranges_wf_range)
    note f = cut_first_facts [OF m] cut_last_facts [OF l(1,2)]
    have in_ms: "page_at ms p = None" if "p < s \<or> e < p"
      using that ord m l by (intro page_at_outside) (fastforce simp: positionInRange_def)
    have "wf_ranges (cut_ends s e M) \<and> (\<forall>r\<in>set (cut_ends s e M). s \<le> rstart r \<and> rend r \<le> e)"
      using Ends assms(4,5) m l ord mid f
      by (auto simp: cut_ends_simps wf_ranges_append wf_range_order)
    moreover have "page_at (cut_ends s e M) p = (if s \<le> p \<and> p \<le> e then page_at M p else None)"
    proof (cases "s \<le> p \<and> p \<le> e")
      case True
      with f have "positionInRange (cut_first m s) p = positionInRange m p"
        "positionInRange (cut_last l e) p = positionInRange l p"
        by (auto simp: positionInRange_def)
      with True f Ends show ?thesis by (simp add: cut_ends_simps page_at_append split: option.splits)
    next
      case False
      with f m l ord(2) have "\<not> positionInRange (cut_first m s) p" "\<not> positionInRange (cut_last l e) p"
        by (auto simp: positionInRange_def)
      with False in_ms Ends show ?thesis by (auto simp: cut_ends_simps page_at_append)
    qed
    ultimately show ?thesis by blast
  qed
  then show "wf_ranges (cut_ends s e M)"
    and "\<forall>r\<in>set (cut_ends s e M). s \<le> rstart r \<and> rend r \<le> e"
    and "page_at (cut_ends s e M) p = (if s \<le> p \<and> p \<le> e then page_at M p else None)"
    by blast+
qed

lemma cutRanges_correct:
  assumes "wf_ranges rs" "0 \<le> rstart r" "rstart r \<le> rend r"
  obtains cs where "cutRanges rs r = Inr cs" "wf_ranges cs"
    "\<forall>c\<in>set cs. rstart r \<le> rstart c \<and> rend c \<le> rend r"
    "\<And>p. page_at cs p = (if rstart r \<le> p \<and> p \<le> rend r then page_at rs p else None)"
proof -
  obtain A M B where rs: "rs = A @ M @ B" and t: "touches (rstart r) (rend r) A M B"
    using touches_exists [OF assms(1,3)] .
  have wf: "wf_ranges (A @ M @ B)" using assms(1) rs by simp
  note cut = cutRanges_touches [OF wf t assms(2,3)]
  have "page_at A p = None \<and> page_at B p = None" if "rstart r \<le> p" "p \<le> rend r" for p
    using that t by (auto intro!: page_at_outside simp: touches_def positionInRange_def)
  then have in_M: "page_at rs p = page_at M p" if "rstart r \<le> p" "p \<le> rend r" for p
    using that by (simp add: rs page_at_append split: option.splits)
  show thesis
  proof (cases "M = []")
    case True
    with in_M cut rs show ?thesis by (intro that [of "[]"]) auto
  next
    case False
    have M: "wf_ranges M" "\<forall>x\<in>set M. rstart r \<le> rend x \<and> rstart x \<le> rend r"
      using wf t by (simp_all add: wf_ranges_append touches_def)
    note c = cut_ends_correct [OF M False assms(2,3)]
    show ?thesis
      using that [of "cut_ends (rstart r) (rend r) M"] cut c in_M False rs by simp
  qed
qed

text \<open>Filling: the result is a tiling of the requested interval.\<close>

fun tiles :: "int \<Rightarrow> int \<Rightarrow> PersistencyPageRange list \<Rightarrow> bool" where
  "tiles s e [] = (s = e + 1)"
| "tiles s e (r # rs) =
     (rstart r = s \<and> rstart r \<le> rend r \<and> chunk_count (persistency r) = rend r + 1 - rstart r \<and>
      tiles (rend r + 1) e rs)"

text \<open>\<open>zeros\<close>: the byte lies in the zero extent.\<close>

definition zero_byte :: "(string \<times> int) option \<Rightarrow> bool" where
  "zero_byte v \<longleftrightarrow> map_option fst v = Some ZERO_EXTENT_ID"

lemma tiles_append:
  "tiles s m xs \<Longrightarrow> tiles (m + 1) e ys \<Longrightarrow> tiles s e (xs @ ys)"
  by (induction xs arbitrary: s) auto

lemma tiles_total: "tiles s e rs \<Longrightarrow> (\<Sum>r\<leftarrow>rs. chunk_count (persistency r)) = e + 1 - s"
  by (induction s e rs rule: tiles.induct) auto

lemma tiles_zero: "s \<le> e \<Longrightarrow> tiles s e [zero_range s e (e + 1 - s)]"
  by (simp add: zero_range_def)

lemma zero_range_page:
  "positionInRange (zero_range s e n) p \<longleftrightarrow> s \<le> p \<and> p \<le> e"
  "zero_byte (Some (range_byte (zero_range s e n) p))"
  by (simp_all add: zero_range_def positionInRange_def zero_byte_def range_byte_def)

lemma fill_gaps_correct:
  assumes "wf_ranges rs" "rs \<noteq> []"
  shows "tiles (rstart (hd rs)) (rend (last rs)) (fill_gaps rs) \<and>
    (\<forall>p. (case page_at rs p of
        Some v \<Rightarrow> page_at (fill_gaps rs) p = Some v
      | None \<Rightarrow> rstart (hd rs) \<le> p \<longrightarrow> p \<le> rend (last rs) \<longrightarrow> zero_byte (page_at (fill_gaps rs) p)))"
  using assms
proof (induction rs rule: fill_gaps.induct)
  case (3 r r' rs)
  let ?g = "rstart r' - 1 - rend r"
  let ?z = "if ?g > 0 then [zero_range (rend r + 1) (rstart r' - 1) ?g] else []"
  have r: "wf_range r" "rend r < rstart r'" and r': "wf_range r'" and rs: "wf_ranges (r' # rs)"
    using "3.prems" by auto
  have later: "rstart r' \<le> rstart x" if "x \<in> set (r' # rs)" for x
    using rs that wf_range_order(1) [OF r'] by fastforce
  note IH = "3.IH" [OF refl rs list.distinct(2), unfolded list.sel, THEN conjunct1]
    "3.IH" [OF refl rs list.distinct(2), unfolded list.sel, THEN conjunct2, rule_format]
  have "tiles (rend r + 1) (rstart r' - 1) ?z" using r by (simp add: zero_range_def)
  with IH(1) have "tiles (rend r + 1) (rend (last (r' # rs))) (?z @ fill_gaps (r' # rs))"
    by (intro tiles_append) auto
  then have tile: "tiles (rstart r) (rend (last (r' # rs))) (fill_gaps (r # r' # rs))"
    using r wf_range_def by (simp add: Let_def)
  have none: "page_at (r' # rs) p = None" if "p < rstart r'" for p
    using that later by (intro page_at_outside) (fastforce simp: positionInRange_def)
  have pages: "case page_at (r # r' # rs) p of
        Some v \<Rightarrow> page_at (fill_gaps (r # r' # rs)) p = Some v
      | None \<Rightarrow> rstart r \<le> p \<longrightarrow> p \<le> rend (last (r' # rs)) \<longrightarrow>
          zero_byte (page_at (fill_gaps (r # r' # rs)) p)" for p
  proof -
    consider "positionInRange r p" | "\<not> positionInRange r p" "p < rstart r'"
      | "\<not> positionInRange r p" "rstart r' \<le> p" by linarith
    then show ?thesis
    proof cases
      case 1
      then show ?thesis by (simp add: Let_def)
    next
      case 2
      have "zero_byte (page_at (fill_gaps (r # r' # rs)) p)" if "rstart r \<le> p"
        using 2 that zero_range_page by (auto simp: Let_def positionInRange_def)
      with 2(1) none [OF 2(2)] show ?thesis by simp
    next
      case 3
      have "page_at ?z p = None" using 3 by (auto simp: zero_range_page)
      then have fill: "page_at (fill_gaps (r # r' # rs)) p = page_at (fill_gaps (r' # rs)) p"
        using 3 by (simp add: Let_def page_at_append)
      have tail: "page_at (r # r' # rs) p = page_at (r' # rs) p" using 3(1) by simp
      show ?thesis
        using IH(2) [of p] 3(2) unfolding fill tail by (cases "page_at (r' # rs) p") simp_all
    qed
  qed
  have last: "last (r # r' # rs) = last (r' # rs)" by simp
  show ?case unfolding list.sel last using tile pages by blast
qed (auto simp: wf_range_def positionInRange_def split: option.splits)

lemma tiles_bound: "tiles s e rs \<Longrightarrow> s \<le> e + 1"
  by (induction s e rs rule: tiles.induct) auto

lemma tiles_within: "tiles s e rs \<Longrightarrow> \<forall>r\<in>set rs. s \<le> rstart r \<and> rend r \<le> e"
proof (induction s e rs rule: tiles.induct)
  case (2 s e r rs)
  then have "\<forall>x\<in>set rs. rend r + 1 \<le> rstart x \<and> rend x \<le> e" by simp
  moreover from 2 have "rend r \<le> e" by (cases rs) (auto dest: tiles_bound)
  ultimately show ?case using 2 by fastforce
qed simp

lemma tiles_wf: "tiles s e rs \<Longrightarrow> 0 \<le> s \<Longrightarrow> wf_ranges rs \<and> (\<forall>r\<in>set rs. s \<le> rstart r)"
proof (induction s e rs rule: tiles.induct)
  case (2 s e r rs)
  then have "wf_ranges rs \<and> (\<forall>x\<in>set rs. rend r + 1 \<le> rstart x)" by simp
  with 2 show ?case by (fastforce simp: wf_range_def)
qed simp

lemma fillZeroRanges_fill:
  assumes "wf_ranges cs" "cs \<noteq> []" "\<forall>c\<in>set cs. s \<le> rstart c \<and> rend c \<le> e"
  defines "fs \<equiv> (if s < rstart (hd cs) then [zero_range s (rstart (hd cs) - 1) (rstart (hd cs) - s)] else []) @
        fill_gaps cs @
        (if rend (last cs) < e then [zero_range (rend (last cs) + 1) e (e - rend (last cs))] else [])"
  shows "tiles s e fs"
    and "\<And>p. s \<le> p \<Longrightarrow> p \<le> e \<Longrightarrow>
      (case page_at cs p of Some v \<Rightarrow> page_at fs p = Some v | None \<Rightarrow> zero_byte (page_at fs p))"
proof -
  have ends: "s \<le> rstart (hd cs)" "rend (last cs) \<le> e" using assms(2,3) by auto
  note fill = fill_gaps_correct [OF assms(1,2)]
  have "tiles s (rstart (hd cs) - 1)
      (if s < rstart (hd cs) then [zero_range s (rstart (hd cs) - 1) (rstart (hd cs) - s)] else [])"
    using ends by (simp add: zero_range_def)
  moreover have "tiles (rend (last cs) + 1) e
      (if rend (last cs) < e then [zero_range (rend (last cs) + 1) e (e - rend (last cs))] else [])"
    using ends by (simp add: zero_range_def)
  ultimately show "tiles s e fs"
    unfolding fs_def using fill by (auto intro!: tiles_append)
  fix p assume p: "s \<le> p" "p \<le> e"
  have lo: "rstart (hd cs) \<le> rstart c" and hi: "rend c \<le> rend (last cs)" if "c \<in> set cs" for c
  proof -
    obtain c1 cs1 where c1: "cs = c1 # cs1" using assms(2) by (cases cs) auto
    then show "rstart (hd cs) \<le> rstart c" using that assms(1) wf_range_order(1) [of c1] by fastforce
    obtain cs2 c2 where c2: "cs = cs2 @ [c2]" using assms(2) by (cases cs rule: rev_cases) auto
    then show "rend c \<le> rend (last cs)"
      using that assms(1) wf_range_order(1) [of c2] by (fastforce simp: wf_ranges_append)
  qed
  show "case page_at cs p of Some v \<Rightarrow> page_at fs p = Some v | None \<Rightarrow> zero_byte (page_at fs p)"
  proof (cases "rstart (hd cs) \<le> p \<and> p \<le> rend (last cs)")
    case True
    moreover have "page_at (fill_gaps cs) p \<noteq> None"
      using True fill by (auto simp: zero_byte_def split: option.splits)
    ultimately show ?thesis
      using fill by (auto simp: fs_def page_at_append zero_range_page split: option.splits)
  next
    case False
    have "page_at cs p = None"
      using False lo hi by (intro page_at_outside) (fastforce simp: positionInRange_def)
    moreover have "page_at (fill_gaps cs) p = None"
    proof -
      have "tiles (rstart (hd cs)) (rend (last cs)) (fill_gaps cs)" using fill by simp
      then have "\<forall>r\<in>set (fill_gaps cs). rstart (hd cs) \<le> rstart r \<and> rend r \<le> rend (last cs)"
        by (rule tiles_within)
      then show ?thesis using False by (intro page_at_outside) (fastforce simp: positionInRange_def)
    qed
    ultimately show ?thesis
      using False p zero_range_page
      by (auto simp: fs_def page_at_append split: option.splits)
  qed
qed

lemma mergeRange_correct:
  assumes "wf_ranges rs" "wf_range r"
  shows "\<exists>rs'. mergeRange rs r = Inr rs' \<and> wf_ranges rs' \<and>
    page_at rs' = (\<lambda>p. if rstart r \<le> p \<and> p \<le> rend r then Some (range_byte r p) else page_at rs p)"
proof -
  have r: "0 \<le> rstart r" "rstart r \<le> rend r" using assms(2) by (simp_all add: wf_range_def)
  obtain A M B where rs: "rs = A @ M @ B" and t: "touches (rstart r) (rend r) A M B"
    using touches_exists [OF assms(1) r(2)] .
  have wf: "wf_ranges (A @ M @ B)" using assms(1) rs by simp
  have N: "wf_ranges [r]" "\<forall>x\<in>set [r]. rstart r \<le> rstart x \<and> rend x \<le> rend r" using assms(2) by auto
  show ?thesis
    using mergeRange_touches [OF wf t r] wf_replace [OF wf t r(2) N]
      page_at_replace [OF wf t r(2) N(2)]
    by (auto simp: rs positionInRange_def fun_eq_iff)
qed

lemma clearRange_correct:
  assumes "wf_ranges rs" "0 \<le> rstart r" "rstart r \<le> rend r"
  shows "\<exists>rs'. clearRange rs r = Inr rs' \<and> wf_ranges rs' \<and>
    page_at rs' = (\<lambda>p. if rstart r \<le> p \<and> p \<le> rend r then None else page_at rs p)"
proof -
  obtain A M B where rs: "rs = A @ M @ B" and t: "touches (rstart r) (rend r) A M B"
    using touches_exists [OF assms(1,3)] .
  have wf: "wf_ranges (A @ M @ B)" using assms(1) rs by simp
  show ?thesis
    using clearRange_touches [OF wf t assms(2,3)] wf_replace [OF wf t assms(3), of "[]"]
      page_at_replace [OF wf t assms(3), of "[]"]
    by (auto simp: rs fun_eq_iff)
qed

section \<open>The contract of a ranges manager\<close>

text \<open>What a page blob relies on (\<open>IPageBlobRangesManager\<close>): merging a range makes its bytes
  readable and keeps the others, clearing a range makes its bytes unreadable and keeps the others,
  and both keep the list in order.\<close>

datatype page_op = WritePages PersistencyPageRange | ClearPages PageRange

fun page_exec :: "page_op \<Rightarrow> PersistencyPageRange list \<Rightarrow> PersistencyPageRange list result" where
  "page_exec (WritePages r) rs = mergeRange rs r"
| "page_exec (ClearPages r) rs = clearRange rs r"

fun page_op_ok :: "page_op \<Rightarrow> bool" where
  "page_op_ok (WritePages r) = wf_range r"
| "page_op_ok (ClearPages r) = (0 \<le> rstart r \<and> rstart r \<le> rend r)"

text \<open>The abstract effect: a functional update of the byte map.\<close>

fun page_effect ::
  "page_op \<Rightarrow> (int \<Rightarrow> (string \<times> int) option) \<Rightarrow> int \<Rightarrow> (string \<times> int) option" where
  "page_effect (WritePages r) c = (\<lambda>p. if rstart r \<le> p \<and> p \<le> rend r then Some (range_byte r p) else c p)"
| "page_effect (ClearPages r) c = (\<lambda>p. if rstart r \<le> p \<and> p \<le> rend r then None else c p)"

fun page_run ::
  "page_op list \<Rightarrow> PersistencyPageRange list \<Rightarrow> PersistencyPageRange list result" where
  "page_run [] rs = Inr rs"
| "page_run (x # xs) rs = bind_result (page_exec x rs) (page_run xs)"

locale ranges_manager =
  fixes exec :: "'op \<Rightarrow> 'rs \<Rightarrow> js_error + 'rs"
    and run :: "'op list \<Rightarrow> 'rs \<Rightarrow> js_error + 'rs"
    and inv :: "'rs \<Rightarrow> bool"
    and ok :: "'op \<Rightarrow> bool"
    and content :: "'rs \<Rightarrow> 'c"
    and effect :: "'op \<Rightarrow> 'c \<Rightarrow> 'c"
  assumes exec_refines:
      "inv rs \<Longrightarrow> ok x \<Longrightarrow> \<exists>rs'. exec x rs = Inr rs' \<and> inv rs' \<and> content rs' = effect x (content rs)"
    and run_Nil: "run [] rs = Inr rs"
    and run_Cons: "run (x # xs) rs = bind_result (exec x rs) (run xs)"
begin

lemma run_refines:
  "inv rs \<Longrightarrow> list_all ok xs \<Longrightarrow>
   \<exists>rs'. run xs rs = Inr rs' \<and> inv rs' \<and> content rs' = fold effect xs (content rs)"
proof (induction xs arbitrary: rs)
  case Nil
  then show ?case by (simp add: run_Nil)
next
  case (Cons x xs)
  then obtain rs1 where "exec x rs = Inr rs1" "inv rs1" "content rs1 = effect x (content rs)"
    using exec_refines [of rs x] by auto
  then show ?case using Cons.IH [of rs1] Cons.prems by (simp add: run_Cons bind_result_def)
qed

end

interpretation page_list: ranges_manager page_exec page_run wf_ranges page_op_ok page_at page_effect
proof
  show "\<exists>rs'. page_exec x rs = Inr rs' \<and> wf_ranges rs' \<and> page_at rs' = page_effect x (page_at rs)"
    if "wf_ranges rs" "page_op_ok x" for rs x
    using that by (cases x) (simp_all add: mergeRange_correct clearRange_correct)
qed simp_all

section \<open>Properties\<close>

text \<open>
  Writing pages. Merging a well-formed range into an ordered list of ranges succeeds, keeps the
  list ordered and free of overlaps with every chunk of the right length, makes exactly the bytes
  of the new range point to the new chunk, and leaves every other byte where it was.
\<close>

lemma merge_range_spec:
  assumes "wf_ranges rs" "wf_range r"
  shows "\<exists>rs'. mergeRange rs r = Inr rs' \<and> wf_ranges rs' \<and>
    page_at rs' = (\<lambda>p. if rstart r \<le> p \<and> p \<le> rend r then Some (range_byte r p) else page_at rs p)"
  using assms by (rule mergeRange_correct)

text \<open>
  Clearing pages. Clearing an interval succeeds on an ordered list, keeps it well formed, and
  makes exactly the bytes of the interval unwritten.
\<close>

lemma clear_range_spec:
  assumes "wf_ranges rs" "0 \<le> rstart r" "rstart r \<le> rend r"
  shows "\<exists>rs'. clearRange rs r = Inr rs' \<and> wf_ranges rs' \<and>
    page_at rs' = (\<lambda>p. if rstart r \<le> p \<and> p \<le> rend r then None else page_at rs p)"
  using assms by (rule clearRange_correct)

text \<open>
  C8: Any sequence of page writes and clears behaves like a byte map: it never fails, the list
  stays well formed, and each byte is where the last operation that covers it has put it.
\<close>

theorem page_operations_refine_byte_map:
  assumes "wf_ranges rs" "list_all page_op_ok xs"
  shows "\<exists>rs'. page_run xs rs = Inr rs' \<and> wf_ranges rs' \<and>
    page_at rs' = fold page_effect xs (page_at rs)"
  using assms by (rule page_list.run_refines)

theorem page_operations_refine_byte_map_witness:
  "\<exists>rs'. page_run [WritePages (zero_range 0 511 512), ClearPages \<lparr>rstart = 100, rend = 199\<rparr>] [] = Inr rs' \<and>
    wf_ranges rs' \<and>
    page_at rs' = fold page_effect
      [WritePages (zero_range 0 511 512), ClearPages \<lparr>rstart = 100, rend = 199\<rparr>] (page_at [])"
  by (rule page_operations_refine_byte_map) (simp_all add: wf_range_def zero_range_def)

text \<open>
  C9: Reading pages. The ranges returned for a read tile the requested interval without gap or
  overlap, their lengths add up to the requested length, every written byte is read from where it
  was written, and every other byte is read from the zero extent.
\<close>

theorem fill_zero_ranges_spec:
  assumes "wf_ranges rs" "0 \<le> rstart r" "rstart r \<le> rend r"
  shows "\<exists>fs. fillZeroRanges rs r = Inr fs \<and> tiles (rstart r) (rend r) fs \<and>
    (\<Sum>f\<leftarrow>fs. chunk_count (persistency f)) = rend r + 1 - rstart r \<and>
    (\<forall>p. rstart r \<le> p \<and> p \<le> rend r \<longrightarrow>
       (case page_at rs p of Some v \<Rightarrow> page_at fs p = Some v | None \<Rightarrow> zero_byte (page_at fs p)))"
proof -
  obtain cs where cut: "cutRanges rs r = Inr cs" and wf: "wf_ranges cs"
    and within: "\<forall>c\<in>set cs. rstart r \<le> rstart c \<and> rend c \<le> rend r"
    and page: "\<And>p. page_at cs p = (if rstart r \<le> p \<and> p \<le> rend r then page_at rs p else None)"
    using cutRanges_correct [OF assms] by blast
  show ?thesis
  proof (cases "cs = []")
    case True
    let ?z = "[zero_range (rstart r) (rend r) (rend r + 1 - rstart r)]"
    have "tiles (rstart r) (rend r) ?z" using assms(3) by (rule tiles_zero)
    moreover have "page_at rs p = None \<and> zero_byte (page_at ?z p)" if "rstart r \<le> p" "p \<le> rend r" for p
      using page [of p] that True zero_range_page by simp
    ultimately show ?thesis using cut True tiles_total by (simp add: fillZeroRanges_def)
  next
    case False
    note fill = fillZeroRanges_fill [OF wf False within]
    show ?thesis
      using cut False fill(1) tiles_total [OF fill(1)] fill(2) page
      by (simp add: fillZeroRanges_def)
  qed
qed

theorem fill_zero_ranges_spec_witness:
  "\<exists>fs. fillZeroRanges [zero_range 512 1023 512] \<lparr>rstart = 0, rend = 2047\<rparr> = Inr fs \<and>
    (\<Sum>f\<leftarrow>fs. chunk_count (persistency f)) = 2048"
  using fill_zero_ranges_spec [of "[zero_range 512 1023 512]" "\<lparr>rstart = 0, rend = 2047\<rparr>"]
  by (auto simp: wf_range_def zero_range_def)

text \<open>
  The recursive searches return, on every list of ranges whether ordered or not, the least index
  of a range that covers or follows the position and the greatest index of a range that covers or
  precedes it (Infinity and -1 when there is none).
\<close>

lemma locate_impacted_ranges_spec:
  "locateFirstImpactedRange rs 0 (int (length rs)) p =
     Inr (first_index (\<lambda>i. positionInRange (rs ! nat i) p \<or> p < rstart (rs ! nat i)) 0 (int (length rs))) \<and>
   locateLastImpactedRange rs 0 (int (length rs)) p =
     Inr (last_index (\<lambda>i. positionInRange (rs ! nat i) p \<or> rend (rs ! nat i) < p) 0 (int (length rs)))"
  using locateFirst_eq [of 0 "int (length rs)" rs p] locateLast_eq [of 0 "int (length rs)" rs p]
  by (simp add: reaches_def precedes_def)

end
