(* ===== verification/Conditions.thy ===== *)
theory Conditions
  imports Tag_Query
begin

text \<open>
  Conditional headers of the blob service, \<open>blob/conditions\<close>: the adapters that normalise the
  headers and the resource (quotes removed from etags, dates cut to seconds, an uncommitted blob
  counts as nonexistent), the validators for reads and writes, and the sequence number conditions
  of page blobs. Dates are mutable objects in the code; the adapters' \<open>setMilliseconds(0)\<close> is
  modelled by the value they store.
\<close>

section \<open>Adapters\<close>

record ModifiedAccessConditions =
  mac_ifModifiedSince :: "js_date option"
  mac_ifUnmodifiedSince :: "js_date option"
  mac_ifMatch :: "string option"
  mac_ifNoneMatch :: "string option"
  mac_ifTags :: "string option"

record IConditionalHeaders =
  ifModifiedSince :: "js_date option"
  ifUnmodifiedSince :: "js_date option"
  ifMatch :: "string list option"
  ifNoneMatch :: "string list option"
  ifTags :: "string option"

text \<open>\<open>etag.substring(1, etag.length - 1)\<close> of a quoted etag; for a single quote character the
  bounds are swapped and the character stays.\<close>

definition strip_quotes :: "string \<Rightarrow> string" where
  "strip_quotes etag =
     (if startsWith etag [CHR 0x22] \<and> endsWith etag [CHR 0x22]
      then (if length etag = 1 then etag else butlast (tl etag)) else etag)"

text \<open>A string that is \<open>undefined\<close> or empty is falsy.\<close>

definition truthy_str :: "string option \<Rightarrow> string option" where
  "truthy_str s = (case s of None \<Rightarrow> None | Some v \<Rightarrow> if v = '''' then None else Some v)"

definition etag_list :: "string option \<Rightarrow> string list option" where
  "etag_list s = map_option (\<lambda>v. map strip_quotes (split_char (CHR '','') v)) (truthy_str s)"

definition ConditionalHeadersAdapter :: "ModifiedAccessConditions \<Rightarrow> IConditionalHeaders" where
  "ConditionalHeadersAdapter mac =
     \<lparr>ifModifiedSince = map_option truncate_ms (mac_ifModifiedSince mac),
      ifUnmodifiedSince = map_option truncate_ms (mac_ifUnmodifiedSince mac),
      ifMatch = etag_list (mac_ifMatch mac),
      ifNoneMatch = etag_list (mac_ifNoneMatch mac),
      ifTags = mac_ifTags mac\<rparr>"

text \<open>What the conditions read of a blob or container: \<open>isCommitted\<close> is \<open>undefined\<close> for a
  container.\<close>

record condition_model =
  cm_isCommitted :: "bool option"
  cm_etag :: string
  cm_lastModified :: js_date
  cm_name :: string
  cm_containerName :: "string option"
  cm_blobTags :: "BlobTag list option"

record IConditionResource =
  exist :: bool
  etag :: string
  lastModified :: "js_date option"
  blobItemWithTags :: "FilterBlobModel option"

definition ConditionResourceAdapter :: "condition_model option \<Rightarrow> IConditionResource result" where
  "ConditionResourceAdapter resource =
     (case resource of
        None \<Rightarrow> Inr \<lparr>exist = False, etag = ''NONEXISTENT_RESOURCE_ETAG'', lastModified = None,
                  blobItemWithTags = None\<rparr>
      | Some r \<Rightarrow>
          if cm_isCommitted r = Some False
          then Inr \<lparr>exist = False, etag = ''NONEXISTENT_RESOURCE_ETAG'', lastModified = None,
                 blobItemWithTags = None\<rparr>
          else if length (cm_etag r) < 3 then Inl GenericError
          else Inr \<lparr>exist = True, etag = strip_quotes (cm_etag r),
                 lastModified = Some (truncate_ms (cm_lastModified r)),
                 blobItemWithTags = Some \<lparr>fb_name = cm_name r, fb_containerName = cm_containerName r,
                   fb_tags = cm_blobTags r\<rparr>\<rparr>)"

section \<open>Reads\<close>

text \<open>Comparisons with a date that may be \<open>undefined\<close> are false then.\<close>

definition modified_le :: "IConditionResource \<Rightarrow> js_date \<Rightarrow> bool" where
  "modified_le r d = (case lastModified r of None \<Rightarrow> False | Some l \<Rightarrow> date_le l d)"

definition modified_gt :: "IConditionResource \<Rightarrow> js_date \<Rightarrow> bool" where
  "modified_gt r d = (case lastModified r of None \<Rightarrow> False | Some l \<Rightarrow> date_lt d l)"

text \<open>\<open>headers.length > 0 && headers[0] === "*"\<close>\<close>

definition first_is :: "string list \<Rightarrow> string \<Rightarrow> bool" where
  "first_is tags v = (case tags of [] \<Rightarrow> False | t # _ \<Rightarrow> t = v)"

text \<open>The tag condition: \<open>ifTags\<close> is parsed and must select the resource.\<close>

definition validate_tags :: "string \<Rightarrow> IConditionalHeaders \<Rightarrow> IConditionResource \<Rightarrow> unit result" where
  "validate_tags header h r =
     (case truthy_str (ifTags h) of
        None \<Rightarrow> Inr ()
      | Some tags \<Rightarrow>
          bind_result (generateQueryBlobWithTagsWhereFunction (Some tags) (Some header)) (\<lambda>validateFunction.
          bind_result (case blobItemWithTags r of None \<Rightarrow> Inl TypeError | Some b \<Rightarrow> validateFunction b) (\<lambda>content.
          if content = [] then Inl getConditionNotMet else Inr ())))"

definition ReadConditionalHeadersValidator_validate ::
  "IConditionalHeaders \<Rightarrow> IConditionResource \<Rightarrow> bool option \<Rightarrow> unit result" where
  "ReadConditionalHeadersValidator_validate h r isSourceBlob =
     (if \<not> exist r
      then (if ifMatch h \<noteq> None \<and> length (the (ifMatch h)) > 0 then Inl getConditionNotMet
            else if ifNoneMatch h \<noteq> None \<and> first_is (the (ifNoneMatch h)) ''*''
            then Inl getUnsatisfiableCondition
            else Inr ())
      else
       let ifMatchPass = map_option (\<lambda>es. etag r \<in> set es \<or> first_is es ''*'') (ifMatch h);
           ifUnModifiedSincePass = map_option (modified_le r) (ifUnmodifiedSince h) in
       if ifNoneMatch h \<noteq> None \<and> first_is (the (ifNoneMatch h)) ''*''
       then Inl getUnsatisfiableCondition
       else
       let ifNoneMatchPass = map_option (\<lambda>es. etag r \<notin> set es) (ifNoneMatch h);
           isModifiedSincePass = map_option (modified_gt r) (ifModifiedSince h) in
       if ifMatchPass = Some False then Inl getConditionNotMet
       else if ifUnModifiedSincePass = Some False then Inl getConditionNotMet
       else if ifNoneMatchPass = Some False \<and> isModifiedSincePass \<noteq> Some True then Inl getNotModified
       else if isModifiedSincePass = Some False \<and> ifNoneMatchPass \<noteq> Some True then Inl getNotModified
       else validate_tags
         (if isSourceBlob = Some True then ''x-ms-source-if-tags'' else ''x-ms-if-tags'') h r)"

definition validateReadConditions ::
  "ModifiedAccessConditions \<Rightarrow> condition_model option \<Rightarrow> bool option \<Rightarrow> unit result" where
  "validateReadConditions conditionalHeaders model isSourceBlob =
     bind_result (ConditionResourceAdapter model) (\<lambda>r.
     ReadConditionalHeadersValidator_validate (ConditionalHeadersAdapter conditionalHeaders) r isSourceBlob)"

section \<open>Writes\<close>

definition nonempty_list :: "string list option \<Rightarrow> bool" where
  "nonempty_list es = (case es of None \<Rightarrow> False | Some l \<Rightarrow> length l > 0)"

text \<open>\<open>validateCombinations\<close>; the counters are 0 or 1.\<close>

definition validateCombinations :: "IConditionalHeaders \<Rightarrow> unit result" where
  "validateCombinations h =
     (if nonempty_list (ifMatch h) \<and> length (the (ifMatch h)) > 1
      then Inl getMultipleConditionHeadersNotSupported
      else if nonempty_list (ifNoneMatch h) \<and> length (the (ifNoneMatch h)) > 1
      then Inl getMultipleConditionHeadersNotSupported
      else
       let match = of_bool (nonempty_list (ifMatch h)) :: nat;
           modified = of_bool (ifModifiedSince h \<noteq> None) :: nat;
           noneMatch = of_bool (nonempty_list (ifNoneMatch h)) :: nat;
           unmodified = of_bool (ifUnmodifiedSince h \<noteq> None) :: nat in
       if match + modified + noneMatch + unmodified > 2
       then Inl getMultipleConditionHeadersNotSupported
       else if match + modified + noneMatch + unmodified = 2 \<and> noneMatch + modified = 1
       then Inl getMultipleConditionHeadersNotSupported
       else Inr ())"

definition WriteConditionalHeadersValidator_validate ::
  "IConditionalHeaders \<Rightarrow> IConditionResource \<Rightarrow> unit result" where
  "WriteConditionalHeadersValidator_validate h r =
     bind_result (validateCombinations h) (\<lambda>_.
     if \<not> exist r
     then (if nonempty_list (ifNoneMatch h) then Inr ()
           else if nonempty_list (ifMatch h)
           then (if hd (the (ifMatch h)) \<noteq> ''*'' then Inl getConditionNotMet else Inr ())
           else Inr ())
     else if nonempty_list (ifNoneMatch h)
     then (if hd (the (ifNoneMatch h)) = ''*'' then Inr ()
           else if hd (the (ifNoneMatch h)) = etag r then Inl getConditionNotMet
           else Inr ())
     else if nonempty_list (ifMatch h)
     then (if hd (the (ifMatch h)) \<noteq> ''*'' \<and> hd (the (ifMatch h)) \<noteq> etag r
           then Inl getConditionNotMet else Inr ())
     else (case ifModifiedSince h of
        Some d \<Rightarrow> if modified_le r d then Inl getConditionNotMet else Inr ()
      | None \<Rightarrow>
        (case ifUnmodifiedSince h of
           Some d \<Rightarrow> if modified_gt r d then Inl getConditionNotMet else Inr ()
         | None \<Rightarrow> validate_tags ''x-ms-if-tags'' h r)))"

definition validateWriteConditions ::
  "ModifiedAccessConditions \<Rightarrow> condition_model option \<Rightarrow> unit result" where
  "validateWriteConditions conditionalHeaders model =
     bind_result (ConditionResourceAdapter model) (\<lambda>r.
     WriteConditionalHeadersValidator_validate (ConditionalHeadersAdapter conditionalHeaders) r)"

record SequenceNumberAccessConditions =
  ifSequenceNumberLessThanOrEqualTo :: "int option"
  ifSequenceNumberLessThan :: "int option"
  ifSequenceNumberEqualTo :: "int option"

text \<open>The model is given by its \<open>blobSequenceNumber\<close>.\<close>

definition validateSequenceNumberWriteConditions ::
  "SequenceNumberAccessConditions option \<Rightarrow> int option option \<Rightarrow> unit result" where
  "validateSequenceNumberWriteConditions conditionalHeaders model =
     (case (conditionalHeaders, model) of
        (Some h, Some blobSequenceNumber) \<Rightarrow>
          (case blobSequenceNumber of
             None \<Rightarrow> Inl GenericError
           | Some n \<Rightarrow>
               if ifSequenceNumberLessThanOrEqualTo h \<noteq> None \<and> the (ifSequenceNumberLessThanOrEqualTo h) < n
               then Inl getSequenceNumberConditionNotMet
               else if ifSequenceNumberLessThan h \<noteq> None \<and> the (ifSequenceNumberLessThan h) \<le> n
               then Inl getSequenceNumberConditionNotMet
               else if ifSequenceNumberEqualTo h \<noteq> None \<and> the (ifSequenceNumberEqualTo h) \<noteq> n
               then Inl getSequenceNumberConditionNotMet
               else Inr ())
      | _ \<Rightarrow> Inr ())"

section \<open>Lemmas\<close>

lemma strip_quotes_quoted [simp]: "e \<noteq> '''' \<Longrightarrow> strip_quotes (CHR 0x22 # e @ [CHR 0x22]) = e"
  by (simp add: strip_quotes_def startsWith_def endsWith_def)

lemma split_char_none: "c \<notin> set s \<Longrightarrow> split_char c s = [s]"
  by (induction s) auto

lemma etag_list_quoted:
  "e \<noteq> '''' \<Longrightarrow> CHR '','' \<notin> set e \<Longrightarrow> etag_list (Some (CHR 0x22 # e @ [CHR 0x22])) = Some [e]"
  by (simp add: etag_list_def truthy_str_def split_char_none)

definition no_conditions :: ModifiedAccessConditions where
  "no_conditions = \<lparr>mac_ifModifiedSince = None, mac_ifUnmodifiedSince = None, mac_ifMatch = None,
     mac_ifNoneMatch = None, mac_ifTags = None\<rparr>"

definition no_headers :: IConditionalHeaders where
  "no_headers = \<lparr>ifModifiedSince = None, ifUnmodifiedSince = None, ifMatch = None, ifNoneMatch = None,
     ifTags = None\<rparr>"

text \<open>An existing resource, for the witnesses.\<close>

definition sample_resource :: IConditionResource where
  "sample_resource = \<lparr>exist = True, etag = ''0x8D'', lastModified = Some (Valid 1000),
     blobItemWithTags = Some \<lparr>fb_name = ''b'', fb_containerName = Some ''c'', fb_tags = None\<rparr>\<rparr>"

definition sample_blob :: condition_model where
  "sample_blob = \<lparr>cm_isCommitted = Some True, cm_etag = CHR 0x22 # ''0x8D'' @ [CHR 0x22],
     cm_lastModified = Valid 1500, cm_name = ''b'', cm_containerName = Some ''c'', cm_blobTags = None\<rparr>"

section \<open>Properties\<close>

text \<open>
  C15: Reads of an existing resource follow the formula If-Match and If-Unmodified-Since and
  (If-None-Match or If-Modified-Since), each header counting only if it is given: a failure of the
  first two is 412, of the disjunction 304, \<open>If-None-Match: *\<close> is unsatisfiable before all of
  them, and the tag condition comes last.
\<close>

theorem read_conditions_formula:
  assumes "exist r"
  shows "ReadConditionalHeadersValidator_validate h r src =
    (if \<exists>es. ifNoneMatch h = Some es \<and> first_is es ''*'' then Inl getUnsatisfiableCondition
     else if \<not> ((\<forall>es. ifMatch h = Some es \<longrightarrow> etag r \<in> set es \<or> first_is es ''*'') \<and>
                (\<forall>d. ifUnmodifiedSince h = Some d \<longrightarrow> modified_le r d)) then Inl getConditionNotMet
     else if (ifNoneMatch h \<noteq> None \<or> ifModifiedSince h \<noteq> None) \<and>
             \<not> ((\<exists>es. ifNoneMatch h = Some es \<and> etag r \<notin> set es) \<or>
                (\<exists>d. ifModifiedSince h = Some d \<and> modified_gt r d)) then Inl getNotModified
     else validate_tags (if src = Some True then ''x-ms-source-if-tags'' else ''x-ms-if-tags'') h r)"
  using assms
  by (cases "ifMatch h"; cases "ifNoneMatch h"; cases "ifUnmodifiedSince h"; cases "ifModifiedSince h")
    (auto simp: ReadConditionalHeadersValidator_validate_def Let_def)

theorem read_conditions_formula_witness:
  "ReadConditionalHeadersValidator_validate
     (no_headers\<lparr>ifNoneMatch := Some [''0x8D''], ifModifiedSince := Some (Valid 0)\<rparr>) sample_resource None = Inr () \<and>
   ReadConditionalHeadersValidator_validate
     (no_headers\<lparr>ifNoneMatch := Some [''0x8D''], ifModifiedSince := Some (Valid 2000)\<rparr>) sample_resource None = Inl getNotModified"
proof -
  have ex: "exist sample_resource" by (simp add: sample_resource_def)
  show ?thesis
    unfolding read_conditions_formula [OF ex]
    by (simp add: no_headers_def sample_resource_def first_is_def modified_gt_def validate_tags_def truthy_str_def)
qed

text \<open>
  A write is refused with 400 exactly if one of the etag headers lists several values or two
  headers other than the pairs If-Match with If-Unmodified-Since and If-None-Match with
  If-Modified-Since are combined.
\<close>

lemma write_combinations_iff:
  "validateCombinations h =
    (if (\<exists>es. ifMatch h = Some es \<and> length es > 1) \<or> (\<exists>es. ifNoneMatch h = Some es \<and> length es > 1) \<or>
        nonempty_list (ifMatch h) \<and> (nonempty_list (ifNoneMatch h) \<or> ifModifiedSince h \<noteq> None) \<or>
        ifUnmodifiedSince h \<noteq> None \<and> (nonempty_list (ifNoneMatch h) \<or> ifModifiedSince h \<noteq> None)
     then Inl getMultipleConditionHeadersNotSupported else Inr ())"
  by (cases "ifMatch h"; cases "ifNoneMatch h"; cases "ifUnmodifiedSince h"; cases "ifModifiedSince h")
    (auto simp: validateCombinations_def nonempty_list_def Let_def)

text \<open>
  C14: Optimistic concurrency. For a committed blob with the etag \<open>e'\<close>, stored in quotes, a write
  that gives only \<open>If-Match: "e"\<close> passes exactly if the etags agree and is otherwise refused with
  412; one that gives only \<open>If-None-Match: "e"\<close> passes exactly if they differ; and a read that
  gives only \<open>If-None-Match: "e"\<close> is answered with 304 exactly if they agree.
\<close>

theorem etag_preconditions:
  assumes "cm_isCommitted m \<noteq> Some False" "cm_etag m = CHR 0x22 # e' @ [CHR 0x22]" "e' \<noteq> ''''"
    and "e \<noteq> ''''" "e \<noteq> ''*''" "CHR '','' \<notin> set e"
  shows "validateWriteConditions (no_conditions\<lparr>mac_ifMatch := Some (CHR 0x22 # e @ [CHR 0x22])\<rparr>) (Some m) =
      (if e = e' then Inr () else Inl getConditionNotMet) \<and>
    validateWriteConditions (no_conditions\<lparr>mac_ifNoneMatch := Some (CHR 0x22 # e @ [CHR 0x22])\<rparr>) (Some m) =
      (if e = e' then Inl getConditionNotMet else Inr ()) \<and>
    validateReadConditions (no_conditions\<lparr>mac_ifNoneMatch := Some (CHR 0x22 # e @ [CHR 0x22])\<rparr>) (Some m) src =
      (if e = e' then Inl getNotModified else Inr ())"
proof -
  have len: "\<not> length (cm_etag m) < 3" using assms(2,3) by (cases e') simp_all
  have none: "etag_list None = None" by (simp add: etag_list_def truthy_str_def)
  show ?thesis
    using assms len etag_list_quoted [OF assms(4,6)] none
    by (simp add: validateWriteConditions_def validateReadConditions_def ConditionResourceAdapter_def
        ConditionalHeadersAdapter_def WriteConditionalHeadersValidator_validate_def validateCombinations_def
        ReadConditionalHeadersValidator_validate_def nonempty_list_def no_conditions_def first_is_def
        validate_tags_def truthy_str_def)
qed

theorem etag_preconditions_witness:
  "validateWriteConditions (no_conditions\<lparr>mac_ifMatch := Some (CHR 0x22 # ''0x8D'' @ [CHR 0x22])\<rparr>) (Some sample_blob) = Inr () \<and>
   validateReadConditions (no_conditions\<lparr>mac_ifNoneMatch := Some (CHR 0x22 # ''0x8D'' @ [CHR 0x22])\<rparr>)
     (Some sample_blob) None = Inl getNotModified"
  using etag_preconditions [of sample_blob "''0x8D''" "''0x8D''" None] by (simp add: sample_blob_def)

text \<open>
  The condition on tags. A read of an existing resource whose only condition is \<open>ifTags\<close> passes
  exactly if the meaning of the query holds for the resource's tags, and is otherwise answered with
  412; so does a write.
\<close>

lemma if_tags_condition:
  assumes "exist r" "blobItemWithTags r = Some b" "q \<noteq> ''''"
    and "generateQueryBlobWithTagsWhereFunction (Some q) (Some ''x-ms-if-tags'') = Inr f"
    and "header_meaning q ''x-ms-if-tags'' = Some P"
  shows "ReadConditionalHeadersValidator_validate (no_headers\<lparr>ifTags := Some q\<rparr>) r None =
      (if P b then Inr () else Inl getConditionNotMet) \<and>
    WriteConditionalHeadersValidator_validate (no_headers\<lparr>ifTags := Some q\<rparr>) r =
      (if P b then Inr () else Inl getConditionNotMet)"
  using assms(1-3) if_tags.check_outcome [OF assms(4,5), of b getConditionNotMet]
  by (simp add: ReadConditionalHeadersValidator_validate_def WriteConditionalHeadersValidator_validate_def
      validateCombinations_def nonempty_list_def no_headers_def validate_tags_def truthy_str_def)

lemma parse_header_query:
  "parseQuery (''a<>'' @ quoted ''x'') (Some ''x-ms-if-tags'') = Inr (NotEqualsNode (KeyNode ''a'') (ConstantNode ''x''))"
  by code_simp

text \<open>
  A write that gives an etag or a date condition ignores its \<open>x-ms-if-tags\<close> condition: the
  outcome is the same whatever the tag condition is, even one that does not parse.
\<close>

lemma write_ignores_if_tags:
  assumes "nonempty_list (ifNoneMatch h) \<or> nonempty_list (ifMatch h) \<or> ifModifiedSince h \<noteq> None \<or>
    ifUnmodifiedSince h \<noteq> None"
  shows "WriteConditionalHeadersValidator_validate (h\<lparr>ifTags := t\<rparr>) r =
    WriteConditionalHeadersValidator_validate h r"
  using assms by (auto simp: WriteConditionalHeadersValidator_validate_def validateCombinations_def split: option.splits)

text \<open>
  The sequence number conditions of a page write pass exactly if every one that is given holds
  for the blob's sequence number; otherwise the write is refused with 412.
\<close>

lemma sequence_number_conditions_iff:
  "validateSequenceNumberWriteConditions (Some h) (Some (Some n)) =
    (if (\<forall>x. ifSequenceNumberLessThanOrEqualTo h = Some x \<longrightarrow> n \<le> x) \<and>
        (\<forall>x. ifSequenceNumberLessThan h = Some x \<longrightarrow> n < x) \<and>
        (\<forall>x. ifSequenceNumberEqualTo h = Some x \<longrightarrow> n = x)
     then Inr () else Inl getSequenceNumberConditionNotMet)"
  by (auto simp: validateSequenceNumberWriteConditions_def)

end
