(* ===== verification/Blob_Model.thy ===== *)
theory Blob_Model
  imports Loki_Collection Lease_Access Page_Ranges Conditions
begin

text \<open>
  The documents of the blob metadata store (\<open>blob/persistence/IBlobMetadataStore.ts\<close>) and the
  helpers its operations call: restoring a digest from its persisted form, access tiers, blob tags
  given as a header, and the time stamp of a snapshot.
\<close>

section \<open>Documents\<close>

datatype BlobType = BlockBlob | PageBlob | AppendBlob

text \<open>
  A digest: a byte array, or what it has become after the database was saved as JSON and loaded
  again (an object with numeric keys, bare or as the \<open>data\<close> of a \<open>Buffer\<close>); other values are not
  objects.
\<close>

datatype js_bytes =
    Uint8Array "nat list"
  | PlainObject "(nat \<times> nat) list"
  | BufferObject "(nat \<times> nat) list"
  | JsNull
  | NotAnObject

type_synonym metadata = "(string \<times> string) list"

text \<open>\<open>BlobPropertiesInternal\<close> without the three lease properties, which are in \<open>lease_doc\<close>, and
  without properties that the store carries along but neither reads nor sets.\<close>

record blob_properties =
  creationTime :: "js_date option"
  bp_lastModified :: js_date
  bp_etag :: string
  contentLength :: "int option"
  contentType :: "string option"
  contentEncoding :: "string option"
  contentLanguage :: "string option"
  contentMD5 :: "js_bytes option"
  contentDisposition :: "string option"
  cacheControl :: "string option"
  blobSequenceNumber :: "int option"
  blobType :: "BlobType option"
  copyId :: "string option"
  copyStatus :: "string option"
  copySource :: "string option"
  copyProgress :: "string option"
  copyCompletionTime :: "js_date option"
  copyStatusDescription :: "string option"
  incrementalCopy :: "bool option"
  destinationSnapshot :: "string option"
  deletedTime :: "js_date option"
  remainingRetentionDays :: "int option"
  accessTier :: "string option"
  accessTierInferred :: "bool option"
  archiveStatus :: "string option"
  accessTierChangeTime :: "js_date option"
  tagCount :: "int option"
  isSealed :: "bool option"

record PersistencyBlockModel =
  block_name :: string
  block_size :: int
  block_persistency :: IExtentChunk

record BlockModel = PersistencyBlockModel +
  block_accountName :: string
  block_containerName :: string
  block_blobName :: string
  block_isCommitted :: bool

text \<open>\<open>BlobModel\<close>. The arrays of page ranges and of committed blocks are mutable objects that two
  documents can share: a stored document holds references to them, a document passed to or
  returned by an operation holds their contents.\<close>

record ('p, 'b) BlobModel = lease_doc +
  accountName :: string
  containerName :: string
  blob_name :: string
  blob_snapshot :: string
  blob_deleted :: "bool option"
  isCommitted :: bool
  properties :: blob_properties
  blob_metadata :: "metadata option"
  blobTags :: "BlobTag list option"
  blob_persistency :: "IExtentChunk option"
  pageRangesInOrder :: "'p option"
  committedBlocksInOrder :: "'b option"

type_synonym blob_doc = "(nat, nat) BlobModel"

type_synonym blob_value = "(PersistencyPageRange list, PersistencyBlockModel list) BlobModel"

definition with_arrays ::
  "('p, 'b) BlobModel \<Rightarrow> 'q option \<Rightarrow> 'c option \<Rightarrow> ('q, 'c) BlobModel" where
  "with_arrays d ps bs =
     \<lparr>doc_leaseId = doc_leaseId d, doc_leaseDurationSeconds = doc_leaseDurationSeconds d,
      doc_leaseExpireTime = doc_leaseExpireTime d, doc_leaseBreakTime = doc_leaseBreakTime d,
      prop_leaseDuration = prop_leaseDuration d, prop_leaseState = prop_leaseState d,
      prop_leaseStatus = prop_leaseStatus d, accountName = accountName d,
      containerName = containerName d, blob_name = blob_name d, blob_snapshot = blob_snapshot d,
      blob_deleted = blob_deleted d, isCommitted = isCommitted d, properties = properties d,
      blob_metadata = blob_metadata d, blobTags = blobTags d, blob_persistency = blob_persistency d,
      pageRangesInOrder = ps, committedBlocksInOrder = bs\<rparr>"

record AccessPolicy =
  policy_start :: "string option"
  policy_expiry :: "string option"
  policy_permission :: "string option"

record SignedIdentifier =
  identifier_id :: string
  accessPolicy :: AccessPolicy

record ContainerModel = lease_doc +
  ct_accountName :: string
  ct_name :: string
  ct_metadata :: "metadata option"
  ct_lastModified :: js_date
  ct_etag :: string
  ct_publicAccess :: "string option"
  ct_containerAcl :: "SignedIdentifier list option"

section \<open>What the conditions see of a document\<close>

definition blob_condition :: "('p, 'b) BlobModel \<Rightarrow> condition_model" where
  "blob_condition d =
     \<lparr>cm_isCommitted = Some (isCommitted d), cm_etag = bp_etag (properties d),
      cm_lastModified = bp_lastModified (properties d), cm_name = blob_name d,
      cm_containerName = Some (containerName d), cm_blobTags = blobTags d\<rparr>"

definition container_condition :: "ContainerModel \<Rightarrow> condition_model" where
  "container_condition c =
     \<lparr>cm_isCommitted = None, cm_etag = ct_etag c, cm_lastModified = ct_lastModified c,
      cm_name = ct_name c, cm_containerName = None, cm_blobTags = None\<rparr>"

text \<open>Conditions that are not given are conditions without any field.\<close>

definition given_conditions :: "ModifiedAccessConditions option \<Rightarrow> ModifiedAccessConditions" where
  "given_conditions c = (case c of None \<Rightarrow> no_conditions | Some m \<Rightarrow> m)"

text \<open>\<open>modifiedAccessConditions && modifiedAccessConditions.ifNoneMatch === "*"\<close>\<close>

definition only_if_new :: "ModifiedAccessConditions option \<Rightarrow> bool" where
  "only_if_new c = (case c of None \<Rightarrow> False | Some m \<Rightarrow> mac_ifNoneMatch m = Some ''*'')"

section \<open>Helpers\<close>

fun restore_keys :: "(nat \<times> nat) list \<Rightarrow> nat list \<Rightarrow> nat list result" where
  "restore_keys obj [] = Inr []"
| "restore_keys obj (i # is) =
     (case map_of obj i of
        None \<Rightarrow> Inl TypeError
      | Some v \<Rightarrow> bind_result (restore_keys obj is) (\<lambda>vs. Inr (v # vs)))"

fun restoreUint8Array :: "js_bytes option \<Rightarrow> js_bytes option result" where
  "restoreUint8Array None = Inr None"
| "restoreUint8Array (Some NotAnObject) = Inr None"
| "restoreUint8Array (Some (Uint8Array bs)) = Inr (Some (Uint8Array bs))"
| "restoreUint8Array (Some JsNull) = Inl TypeError"
| "restoreUint8Array (Some (BufferObject obj)) =
     bind_result (restore_keys obj [0..<length obj]) (\<lambda>bs. Inr (Some (Uint8Array bs)))"
| "restoreUint8Array (Some (PlainObject obj)) =
     bind_result (restore_keys obj [0..<length obj]) (\<lambda>bs. Inr (Some (Uint8Array bs)))"

definition Hot :: string where "Hot = ''Hot''"
definition Cool :: string where "Cool = ''Cool''"
definition Archive :: string where "Archive = ''Archive''"
definition Cold :: string where "Cold = ''Cold''"

definition parseTier :: "string \<Rightarrow> string option" where
  "parseTier t =
     (let tier = toLowerCase t in
      if tier = toLowerCase Hot then Some Hot
      else if tier = toLowerCase Cool then Some Cool
      else if tier = toLowerCase Archive then Some Archive
      else if tier = toLowerCase Cold then Some Cold
      else None)"

definition getBlobTagsCount :: "BlobTag list option \<Rightarrow> int option" where
  "getBlobTagsCount tags =
     (case tags of None \<Rightarrow> None | Some ts \<Rightarrow> if ts = [] then None else Some (int (length ts)))"

text \<open>The length of \<open>Buffer.from(s, "base64")\<close>: four characters of the alphabet make three bytes,
  other characters are skipped, the padding ends the data.\<close>

definition base64_char :: "char \<Rightarrow> bool" where
  "base64_char c = (c \<in> set ''ABCDEFGHIJKLMNOPQRSTUVWXYZabcdefghijklmnopqrstuvwxyz0123456789+/-_'')"

definition base64_length :: "string \<Rightarrow> nat" where
  "base64_length s = 3 * length (filter base64_char (takeWhile (\<lambda>c. c \<noteq> CHR ''='') s)) div 4"

text \<open>\<open>Date.prototype.toISOString\<close>: the proleptic Gregorian date of a day count, days since the
  epoch counted from 1 March of the year 0.\<close>

definition pad_left :: "nat \<Rightarrow> nat \<Rightarrow> string" where
  "pad_left k n = (let s = show_nat n in replicate (k - length s) (CHR ''0'') @ s)"

definition show_int :: "int \<Rightarrow> string" where
  "show_int n = (if n < 0 then CHR ''-'' # show_nat (nat (- n)) else show_nat (nat n))"

definition civil_date :: "int \<Rightarrow> int \<times> int \<times> int" where
  "civil_date days =
     (let z = days + 719468;
          era = z div 146097;
          doe = z mod 146097;
          yoe = (doe - doe div 1460 + doe div 36524 - doe div 146096) div 365;
          doy = doe - (365 * yoe + yoe div 4 - yoe div 100);
          mp = (5 * doy + 2) div 153;
          d = doy - (153 * mp + 2) div 5 + 1;
          m = (if mp < 10 then mp + 3 else mp - 9)
      in (yoe + era * 400 + (if m \<le> 2 then 1 else 0), m, d))"

definition iso_year :: "int \<Rightarrow> string" where
  "iso_year y =
     (if 0 \<le> y \<and> y \<le> 9999 then pad_left 4 (nat y)
      else (if y < 0 then CHR ''-'' else CHR ''+'') # pad_left 6 (nat (abs y)))"

fun toISOString :: "js_date \<Rightarrow> string result" where
  "toISOString InvalidDate = Inl RangeError"
| "toISOString (Valid t) =
     (let (y, m, d) = civil_date (t div 86400000); ms = nat (t mod 86400000) in
      Inr (iso_year y @ ''-'' @ pad_left 2 (nat m) @ ''-'' @ pad_left 2 (nat d) @ ''T'' @
        pad_left 2 (ms div 3600000) @ '':'' @ pad_left 2 (ms div 60000 mod 60) @ '':'' @
        pad_left 2 (ms div 1000 mod 60) @ ''.'' @ pad_left 3 (ms mod 1000) @ ''Z''))"

text \<open>\<open>replace("Z", "0000Z")\<close> replaces the first occurrence.\<close>

fun convertDateTimeStringMsTo7Digital :: "string \<Rightarrow> string" where
  "convertDateTimeStringMsTo7Digital [] = []"
| "convertDateTimeStringMsTo7Digital (c # cs) =
     (if c = CHR ''Z'' then ''0000Z'' @ cs else c # convertDateTimeStringMsTo7Digital cs)"

section \<open>Tags given as a header\<close>

text \<open>\<open>decodeURIComponent\<close> yields UTF-16 code units; a malformed escape throws.\<close>

definition hex_digit :: "char \<Rightarrow> nat option" where
  "hex_digit c =
     (let n = of_char c :: nat in
      if 48 \<le> n \<and> n \<le> 57 then Some (n - 48)
      else if 65 \<le> n \<and> n \<le> 70 then Some (n - 55)
      else if 97 \<le> n \<and> n \<le> 102 then Some (n - 87)
      else None)"

fun percent_byte :: "string \<Rightarrow> (nat \<times> string) option" where
  "percent_byte (p # a # b # cs) =
     (if p = CHR 0x25
      then (case (hex_digit a, hex_digit b) of (Some x, Some y) \<Rightarrow> Some (16 * x + y, cs) | _ \<Rightarrow> None)
      else None)"
| "percent_byte _ = None"

fun continuation_bytes :: "nat \<Rightarrow> nat \<Rightarrow> string \<Rightarrow> (nat \<times> string) option" where
  "continuation_bytes 0 v s = Some (v, s)"
| "continuation_bytes (Suc n) v s =
     (case percent_byte s of
        None \<Rightarrow> None
      | Some (b, cs) \<Rightarrow>
          if 128 \<le> b \<and> b < 192 then continuation_bytes n (64 * v + (b - 128)) cs else None)"

text \<open>The number of continuation bytes, the payload of the first byte and the least code point
  that needs so many bytes.\<close>

definition utf8_lead :: "nat \<Rightarrow> (nat \<times> nat \<times> nat) option" where
  "utf8_lead b =
     (if b < 128 then Some (0, b, 0)
      else if 192 \<le> b \<and> b < 224 then Some (1, b - 192, 128)
      else if 224 \<le> b \<and> b < 240 then Some (2, b - 224, 2048)
      else if 240 \<le> b \<and> b < 248 then Some (3, b - 240, 65536)
      else None)"

definition utf16_units :: "nat \<Rightarrow> nat list" where
  "utf16_units v =
     (if v < 65536 then [v] else [55296 + (v - 65536) div 1024, 56320 + (v - 65536) mod 1024])"

definition percent_char :: "string \<Rightarrow> (nat list \<times> string) option" where
  "percent_char s =
     (case percent_byte s of
        None \<Rightarrow> None
      | Some (b, cs) \<Rightarrow>
         (case utf8_lead b of
            None \<Rightarrow> None
          | Some (n, v, least) \<Rightarrow>
             (case continuation_bytes n v cs of
                None \<Rightarrow> None
              | Some (u, tail) \<Rightarrow>
                  if u < least \<or> 1114111 < u \<or> (55296 \<le> u \<and> u \<le> 57343) then None
                  else Some (utf16_units u, tail))))"

lemma percent_byte_shorter: "percent_byte s = Some (b, cs) \<Longrightarrow> length cs < length s"
  by (induction s rule: percent_byte.induct) (auto split: if_splits option.splits)

lemma continuation_bytes_shorter:
  "continuation_bytes n v s = Some (u, cs) \<Longrightarrow> length cs \<le> length s"
  by (induction n v s rule: continuation_bytes.induct)
    (fastforce split: option.splits if_splits dest: percent_byte_shorter)+

lemma percent_char_shorter:
  assumes "percent_char s = Some (us, tail)"
  shows "length tail < length s"
proof -
  from assms obtain b cs n v u where "percent_byte s = Some (b, cs)"
    and "continuation_bytes n v cs = Some (u, tail)"
    by (auto simp: percent_char_def split: option.splits if_splits)
  then show ?thesis using percent_byte_shorter continuation_bytes_shorter by fastforce
qed

function decodeURIComponent :: "string \<Rightarrow> nat list result" where
  "decodeURIComponent [] = Inr []"
| "decodeURIComponent (c # cs) =
     (if c \<noteq> CHR 0x25 then bind_result (decodeURIComponent cs) (\<lambda>us. Inr (of_char c # us))
      else (case percent_char (c # cs) of
              None \<Rightarrow> Inl GenericError
            | Some (u, tail) \<Rightarrow> bind_result (decodeURIComponent tail) (\<lambda>us. Inr (u @ us))))"
  by pat_completeness auto
termination
  by (relation "measure length") (auto dest: percent_char_shorter)

definition plus_to_space :: "string \<Rightarrow> string" where
  "plus_to_space s = concat (map (\<lambda>c. if c = CHR ''+'' then [CHR 0x25, CHR ''2'', CHR ''0''] else [c]) s)"

definition ContainsInvalidTagCharacter :: "nat list \<Rightarrow> bool" where
  "ContainsInvalidTagCharacter s =
     list_ex (\<lambda>c. \<not> (97 \<le> c \<and> c \<le> 122 \<or> 65 \<le> c \<and> c \<le> 90 \<or> 48 \<le> c \<and> c \<le> 57 \<or>
       c \<in> set (map of_char '' +-./:=_''))) s"

definition validate_tag :: "nat list \<times> nat list \<Rightarrow> unit result" where
  "validate_tag tag =
     (case tag of (k, v) \<Rightarrow>
        if length k = 0 then Inl getEmptyTagName
        else if length k > 128 then Inl getTagsTooLarge
        else if length v > 256 then Inl getTagsTooLarge
        else if ContainsInvalidTagCharacter k then Inl getInvalidTag
        else if ContainsInvalidTagCharacter v then Inl getInvalidTag
        else Inr ())"

fun validate_tags_list :: "(nat list \<times> nat list) list \<Rightarrow> unit result" where
  "validate_tags_list [] = Inr ()"
| "validate_tags_list (t # ts) = bind_result (validate_tag t) (\<lambda>_. validate_tags_list ts)"

definition validateBlobTag :: "(nat list \<times> nat list) list \<Rightarrow> unit result" where
  "validateBlobTag tags = (if length tags > 10 then Inl getTagsTooLarge else validate_tags_list tags)"

definition decode_tag :: "string \<Rightarrow> (nat list \<times> nat list) result" where
  "decode_tag rawTag =
     (let tagpair = split_char (CHR ''='') rawTag in
      bind_result (decodeURIComponent (plus_to_space (hd tagpair))) (\<lambda>k.
      bind_result (case tl tagpair of [] \<Rightarrow> Inl TypeError
                   | v # _ \<Rightarrow> decodeURIComponent (plus_to_space v)) (\<lambda>v.
      Inr (k, v))))"

fun decode_tags :: "string list \<Rightarrow> (nat list \<times> nat list) list result" where
  "decode_tags [] = Inr []"
| "decode_tags (r # rs) =
     bind_result (decode_tag r) (\<lambda>t. bind_result (decode_tags rs) (\<lambda>ts. Inr (t # ts)))"

text \<open>The code units of a valid tag are ASCII characters.\<close>

definition getTagsFromString :: "string \<Rightarrow> BlobTag list option result" where
  "getTagsFromString blobTagsString =
     (if blobTagsString = '''' then Inr None
      else bind_result (decode_tags (split_char (CHR ''&'') blobTagsString)) (\<lambda>tags.
           bind_result (validateBlobTag tags) (\<lambda>_.
           Inr (Some (map (\<lambda>(k, v). \<lparr>tag_key = map char_of k, tag_value = map char_of v\<rparr>) tags)))))"

end
