(* ===== verification/Blob_Store.thy ===== *)
theory Blob_Store
  imports Blob_Model
begin

text \<open>
  \<open>blob/persistence/LokiBlobMetadataStore.ts\<close>: the containers, blobs and staged blocks of the blob
  service and every operation on them. An operation takes the collections' operations, the request
  context and its arguments, and transforms the store; the results of \<open>newEtag()\<close>, \<open>uuid()\<close> and
  \<open>new Date()\<close> are arguments.
\<close>

section \<open>State\<close>

record ('cc, 'bc, 'kc) blob_db =
  CONTAINERS_COLLECTION :: "('cc, ContainerModel) loki_collection"
  BLOBS_COLLECTION :: "('bc, blob_doc) loki_collection"
  BLOCKS_COLLECTION :: "('kc, BlockModel) loki_collection"

text \<open>The arrays that stored documents refer to are kept beside the collections, an array being
  named by its position.\<close>

record ('cc, 'bc, 'kc) blob_store =
  containers :: 'cc
  blobs :: 'bc
  blocks :: 'kc
  page_arrays :: "PersistencyPageRange list list"
  block_arrays :: "PersistencyBlockModel list list"

definition array_at :: "'a list list \<Rightarrow> nat \<Rightarrow> 'a list" where
  "array_at h a = (if a < length h then h ! a else [])"

text \<open>A stored document with the contents of its arrays.\<close>

definition blob_value :: "('cc, 'bc, 'kc) blob_store \<Rightarrow> blob_doc \<Rightarrow> blob_value" where
  "blob_value s d = with_arrays d (map_option (array_at (page_arrays s)) (pageRangesInOrder d))
     (map_option (array_at (block_arrays s)) (committedBlocksInOrder d))"

text \<open>What the calls of \<open>newEtag()\<close>, \<open>uuid()\<close> and \<open>new Date()\<close> return during a request.\<close>

record fresh =
  newEtag :: string
  uuid :: string
  newDate :: js_date

definition time_or_now :: "Context \<Rightarrow> fresh \<Rightarrow> js_date" where
  "time_or_now ctx f = (case startTime ctx of Some d \<Rightarrow> d | None \<Rightarrow> newDate f)"

section \<open>Queries\<close>

definition container_key :: "string \<Rightarrow> string \<Rightarrow> ContainerModel \<Rightarrow> bool" where
  "container_key account name c \<longleftrightarrow> ct_accountName c = account \<and> ct_name c = name"

definition blob_path :: "string \<Rightarrow> string \<Rightarrow> string \<Rightarrow> ('p, 'b) BlobModel \<Rightarrow> bool" where
  "blob_path account container name d \<longleftrightarrow>
     accountName d = account \<and> containerName d = container \<and> blob_name d = name"

definition blob_key :: "string \<Rightarrow> string \<Rightarrow> string \<Rightarrow> string \<Rightarrow> ('p, 'b) BlobModel \<Rightarrow> bool" where
  "blob_key account container name snapshot d \<longleftrightarrow>
     blob_path account container name d \<and> blob_snapshot d = snapshot"

definition block_path :: "string \<Rightarrow> string \<Rightarrow> string \<Rightarrow> BlockModel \<Rightarrow> bool" where
  "block_path account container blob b \<longleftrightarrow>
     block_accountName b = account \<and> block_containerName b = container \<and> block_blobName b = blob"

definition find_container where
  "find_container D p = read_op (\<lambda>s. findOne (CONTAINERS_COLLECTION D) (containers s) p)"

definition find_blob where
  "find_blob D p = read_op (\<lambda>s. findOne (BLOBS_COLLECTION D) (blobs s) p)"

definition find_block where
  "find_block D p = read_op (\<lambda>s. findOne (BLOCKS_COLLECTION D) (blocks s) p)"

section \<open>Updates\<close>

definition put_container where
  "put_container D i c = update_op (\<lambda>s. s\<lparr>containers := set_doc (CONTAINERS_COLLECTION D) (containers s) i c\<rparr>)"

definition insert_container where
  "insert_container D c = update_op (\<lambda>s. s\<lparr>containers := insert_doc (CONTAINERS_COLLECTION D) (containers s) c\<rparr>)"

definition put_blob where
  "put_blob D i d = update_op (\<lambda>s. s\<lparr>blobs := set_doc (BLOBS_COLLECTION D) (blobs s) i d\<rparr>)"

definition remove_blob where
  "remove_blob D i = update_op (\<lambda>s. s\<lparr>blobs := remove_doc (BLOBS_COLLECTION D) (blobs s) i\<rparr>)"

definition insert_doc_blob where
  "insert_doc_blob D d = update_op (\<lambda>s. s\<lparr>blobs := insert_doc (BLOBS_COLLECTION D) (blobs s) d\<rparr>)"

definition remove_blobs where
  "remove_blobs D p = update_op (\<lambda>s. s\<lparr>blobs := findAndRemove (BLOBS_COLLECTION D) (blobs s) p\<rparr>)"

definition remove_blocks where
  "remove_blocks D p = update_op (\<lambda>s. s\<lparr>blocks := findAndRemove (BLOCKS_COLLECTION D) (blocks s) p\<rparr>)"

text \<open>New arrays.\<close>

definition new_page_array :: "PersistencyPageRange list option \<Rightarrow> (('cc, 'bc, 'kc) blob_store, nat option) store_op" where
  "new_page_array ps s =
     (case ps of None \<Rightarrow> (Inr None, s)
      | Some rs \<Rightarrow> (Inr (Some (length (page_arrays s))), s\<lparr>page_arrays := page_arrays s @ [rs]\<rparr>))"

definition new_block_array :: "PersistencyBlockModel list option \<Rightarrow> (('cc, 'bc, 'kc) blob_store, nat option) store_op" where
  "new_block_array bs s =
     (case bs of None \<Rightarrow> (Inr None, s)
      | Some ks \<Rightarrow> (Inr (Some (length (block_arrays s))), s\<lparr>block_arrays := block_arrays s @ [ks]\<rparr>))"

text \<open>Insert a document whose arrays nobody else refers to.\<close>

definition insert_blob where
  "insert_blob D v =
     bind_op (new_page_array (pageRangesInOrder v)) (\<lambda>ps.
     bind_op (new_block_array (committedBlocksInOrder v)) (\<lambda>bs.
     insert_doc_blob D (with_arrays v ps bs)))"

section \<open>Containers\<close>

definition checkContainerExist where
  "checkContainerExist D account container =
     bind_op (find_container D (container_key account container)) (\<lambda>doc.
     if doc = None then throw getContainerNotFound else return ())"

definition createContainer where
  "createContainer D container =
     bind_op (find_container D (container_key (ct_accountName container) (ct_name container))) (\<lambda>doc.
     if doc \<noteq> None then throw getContainerAlreadyExists
     else bind_op (insert_container D container) (\<lambda>_. return container))"

text \<open>\<open>createLeaseState(new ContainerLeaseAdapter(doc), context).sync(new ContainerLeaseSyncer(doc))\<close>\<close>

definition container_observe_chain :: "Context \<Rightarrow> ContainerModel \<Rightarrow> ContainerModel result" where
  "container_observe_chain ctx doc =
     bind_result (ContainerLeaseAdapter doc) (\<lambda>l.
     bind_result (createLeaseState l ctx) (\<lambda>s.
     Inr (LeaseStateBase_sync (ContainerLeaseSyncer_sync doc) s)))"

definition getContainerWithLeaseUpdated where
  "getContainerWithLeaseUpdated D account container ctx forceExist =
     bind_op (find_container D (container_key account container)) (\<lambda>doc.
     case doc of
       None \<Rightarrow> if forceExist \<noteq> Some False then throw getContainerNotFound else return None
     | Some (i, c) \<Rightarrow>
         bind_op (lift_result (container_observe_chain ctx c)) (\<lambda>c'.
         bind_op (put_container D i c') (\<lambda>_. return (Some (i, c')))))"

definition getContainer where
  "getContainer D account container forceExist =
     bind_op (find_container D (container_key account container)) (\<lambda>doc.
     case doc of
       None \<Rightarrow> if forceExist = Some True then throw getContainerNotFound else return None
     | Some x \<Rightarrow> return (Some x))"

text \<open>The documents of the readers are found with \<open>forceExist\<close> left out.\<close>

definition readable_container where
  "readable_container D account container ctx leaseAccessConditions =
     bind_op (getContainerWithLeaseUpdated D account container ctx None) (\<lambda>doc.
     bind_op (lift_result (case doc of None \<Rightarrow> Inl TypeError | Some (i, c) \<Rightarrow>
        bind_result (ContainerLeaseAdapter c) (ContainerReadLeaseValidator_validate leaseAccessConditions))) (\<lambda>_.
     return (snd (the doc))))"

definition getContainerProperties where
  "getContainerProperties D ctx account container leaseAccessConditions =
     readable_container D account container ctx leaseAccessConditions"

definition getContainerACL where
  "getContainerACL D ctx account container leaseAccessConditions =
     bind_op (readable_container D account container ctx leaseAccessConditions) (\<lambda>c.
     return (c, ct_containerAcl c))"

text \<open>The steps that the operations on an existing container start with.\<close>

definition existing_container where
  "existing_container lookup mac =
     bind_op lookup (\<lambda>doc.
     bind_op (lift_result (validateWriteConditions (given_conditions mac)
        (map_option (container_condition \<circ> snd) doc))) (\<lambda>_.
     case doc of None \<Rightarrow> throw getContainerNotFound | Some x \<Rightarrow> return x))"

definition deleteContainer where
  "deleteContainer D ctx account container leaseAccessConditions mac =
     bind_op (existing_container (getContainerWithLeaseUpdated D account container ctx (Some False)) mac) (\<lambda>(i, c).
     bind_op (lift_result (bind_result (ContainerLeaseAdapter c)
        (ContainerDeleteLeaseValidator_validate leaseAccessConditions))) (\<lambda>_.
     bind_op (update_op (\<lambda>s. s\<lparr>containers := remove_doc (CONTAINERS_COLLECTION D) (containers s) i\<rparr>)) (\<lambda>_.
     bind_op (remove_blobs D (\<lambda>d. accountName d = account \<and> containerName d = container)) (\<lambda>_.
     remove_blocks D (\<lambda>b. block_accountName b = account \<and> block_containerName b = container)))))"

definition setContainerMetadata where
  "setContainerMetadata D ctx account container modified tag metadata leaseAccessConditions mac =
     bind_op (existing_container (getContainerWithLeaseUpdated D account container ctx (Some False)) mac) (\<lambda>(i, c).
     bind_op (lift_result (bind_result (ContainerLeaseAdapter c)
        (ContainerReadLeaseValidator_validate leaseAccessConditions))) (\<lambda>_.
     put_container D i (c\<lparr>ct_lastModified := modified, ct_etag := tag, ct_metadata := metadata\<rparr>)))"

record SetContainerAccessPolicyOptions =
  acl_lastModified :: js_date
  acl_etag :: string
  acl_containerAcl :: "SignedIdentifier list option"
  acl_publicAccess :: "string option"
  acl_leaseAccessConditions :: "LeaseAccessConditions option"
  acl_modifiedAccessConditions :: "ModifiedAccessConditions option"

definition setContainerACL where
  "setContainerACL D ctx account container setAclModel =
     bind_op (existing_container (getContainerWithLeaseUpdated D account container ctx (Some False))
        (acl_modifiedAccessConditions setAclModel)) (\<lambda>(i, c).
     bind_op (lift_result (bind_result (ContainerLeaseAdapter c)
        (ContainerReadLeaseValidator_validate (acl_leaseAccessConditions setAclModel)))) (\<lambda>_.
     put_container D i (c\<lparr>ct_publicAccess := acl_publicAccess setAclModel,
        ct_containerAcl := acl_containerAcl setAclModel,
        ct_lastModified := acl_lastModified setAclModel, ct_etag := acl_etag setAclModel\<rparr>)))"

text \<open>The five lease requests on a container differ in the lease operation and in the response.\<close>

definition container_lease_request where
  "container_lease_request D ctx account container mac op =
     bind_op (existing_container (getContainer D account container (Some False)) mac) (\<lambda>(i, c).
     bind_op (lift_result (container_lease_chain ctx op c)) (\<lambda>c'.
     bind_op (put_container D i c') (\<lambda>_. return c')))"

definition acquireContainerLease where
  "acquireContainerLease D ctx f account container duration proposedLeaseId mac =
     bind_op (container_lease_request D ctx account container mac (Acquire duration proposedLeaseId (uuid f))) (\<lambda>c.
     return (c, doc_leaseId c))"

definition releaseContainerLease where
  "releaseContainerLease D ctx account container lid mac =
     container_lease_request D ctx account container mac (Release lid)"

definition renewContainerLease where
  "renewContainerLease D ctx account container lid mac =
     bind_op (container_lease_request D ctx account container mac (Renew lid)) (\<lambda>c.
     return (c, doc_leaseId c))"

definition changeContainerLease where
  "changeContainerLease D ctx account container lid proposedLeaseId mac =
     bind_op (container_lease_request D ctx account container mac (Change lid proposedLeaseId)) (\<lambda>c.
     return (c, doc_leaseId c))"

text \<open>The seconds until the lease is broken, rounded: \<open>Math.round\<close> of a quotient by 1000. An invalid
  date makes the result \<open>NaN\<close>, here \<open>None\<close>.\<close>

definition lease_time_seconds :: "Context \<Rightarrow> 'a lease_doc_scheme \<Rightarrow> int option" where
  "lease_time_seconds ctx d =
     (if prop_leaseState d = Some Breaking \<and> doc_leaseBreakTime d \<noteq> None
      then (case (the (doc_leaseBreakTime d), ctx_now ctx) of
              (Valid b, Valid t) \<Rightarrow> Some ((b - t + 500) div 1000)
            | _ \<Rightarrow> None)
      else Some 0)"

definition breakContainerLease where
  "breakContainerLease D ctx account container breakPeriod mac =
     bind_op (container_lease_request D ctx account container mac (Break breakPeriod)) (\<lambda>c.
     return (c, lease_time_seconds ctx c))"

end
