(* ===== verification/Blob_Operations.thy ===== *)
theory Blob_Operations
  imports Blob_Store
begin

text \<open>
  The operations of \<open>LokiBlobMetadataStore\<close> on blobs, snapshots and blocks. A document found in the
  collection is an object: each change of it is written to the store at once, whatever happens
  later in the operation.
\<close>

section \<open>Finding a blob\<close>

text \<open>The lease of a blob is brought up to date (\<open>BlobLeaseAdapter\<close> fills in missing fields first);
  a snapshot has none.\<close>

definition refresh_lease where
  "refresh_lease D ctx snapshot i d =
     (if snapshot \<noteq> ''''
      then bind_op (put_blob D i (BlobLeaseSyncer_sync d available_lease)) (\<lambda>_.
           return (BlobLeaseSyncer_sync d available_lease))
      else bind_op (put_blob D i (blob_lease_defaults d)) (\<lambda>_.
           bind_op (lift_result (blob_observe_chain ctx d)) (\<lambda>d'.
           bind_op (put_blob D i d') (\<lambda>_. return d'))))"

definition set_contentMD5 :: "js_bytes option \<Rightarrow> blob_doc \<Rightarrow> blob_doc" where
  "set_contentMD5 md5 d = d\<lparr>properties := (properties d)\<lparr>contentMD5 := md5\<rparr>\<rparr>"

definition restore_blob where
  "restore_blob D i d =
     bind_op (lift_result (restoreUint8Array (contentMD5 (properties d)))) (\<lambda>md5.
     bind_op (put_blob D i (set_contentMD5 md5 d)) (\<lambda>_. return (set_contentMD5 md5 d)))"

definition default_snapshot :: "string option \<Rightarrow> string" where
  "default_snapshot s = (case s of None \<Rightarrow> '''' | Some t \<Rightarrow> t)"

definition getBlobWithLeaseUpdated where
  "getBlobWithLeaseUpdated D account container blob snapshot ctx forceExist forceCommitted =
     bind_op (checkContainerExist D account container) (\<lambda>_.
     bind_op (find_blob D (blob_key account container blob (default_snapshot snapshot))) (\<lambda>doc.
     case doc of
       None \<Rightarrow> if forceExist \<noteq> Some False then throw getBlobNotFound else return None
     | Some (i, d) \<Rightarrow>
         if forceCommitted \<and> \<not> isCommitted d
         then (if forceExist \<noteq> Some False then throw getBlobNotFound else return None)
         else bind_op (restore_blob D i d) (\<lambda>d1.
              bind_op (refresh_lease D ctx (default_snapshot snapshot) i d1) (\<lambda>d2.
              return (Some (i, d2))))))"

definition getBlob where
  "getBlob D account container blob snapshot =
     bind_op (find_blob D (blob_key account container blob (default_snapshot snapshot))) (\<lambda>doc.
     case doc of
       None \<Rightarrow> return None
     | Some (i, d) \<Rightarrow> bind_op (restore_blob D i d) (\<lambda>d1. return (Some (i, d1))))"

definition checkBlobExist where
  "checkBlobExist D account container blob snapshot =
     bind_op (checkContainerExist D account container) (\<lambda>_.
     bind_op (find_blob D (blob_key account container blob (default_snapshot snapshot))) (\<lambda>doc.
     if doc = None then throw getBlobNotFound else return ()))"

definition getBlobType where
  "getBlobType D account container blob snapshot =
     bind_op (find_blob D (blob_key account container blob (default_snapshot snapshot))) (\<lambda>doc.
     return (map_option (\<lambda>(i, d). (blobType (properties d), isCommitted d)) doc))"

section \<open>The steps that reads and writes share\<close>

text \<open>Conditions first, then whether there is such a blob.\<close>

definition readable_blob where
  "readable_blob lookup mac isSourceBlob =
     bind_op lookup (\<lambda>doc.
     bind_op (lift_result (validateReadConditions (given_conditions mac)
        (map_option (blob_condition \<circ> snd) doc) isSourceBlob)) (\<lambda>_.
     case doc of None \<Rightarrow> throw getBlobNotFound | Some x \<Rightarrow> return x))"

definition writable_blob where
  "writable_blob lookup mac =
     bind_op lookup (\<lambda>doc.
     bind_op (lift_result (validateWriteConditions (given_conditions mac)
        (map_option (blob_condition \<circ> snd) doc))) (\<lambda>_.
     case doc of None \<Rightarrow> throw getBlobNotFound | Some x \<Rightarrow> return x))"

text \<open>\<open>new BlobReadLeaseValidator(c).validate(new BlobLeaseAdapter(doc), context)\<close> and the same
  for writes: the adapter fills in missing lease fields of the document.\<close>

definition check_read_lease where
  "check_read_lease D c i d =
     (let (l, d') = BlobLeaseAdapter d in
      bind_op (put_blob D i d') (\<lambda>_.
      bind_op (lift_result (BlobReadLeaseValidator_validate c l)) (\<lambda>_. return d')))"

definition check_write_lease where
  "check_write_lease D c i d =
     (let (l, d') = BlobLeaseAdapter d in
      bind_op (put_blob D i d') (\<lambda>_.
      bind_op (lift_result (BlobWriteLeaseValidator_validate c l)) (\<lambda>_. return (l, d'))))"

text \<open>The blob itself, committed.\<close>

definition committed_blob where
  "committed_blob D ctx account container blob snapshot =
     getBlobWithLeaseUpdated D account container blob snapshot ctx (Some False) True"

definition any_blob where
  "any_blob D ctx account container blob snapshot =
     getBlobWithLeaseUpdated D account container blob snapshot ctx (Some False) False"

definition store_blob where
  "store_blob D i d = bind_op (put_blob D i d) (\<lambda>_. return (properties d))"

text \<open>\<open>doc.properties.etag = newEtag(); doc.properties.lastModified = context.startTime || new Date()\<close>\<close>

definition touch :: "Context \<Rightarrow> fresh \<Rightarrow> blob_doc \<Rightarrow> blob_doc" where
  "touch ctx f d = d\<lparr>properties := (properties d)\<lparr>bp_etag := newEtag f, bp_lastModified := time_or_now ctx f\<rparr>\<rparr>"

section \<open>Creating and reading blobs\<close>

definition createBlob where
  "createBlob D ctx blob leaseAccessConditions mac =
     bind_op (checkContainerExist D (accountName blob) (containerName blob)) (\<lambda>_.
     bind_op (find_blob D (blob_key (accountName blob) (containerName blob) (blob_name blob)
        (blob_snapshot blob))) (\<lambda>blobDoc.
     bind_op (lift_result (validateWriteConditions (given_conditions mac)
        (map_option (blob_condition \<circ> snd) blobDoc))) (\<lambda>_.
     if only_if_new mac \<and> blobDoc \<noteq> None then throw getBlobAlreadyExists
     else case blobDoc of
       None \<Rightarrow> insert_blob D blob
     | Some (i, d) \<Rightarrow>
         (let (l, d') = BlobLeaseAdapter d in
          bind_op (put_blob D i d') (\<lambda>_.
          bind_op (lift_result (createLeaseState l ctx)) (\<lambda>st.
          bind_op (lift_result (LeaseStateBase_validate
             (BlobWriteLeaseValidator_validate leaseAccessConditions) st)) (\<lambda>st'.
          if accessTier (properties d') = Some Archive then throw getBlobArchived
          else bind_op (remove_blob D i) (\<lambda>_.
               insert_blob D (LeaseStateBase_sync (BlobWriteLeaseSyncer_sync blob) st')))))))))"

text \<open>The object literal of \<open>createSnapshot\<close>; the arrays are copied with \<open>slice\<close>.\<close>

definition snapshot_value :: "string \<Rightarrow> metadata option \<Rightarrow> blob_value \<Rightarrow> blob_value" where
  "snapshot_value snapshotTime metadata v =
     BlobLeaseSyncer_sync (v\<lparr>blob_deleted := Some False, blob_snapshot := snapshotTime,
       blob_metadata := (case metadata of Some md \<Rightarrow> Some md
                         | None \<Rightarrow> Some (case blob_metadata v of None \<Rightarrow> [] | Some md \<Rightarrow> md))\<rparr>)
       undefined_lease"

definition createSnapshot where
  "createSnapshot D ctx account container blob leaseAccessConditions metadata mac =
     bind_op (readable_blob (committed_blob D ctx account container blob None) mac None) (\<lambda>(i, d).
     bind_op (check_read_lease D leaseAccessConditions i d) (\<lambda>d'.
     bind_op (lift_result (case startTime ctx of None \<Rightarrow> Inl TypeError | Some t \<Rightarrow> toISOString t)) (\<lambda>iso.
     bind_op (read_op (\<lambda>s. snapshot_value (convertDateTimeStringMsTo7Digital iso) metadata
        (blob_value s d'))) (\<lambda>snapshotBlob.
     bind_op (insert_blob D snapshotBlob) (\<lambda>_.
     return (properties snapshotBlob, convertDateTimeStringMsTo7Digital iso))))))"

definition downloadBlob where
  "downloadBlob D ctx account container blob snapshot leaseAccessConditions mac =
     bind_op (readable_blob (committed_blob D ctx account container blob snapshot) mac None) (\<lambda>(i, d).
     bind_op (check_read_lease D leaseAccessConditions i d) (\<lambda>d'.
     read_op (\<lambda>s. blob_value s d')))"

definition committed_count :: "blob_value \<Rightarrow> int option" where
  "committed_count v =
     (if blobType (properties v) = Some AppendBlob
      then Some (int (length (case committedBlocksInOrder v of None \<Rightarrow> [] | Some bs \<Rightarrow> bs)))
      else None)"

definition getBlobProperties where
  "getBlobProperties D ctx account container blob snapshot leaseAccessConditions mac =
     bind_op (readable_blob (committed_blob D ctx account container blob snapshot) mac None) (\<lambda>(i, d).
     bind_op (check_read_lease D leaseAccessConditions i d) (\<lambda>d'.
     let d'' = d'\<lparr>properties := (properties d')\<lparr>tagCount := getBlobTagsCount (blobTags d')\<rparr>\<rparr> in
     bind_op (put_blob D i d'') (\<lambda>_.
     read_op (\<lambda>s. (properties d'', blob_metadata d'', committed_count (blob_value s d''))))))"

section \<open>Deleting\<close>

datatype DeleteSnapshotsOptionType = Include | Only

definition deleteBlob where
  "deleteBlob D ctx account container blob snapshot deleteSnapshots leaseAccessConditions mac =
     bind_op (checkContainerExist D account container) (\<lambda>_.
     bind_op (writable_blob (any_blob D ctx account container blob snapshot) mac) (\<lambda>(i, d).
     let againstBaseBlob = (blob_snapshot d = '''') in
     if \<not> againstBaseBlob \<and> deleteSnapshots \<noteq> None
     then throw (getInvalidOperation ''Invalid operation against a blob snapshot.'')
     else bind_op (check_write_lease D leaseAccessConditions i d) (\<lambda>_.
     if againstBaseBlob \<and> deleteSnapshots = None
     then bind_op (read_op (\<lambda>s. count_docs (BLOBS_COLLECTION D) (blobs s)
            (blob_path account container blob))) (\<lambda>n.
          if n > 1 then throw getSnapshotsPresent
          else remove_blobs D (blob_path account container blob))
     else if \<not> againstBaseBlob
     then remove_blobs D (blob_key account container blob (blob_snapshot d))
     else if deleteSnapshots = Some Include
     then remove_blobs D (blob_path account container blob)
     else remove_blobs D (\<lambda>e. blob_path account container blob e \<and> '''' < blob_snapshot e))))"

section \<open>Headers, metadata, tags, tier\<close>

record BlobHTTPHeaders =
  blobCacheControl :: "string option"
  blobContentType :: "string option"
  blobContentMD5 :: "js_bytes option"
  blobContentEncoding :: "string option"
  blobContentLanguage :: "string option"
  blobContentDisposition :: "string option"

definition set_headers :: "BlobHTTPHeaders option \<Rightarrow> blob_properties \<Rightarrow> blob_properties" where
  "set_headers h p =
     (case h of
        None \<Rightarrow> p
      | Some b \<Rightarrow> p\<lparr>cacheControl := blobCacheControl b, contentType := blobContentType b,
          contentMD5 := blobContentMD5 b, contentEncoding := blobContentEncoding b,
          contentLanguage := blobContentLanguage b, contentDisposition := blobContentDisposition b\<rparr>)"

definition setBlobHTTPHeaders where
  "setBlobHTTPHeaders D ctx f account container blob leaseAccessConditions blobHTTPHeaders mac =
     bind_op (writable_blob (committed_blob D ctx account container blob None) mac) (\<lambda>(i, d).
     bind_op (check_write_lease D leaseAccessConditions i d) (\<lambda>(l, d').
     store_blob D i (BlobWriteLeaseSyncer_sync
       (touch ctx f (d'\<lparr>properties := set_headers blobHTTPHeaders (properties d')\<rparr>)) l)))"

definition setBlobMetadata where
  "setBlobMetadata D ctx f account container blob leaseAccessConditions metadata mac =
     bind_op (writable_blob (committed_blob D ctx account container blob None) mac) (\<lambda>(i, d).
     bind_op (check_write_lease D leaseAccessConditions i d) (\<lambda>(l, d').
     store_blob D i (touch ctx f ((BlobWriteLeaseSyncer_sync d' l)\<lparr>blob_metadata := metadata\<rparr>))))"

text \<open>The conditions that \<open>setBlobTag\<close> is given are not checked.\<close>

definition setBlobTag where
  "setBlobTag D ctx account container blob snapshot leaseAccessConditions tags mac =
     bind_op (committed_blob D ctx account container blob snapshot) (\<lambda>doc.
     case doc of
       None \<Rightarrow> throw getBlobNotFound
     | Some (i, d) \<Rightarrow>
         bind_op (check_write_lease D leaseAccessConditions i d) (\<lambda>(l, d').
         put_blob D i ((BlobWriteLeaseSyncer_sync d' l)\<lparr>blobTags := tags\<rparr>)))"

definition getBlobTag where
  "getBlobTag D ctx account container blob snapshot leaseAccessConditions mac =
     bind_op (readable_blob (committed_blob D ctx account container blob snapshot) mac None) (\<lambda>(i, d).
     bind_op (check_read_lease D leaseAccessConditions i d) (\<lambda>d'. return (blobTags d')))"

definition setTier where
  "setTier D ctx account container blob tier leaseAccessConditions =
     bind_op (getBlobWithLeaseUpdated D account container blob None ctx (Some True) True) (\<lambda>doc.
     case doc of
       None \<Rightarrow> throw TypeError
     | Some (i, d) \<Rightarrow>
         bind_op (check_write_lease D leaseAccessConditions i d) (\<lambda>(l, d').
         if blob_snapshot d' \<noteq> '''' then throw getBlobSnapshotsPresent
         else if tier \<in> {Archive, Cool, Hot, Cold} \<and> blobType (properties d') = Some BlockBlob
         then
          (let responseCode = (if accessTier (properties d') = Some Archive \<and> tier \<in> {Cool, Hot, Cold}
                               then 202 else 200 :: nat);
               d'' = d'\<lparr>properties := (properties d')\<lparr>accessTier := Some tier,
                 accessTierInferred := Some False, accessTierChangeTime := startTime ctx\<rparr>\<rparr> in
           bind_op (put_blob D i (BlobWriteLeaseSyncer_sync d'' l)) (\<lambda>_. return responseCode))
         else throw getAccessTierNotSupportedForBlobType))"

definition sealBlob where
  "sealBlob D ctx f account container blob leaseAccessConditions mac =
     bind_op (writable_blob (getBlob D account container blob None) mac) (\<lambda>(i, d).
     if blobType (properties d) \<noteq> Some AppendBlob then throw getBlobInvalidBlobType
     else bind_op (check_write_lease D leaseAccessConditions i d) (\<lambda>(l, d').
          let d'' = BlobWriteLeaseSyncer_sync d' l in
          store_blob D i (d''\<lparr>properties := (properties d'')\<lparr>isSealed := Some True,
            bp_lastModified := ctx_now ctx, bp_etag := newEtag f\<rparr>\<rparr>)))"

section \<open>Leases\<close>

text \<open>\<open>createLeaseState(new BlobLeaseAdapter(doc), context).op(...).sync(new BlobLeaseSyncer(doc))\<close>
  on a blob, committed or not.\<close>

definition blob_lease_request where
  "blob_lease_request D ctx account container blob mac op =
     bind_op (writable_blob (any_blob D ctx account container blob None) mac) (\<lambda>(i, d).
     if blob_snapshot d \<noteq> '''' then throw getBlobSnapshotsPresent
     else bind_op (put_blob D i (blob_lease_defaults d)) (\<lambda>_.
          bind_op (lift_result (blob_lease_chain ctx op d)) (\<lambda>d'.
          bind_op (put_blob D i d') (\<lambda>_. return d'))))"

definition acquireBlobLease where
  "acquireBlobLease D ctx f account container blob duration proposedLeaseId mac =
     bind_op (blob_lease_request D ctx account container blob mac (Acquire duration proposedLeaseId (uuid f))) (\<lambda>d.
     return (properties d, doc_leaseId d))"

definition releaseBlobLease where
  "releaseBlobLease D ctx account container blob lid mac =
     bind_op (blob_lease_request D ctx account container blob mac (Release lid)) (\<lambda>d.
     return (properties d))"

definition renewBlobLease where
  "renewBlobLease D ctx account container blob lid mac =
     bind_op (blob_lease_request D ctx account container blob mac (Renew lid)) (\<lambda>d.
     return (properties d, doc_leaseId d))"

definition changeBlobLease where
  "changeBlobLease D ctx account container blob lid proposedLeaseId mac =
     bind_op (blob_lease_request D ctx account container blob mac (Change lid proposedLeaseId)) (\<lambda>d.
     return (properties d, doc_leaseId d))"

definition breakBlobLease where
  "breakBlobLease D ctx account container blob breakPeriod mac =
     bind_op (blob_lease_request D ctx account container blob mac (Break breakPeriod)) (\<lambda>d.
     return (properties d, lease_time_seconds ctx d))"

section \<open>Copying\<close>

record BlobId =
  id_account :: string
  id_container :: string
  id_blob :: string
  id_snapshot :: "string option"

definition copy_progress :: "blob_properties \<Rightarrow> string option" where
  "copy_progress p =
     (case contentLength p of
        None \<Rightarrow> None
      | Some n \<Rightarrow> if n = 0 then None else Some (show_int n @ ''/'' @ show_int n))"

text \<open>The properties of the copy: those of the source with the times, the etag, the copy and the
  retention properties replaced.\<close>

definition copied_properties :: "Context \<Rightarrow> fresh \<Rightarrow> string \<Rightarrow> blob_properties \<Rightarrow> blob_properties" where
  "copied_properties ctx f source p =
     p\<lparr>creationTime := Some (ctx_now ctx), bp_lastModified := ctx_now ctx, bp_etag := newEtag f,
       copyId := Some (uuid f), copyStatus := Some ''success'', copySource := Some source,
       copyProgress := copy_progress p, copyCompletionTime := startTime ctx,
       copyStatusDescription := None, incrementalCopy := Some False, destinationSnapshot := None,
       deletedTime := None, remainingRetentionDays := None, archiveStatus := None,
       accessTierChangeTime := None\<rparr>"

text \<open>The object literal: the arrays are those of the source document, not copies.\<close>

definition copied_blob ::
  "blob_doc \<Rightarrow> blob_doc option \<Rightarrow> BlobId \<Rightarrow> blob_properties \<Rightarrow> metadata option \<Rightarrow> BlobTag list option \<Rightarrow> blob_doc" where
  "copied_blob source dest destination props metadata tags =
     \<lparr>doc_leaseId = (case dest of None \<Rightarrow> None | Some d \<Rightarrow> doc_leaseId d),
      doc_leaseDurationSeconds = (case dest of None \<Rightarrow> None | Some d \<Rightarrow> doc_leaseDurationSeconds d),
      doc_leaseExpireTime = (case dest of None \<Rightarrow> None | Some d \<Rightarrow> doc_leaseExpireTime d),
      doc_leaseBreakTime = (case dest of None \<Rightarrow> None | Some d \<Rightarrow> doc_leaseBreakTime d),
      prop_leaseDuration = (case dest of None \<Rightarrow> None | Some d \<Rightarrow> prop_leaseDuration d),
      prop_leaseState = (case dest of None \<Rightarrow> Some Available | Some d \<Rightarrow> prop_leaseState d),
      prop_leaseStatus = (case dest of None \<Rightarrow> Some Unlocked | Some d \<Rightarrow> prop_leaseStatus d),
      accountName = id_account destination, containerName = id_container destination,
      blob_name = id_blob destination, blob_snapshot = '''', blob_deleted = Some False,
      isCommitted = isCommitted source, properties = props,
      blob_metadata = (case metadata of
          Some (e # es) \<Rightarrow> metadata
        | _ \<Rightarrow> Some (case blob_metadata source of None \<Rightarrow> [] | Some md \<Rightarrow> md)),
      blobTags = tags, blob_persistency = blob_persistency source,
      pageRangesInOrder = pageRangesInOrder source,
      committedBlocksInOrder = committedBlocksInOrder source\<rparr>"

text \<open>The access tier given with a copy: only for block blobs, and a known one.\<close>

definition copied_tier :: "string option \<Rightarrow> blob_doc \<Rightarrow> blob_doc result" where
  "copied_tier tier copied =
     (case tier of
        None \<Rightarrow> Inr copied
      | Some t \<Rightarrow>
          if blobType (properties copied) = Some BlockBlob
          then (case parseTier t of
                  None \<Rightarrow> Inl getInvalidHeaderValue
                | Some a \<Rightarrow> Inr (copied\<lparr>properties := (properties copied)\<lparr>accessTier := Some a\<rparr>\<rparr>))
          else if blobType (properties copied) = Some PageBlob then Inl getInvalidHeaderValue
          else Inr copied)"

definition finish_copy where
  "finish_copy D destBlob copiedBlob =
     bind_op (case destBlob of None \<Rightarrow> return () | Some (j, _) \<Rightarrow> remove_blob D j) (\<lambda>_.
     bind_op (insert_doc_blob D copiedBlob) (\<lambda>_. return (properties copiedBlob)))"

text \<open>The source with its conditions, then the destination with its own.\<close>

definition copy_source where
  "copy_source D ctx source mac isSourceBlob =
     bind_op (getBlobWithLeaseUpdated D (id_account source) (id_container source) (id_blob source)
        (id_snapshot source) ctx (Some True) True) (\<lambda>doc.
     bind_op (lift_result (validateReadConditions (given_conditions mac)
        (map_option (blob_condition \<circ> snd) doc) isSourceBlob)) (\<lambda>_.
     return doc))"

definition copy_destination where
  "copy_destination D ctx destination mac =
     bind_op (any_blob D ctx (id_account destination) (id_container destination)
        (id_blob destination) None) (\<lambda>doc.
     bind_op (lift_result (validateWriteConditions (given_conditions mac)
        (map_option (blob_condition \<circ> snd) doc))) (\<lambda>_.
     if only_if_new mac \<and> doc \<noteq> None then throw getBlobAlreadyExists
     else return doc))"

definition startCopyFromURL where
  "startCopyFromURL D ctx f source destination sourceUrl metadata tier sourceMac mac
       leaseAccessConditions isSealedOption blobTagsString =
     bind_op (copy_source D ctx source sourceMac (Some True)) (\<lambda>sourceBlob.
     bind_op (copy_destination D ctx destination mac) (\<lambda>destBlob.
     bind_op (case destBlob of
        None \<Rightarrow> return None
      | Some (j, e) \<Rightarrow> bind_op (check_write_lease D leaseAccessConditions j e) (\<lambda>(l, e').
          return (Some (j, e')))) (\<lambda>dest.
     case sourceBlob of
       None \<Rightarrow> throw getBlobNotFound
     | Some (i, _) \<Rightarrow>
         bind_op (read_op (\<lambda>s. get_doc (BLOBS_COLLECTION D) (blobs s) i)) (\<lambda>current.
         case current of None \<Rightarrow> throw getBlobNotFound | Some src \<Rightarrow>
         if blob_deleted src = Some True \<or> \<not> isCommitted src then throw getBlobNotFound
         else if accessTier (properties src) = Some Archive \<and>
           (tier = None \<or> id_account source \<noteq> id_account destination) then throw getBlobArchived
         else bind_op (checkContainerExist D (id_account destination) (id_container destination)) (\<lambda>_.
              bind_op (lift_result (case blobTagsString of None \<Rightarrow> Inr None
                 | Some t \<Rightarrow> getTagsFromString t)) (\<lambda>tags.
              let props = copied_properties ctx f sourceUrl (properties src);
                  props' = (if blobType (properties src) = Some AppendBlob
                            then props\<lparr>isSealed := isSealedOption\<rparr> else props) in
              bind_op (lift_result (copied_tier tier
                 (copied_blob src (map_option snd dest) destination props' metadata tags))) (\<lambda>copied.
              finish_copy D dest copied)))))))"

text \<open>\<open>copyFromURL\<close> writes the lease of the destination back before it checks it, does not check the
  tags of the source and can copy them.\<close>

definition copyFromURL where
  "copyFromURL D ctx f source destination sourceUrl metadata tier sourceMac mac
       leaseAccessConditions copySourceTags blobTagsString =
     bind_op (copy_source D ctx source (map_option (\<lambda>m. m\<lparr>mac_ifTags := None\<rparr>) sourceMac) None) (\<lambda>sourceBlob.
     bind_op (copy_destination D ctx destination mac) (\<lambda>destBlob.
     bind_op (case destBlob of
        None \<Rightarrow> return None
      | Some (j, e) \<Rightarrow>
         (let (l, e') = BlobLeaseAdapter e; e'' = BlobWriteLeaseSyncer_sync e' l in
          bind_op (put_blob D j e'') (\<lambda>_.
          bind_op (lift_result (BlobWriteLeaseValidator_validate leaseAccessConditions l)) (\<lambda>_.
          return (Some (j, e''))))) ) (\<lambda>dest.
     case sourceBlob of
       None \<Rightarrow> throw getBlobNotFound
     | Some (i, _) \<Rightarrow>
         bind_op (read_op (\<lambda>s. get_doc (BLOBS_COLLECTION D) (blobs s) i)) (\<lambda>current.
         case current of None \<Rightarrow> throw getBlobNotFound | Some src \<Rightarrow>
         if blob_deleted src = Some True \<or> \<not> isCommitted src then throw getBlobNotFound
         else if accessTier (properties src) = Some Archive then throw getBlobArchived
         else bind_op (checkContainerExist D (id_account destination) (id_container destination)) (\<lambda>_.
              bind_op (lift_result (if copySourceTags = Some ''COPY'' then Inr (blobTags src)
                 else case blobTagsString of None \<Rightarrow> Inr None | Some t \<Rightarrow> getTagsFromString t)) (\<lambda>tags.
              bind_op (lift_result (copied_tier tier
                 (copied_blob src (map_option snd dest) destination
                    (copied_properties ctx f sourceUrl (properties src)) metadata tags))) (\<lambda>copied.
              finish_copy D dest copied)))))))"

section \<open>Blocks\<close>

text \<open>The object literal for a blob that exists only through its staged blocks.\<close>

definition uncommitted_blob :: "Context \<Rightarrow> fresh \<Rightarrow> BlockModel \<Rightarrow> blob_value" where
  "uncommitted_blob ctx f b =
     \<lparr>doc_leaseId = None, doc_leaseDurationSeconds = None, doc_leaseExpireTime = None,
      doc_leaseBreakTime = None, prop_leaseDuration = None, prop_leaseState = None,
      prop_leaseStatus = None, accountName = block_accountName b,
      containerName = block_containerName b, blob_name = block_blobName b, blob_snapshot = '''',
      blob_deleted = Some False, isCommitted = False,
      properties = \<lparr>creationTime = startTime ctx, bp_lastModified = ctx_now ctx,
        bp_etag = newEtag f, contentLength = Some 0, contentType = None, contentEncoding = None,
        contentLanguage = None, contentMD5 = None, contentDisposition = None, cacheControl = None,
        blobSequenceNumber = None, blobType = Some BlockBlob, copyId = None, copyStatus = None,
        copySource = None, copyProgress = None, copyCompletionTime = None,
        copyStatusDescription = None, incrementalCopy = None, destinationSnapshot = None,
        deletedTime = None, remainingRetentionDays = None, accessTier = None,
        accessTierInferred = None, archiveStatus = None, accessTierChangeTime = None,
        tagCount = None, isSealed = None\<rparr>,
      blob_metadata = None, blobTags = None, blob_persistency = None, pageRangesInOrder = None,
      committedBlocksInOrder = None\<rparr>"

definition insert_block where
  "insert_block D b = update_op (\<lambda>s. s\<lparr>blocks := insert_doc (BLOCKS_COLLECTION D) (blocks s) b\<rparr>)"

definition stageBlock where
  "stageBlock D ctx f block leaseAccessConditions =
     bind_op (checkContainerExist D (block_accountName block) (block_containerName block)) (\<lambda>_.
     bind_op (find_blob D (blob_path (block_accountName block) (block_containerName block)
        (block_blobName block))) (\<lambda>blobDoc.
     bind_op (case blobDoc of
        None \<Rightarrow> bind_op (insert_blob D (uncommitted_blob ctx f block)) (\<lambda>_. return False)
      | Some (i, d) \<Rightarrow>
          if blobType (properties d) \<noteq> Some BlockBlob then throw getBlobInvalidBlobType
          else bind_op (put_blob D i (blob_lease_defaults d)) (\<lambda>_.
               bind_op (lift_result (blob_write_chain ctx leaseAccessConditions d)) (\<lambda>d'.
               bind_op (put_blob D i d') (\<lambda>_. return True)))) (\<lambda>blobExist.
     bind_op (find_block D (block_path (block_accountName block) (block_containerName block)
        (block_blobName block))) (\<lambda>existBlockDoc.
     if blobExist \<and> existBlockDoc \<noteq> None \<and>
        base64_length (block_name (snd (the existBlockDoc))) \<noteq> base64_length (block_name block)
     then throw getInvalidBlobOrBlock
     else
      bind_op (find_block D (\<lambda>b. block_path (block_accountName block) (block_containerName block)
         (block_blobName block) b \<and> block_name b = block_name block \<and>
         block_isCommitted b = block_isCommitted block)) (\<lambda>blockDoc.
      bind_op (case blockDoc of
         None \<Rightarrow> return ()
       | Some (k, _) \<Rightarrow> update_op (\<lambda>s. s\<lparr>blocks := remove_doc (BLOCKS_COLLECTION D) (blocks s) k\<rparr>)) (\<lambda>_.
      insert_block D block))))))"

record AppendPositionAccessConditions =
  maxSize :: "int option"
  appendPosition :: "int option"

definition MAX_APPEND_BLOB_BLOCK_COUNT :: nat where
  "MAX_APPEND_BLOB_BLOCK_COUNT = 50000"

definition stored_blocks :: "('cc, 'bc, 'kc) blob_store \<Rightarrow> blob_doc \<Rightarrow> PersistencyBlockModel list" where
  "stored_blocks s d =
     (case committedBlocksInOrder d of None \<Rightarrow> [] | Some a \<Rightarrow> array_at (block_arrays s) a)"

definition stored_length :: "blob_doc \<Rightarrow> int" where
  "stored_length d = (case contentLength (properties d) of None \<Rightarrow> 0 | Some n \<Rightarrow> n)"

text \<open>\<open>doc.committedBlocksInOrder = doc.committedBlocksInOrder || []; doc.committedBlocksInOrder.push(block)\<close>\<close>

definition push_block :: "PersistencyBlockModel \<Rightarrow> blob_doc \<Rightarrow> (('cc, 'bc, 'kc) blob_store, nat option) store_op" where
  "push_block b d =
     (case committedBlocksInOrder d of
        None \<Rightarrow> new_block_array (Some [b])
      | Some a \<Rightarrow> bind_op (update_op (\<lambda>s. s\<lparr>block_arrays :=
            (block_arrays s)[a := array_at (block_arrays s) a @ [b]]\<rparr>)) (\<lambda>_. return (Some a)))"

definition appendBlock where
  "appendBlock D ctx f block leaseAccessConditions mac position =
     bind_op (writable_blob (committed_blob D ctx (block_accountName block)
        (block_containerName block) (block_blobName block) None) mac) (\<lambda>(i, d).
     bind_op (check_write_lease D leaseAccessConditions i d) (\<lambda>(l, d').
     if isSealed (properties d') = Some True then throw getBlobSealed
     else if blobType (properties d') \<noteq> Some AppendBlob then throw getBlobInvalidBlobType
     else bind_op (read_op (\<lambda>s. length (stored_blocks s d'))) (\<lambda>count.
     if count \<ge> MAX_APPEND_BLOB_BLOCK_COUNT then throw getBlockCountExceedsLimit
     else if appendPosition position \<noteq> None \<and> stored_length d' \<noteq> the (appendPosition position)
     then throw getAppendPositionConditionNotMet
     else if maxSize position \<noteq> None \<and> stored_length d' + block_size block > the (maxSize position)
     then throw getMaxBlobSizeConditionNotMet
     else
      bind_op (push_block (PersistencyBlockModel.truncate block) d') (\<lambda>arr.
      let d2 = (BlobWriteLeaseSyncer_sync d' l)\<lparr>committedBlocksInOrder := arr\<rparr>;
          d3 = touch ctx f d2 in
      store_blob D i (d3\<lparr>properties := (properties d3)\<lparr>contentLength :=
        Some (stored_length d' + block_size block)\<rparr>\<rparr>)))))"

text \<open>A \<open>Map\<close> filled in order: the last block of a name stays.\<close>

definition blocks_by_name :: "PersistencyBlockModel list \<Rightarrow> string \<Rightarrow> PersistencyBlockModel option" where
  "blocks_by_name bs = map_of (rev (map (\<lambda>b. (block_name b, b)) bs))"

definition select_block ::
  "(string \<Rightarrow> PersistencyBlockModel option) \<Rightarrow> (string \<Rightarrow> PersistencyBlockModel option) \<Rightarrow>
   string \<times> string \<Rightarrow> PersistencyBlockModel option" where
  "select_block uncommitted committed entry =
     (case entry of (blockName, blockCommitType) \<Rightarrow>
       (let t = toLowerCase blockCommitType in
        if t = ''uncommitted'' then uncommitted blockName
        else if t = ''committed'' then committed blockName
        else if t = ''latest''
        then (case uncommitted blockName of Some b \<Rightarrow> Some b | None \<Rightarrow> committed blockName)
        else None))"

fun select_blocks ::
  "(string \<Rightarrow> PersistencyBlockModel option) \<Rightarrow> (string \<Rightarrow> PersistencyBlockModel option) \<Rightarrow>
   (string \<times> string) list \<Rightarrow> PersistencyBlockModel list result" where
  "select_blocks u c [] = Inr []"
| "select_blocks u c (e # es) =
     (case select_block u c e of
        None \<Rightarrow> Inl getInvalidBlockList
      | Some b \<Rightarrow> bind_result (select_blocks u c es) (\<lambda>bs. Inr (b # bs)))"

definition total_size :: "PersistencyBlockModel list \<Rightarrow> int" where
  "total_size bs = foldl (\<lambda>total val. total + val) 0 (map block_size bs)"

text \<open>The assignments to an existing document.\<close>

definition committed_properties ::
  "blob_properties \<Rightarrow> PersistencyBlockModel list \<Rightarrow> blob_properties \<Rightarrow> blob_properties" where
  "committed_properties q bs p =
     p\<lparr>blobType := blobType q, bp_lastModified := bp_lastModified q, accessTier := accessTier q,
       accessTierInferred := accessTierInferred q, bp_etag := bp_etag q, cacheControl := cacheControl q,
       contentType := contentType q, contentMD5 := contentMD5 q, contentEncoding := contentEncoding q,
       contentLanguage := contentLanguage q, contentDisposition := contentDisposition q,
       contentLength := Some (total_size bs)\<rparr>"

definition staged_blocks where
  "staged_blocks D account container blob =
     read_op (\<lambda>s. map snd (find_simplesort (BLOCKS_COLLECTION D) (blocks s) (block_path account container blob)))"

definition commitBlockList where
  "commitBlockList D ctx blob blockList leaseAccessConditions mac =
     bind_op (any_blob D ctx (accountName blob) (containerName blob) (blob_name blob)
        (Some (blob_snapshot blob))) (\<lambda>doc.
     bind_op (lift_result (validateWriteConditions (given_conditions mac)
        (map_option (blob_condition \<circ> snd) doc))) (\<lambda>_.
     if only_if_new mac \<and> doc \<noteq> None \<and> isCommitted (snd (the doc)) then throw getBlobAlreadyExists
     else
      bind_op (case doc of
        None \<Rightarrow> return None
      | Some (i, d) \<Rightarrow>
          if blobType (properties d) \<noteq> Some BlockBlob then throw getBlobInvalidBlobType
          else bind_op (check_write_lease D leaseAccessConditions i d) (\<lambda>(l, d').
               return (Some (i, l, d')))) (\<lambda>locked.
      bind_op (staged_blocks D (accountName blob) (containerName blob) (blob_name blob)) (\<lambda>pUncommittedBlocks.
      bind_op (read_op (\<lambda>s. case locked of None \<Rightarrow> [] | Some (i, l, d') \<Rightarrow> stored_blocks s d')) (\<lambda>pCommittedBlocks.
      bind_op (lift_result (select_blocks
         (blocks_by_name (map PersistencyBlockModel.truncate
            (filter (\<lambda>b. \<not> block_isCommitted b) pUncommittedBlocks)))
         (blocks_by_name pCommittedBlocks) blockList)) (\<lambda>selectedBlockList.
      bind_op (case locked of
         None \<Rightarrow> insert_blob D (blob\<lparr>committedBlocksInOrder := Some selectedBlockList,
            properties := (properties blob)\<lparr>contentLength := Some (total_size selectedBlockList)\<rparr>\<rparr>)
       | Some (i, l, d') \<Rightarrow>
           bind_op (new_block_array (Some selectedBlockList)) (\<lambda>arr.
           put_blob D i (BlobWriteLeaseSyncer_sync
             (d'\<lparr>committedBlocksInOrder := arr, isCommitted := True,
               blob_metadata := blob_metadata blob, blobTags := blobTags blob,
               properties := committed_properties (properties blob) selectedBlockList (properties d')\<rparr>) l))) (\<lambda>_.
      remove_blocks D (block_path (accountName blob) (containerName blob) (blob_name blob)))))))))"

definition getBlockList where
  "getBlockList D ctx account container blob snapshot committed leaseAccessConditions mac =
     bind_op (readable_blob (getBlobWithLeaseUpdated D account container blob snapshot ctx None False) mac None) (\<lambda>(i, d).
     bind_op (check_read_lease D leaseAccessConditions i d) (\<lambda>d'.
     if blobType (properties d') \<noteq> Some BlockBlob then throw getBlobInvalidBlobType
     else bind_op (read_op (\<lambda>s. if committed \<noteq> Some False then stored_blocks s d' else [])) (\<lambda>committedBlocks.
          bind_op (if committed \<noteq> Some True
                   then staged_blocks D account container blob else return []) (\<lambda>uncommittedBlocks.
          return (properties d', uncommittedBlocks, committedBlocks)))))"

section \<open>Pages\<close>

text \<open>A range operation on \<open>doc.pageRangesInOrder || []\<close>, in place: without an array the result is
  lost. The array is changed before the operation can go on.\<close>

definition change_pages ::
  "(PersistencyPageRange list \<Rightarrow> PersistencyPageRange list result) \<Rightarrow> blob_doc \<Rightarrow>
   (('cc, 'bc, 'kc) blob_store, unit) store_op" where
  "change_pages g d s =
     (case pageRangesInOrder d of
        None \<Rightarrow> (case g [] of Inl e \<Rightarrow> (Inl e, s) | Inr _ \<Rightarrow> (Inr (), s))
      | Some a \<Rightarrow>
         (case g (array_at (page_arrays s) a) of
            Inl e \<Rightarrow> (Inl e, s)
          | Inr rs \<Rightarrow> (Inr (), s\<lparr>page_arrays := (page_arrays s)[a := rs]\<rparr>)))"

text \<open>The steps of the two page writes before the lease is checked: the conditions, those on the
  sequence number, and whether there is such a blob.\<close>

definition page_write_target where
  "page_write_target D ctx blob mac seqMac =
     bind_op (committed_blob D ctx (accountName blob) (containerName blob) (blob_name blob)
        (Some (blob_snapshot blob))) (\<lambda>doc.
     bind_op (lift_result (validateWriteConditions (given_conditions mac)
        (map_option (blob_condition \<circ> snd) doc))) (\<lambda>_.
     bind_op (lift_result (validateSequenceNumberWriteConditions seqMac
        (map_option (blobSequenceNumber \<circ> properties \<circ> snd) doc))) (\<lambda>_.
     case doc of None \<Rightarrow> throw getBlobNotFound | Some x \<Rightarrow> return x)))"

definition uploadPages where
  "uploadPages D ctx f blob from to chunk leaseAccessConditions mac seqMac =
     bind_op (page_write_target D ctx blob mac seqMac) (\<lambda>(i, d).
     if blobType (properties d) \<noteq> Some PageBlob then throw getBlobInvalidBlobType
     else bind_op (check_write_lease D leaseAccessConditions i d) (\<lambda>(l, d').
          bind_op (change_pages (\<lambda>rs. mergeRange rs \<lparr>rstart = from, rend = to, persistency = chunk\<rparr>) d') (\<lambda>_.
          store_blob D i (touch ctx f (BlobWriteLeaseSyncer_sync d' l)))))"

definition clearRange_blob where
  "clearRange_blob D ctx f blob from to leaseAccessConditions mac seqMac =
     bind_op (page_write_target D ctx blob mac seqMac) (\<lambda>(i, d).
     bind_op (check_write_lease D leaseAccessConditions i d) (\<lambda>(l, d').
     bind_op (change_pages (\<lambda>rs. clearRange rs \<lparr>rstart = from, rend = to\<rparr>) d') (\<lambda>_.
     store_blob D i (touch ctx f (BlobWriteLeaseSyncer_sync d' l)))))"

definition getPageRanges where
  "getPageRanges D ctx account container blob snapshot leaseAccessConditions mac =
     bind_op (readable_blob (committed_blob D ctx account container blob snapshot) mac None) (\<lambda>(i, d).
     if blobType (properties d) \<noteq> Some PageBlob then throw getBlobInvalidBlobType
     else bind_op (check_read_lease D leaseAccessConditions i d) (\<lambda>d'.
          read_op (\<lambda>s. (properties d', pageRangesInOrder (blob_value s d')))))"

text \<open>\<open>doc.pageRangesInOrder = doc.pageRangesInOrder || []\<close>\<close>

definition ensure_pages where
  "ensure_pages D i d =
     (case pageRangesInOrder d of
        Some _ \<Rightarrow> return d
      | None \<Rightarrow> bind_op (new_page_array (Some [])) (\<lambda>a.
          bind_op (put_blob D i (d\<lparr>pageRangesInOrder := a\<rparr>)) (\<lambda>_.
          return (d\<lparr>pageRangesInOrder := a\<rparr>))))"

text \<open>A content length that is missing compares false with every number.\<close>

definition resizePageBlob where
  "resizePageBlob D ctx f account container blob blobContentLength leaseAccessConditions mac =
     bind_op (writable_blob (committed_blob D ctx account container blob None) mac) (\<lambda>(i, d).
     if blobType (properties d) \<noteq> Some PageBlob
     then throw (getInvalidOperation ''Resize could only be against a page blob.'')
     else bind_op (check_write_lease D leaseAccessConditions i d) (\<lambda>(l, d').
          bind_op (ensure_pages D i d') (\<lambda>d1.
          bind_op (case contentLength (properties d1) of
             None \<Rightarrow> return ()
           | Some n \<Rightarrow>
               if n > blobContentLength
               then change_pages (\<lambda>rs. clearRange rs \<lparr>rstart = blobContentLength, rend = n - 1\<rparr>) d1
               else return ()) (\<lambda>_.
          let d2 = touch ctx f (d1\<lparr>properties := (properties d1)\<lparr>contentLength := Some blobContentLength\<rparr>\<rparr>) in
          store_blob D i (BlobWriteLeaseSyncer_sync d2 l)))))"

text \<open>A header value outside the enumeration reaches the operation as it is.\<close>

datatype SequenceNumberActionType = Max | Increment | Update | OtherAction string

definition new_sequence_number ::
  "SequenceNumberActionType \<Rightarrow> int option \<Rightarrow> int \<Rightarrow> int result" where
  "new_sequence_number action given current =
     (case action of
        Max \<Rightarrow> (case given of
            None \<Rightarrow> Inl (getInvalidOperation ''x-ms-blob-sequence-number is required when x-ms-sequence-number-action is set to max.'')
          | Some n \<Rightarrow> Inr (max current n))
      | Increment \<Rightarrow> (case given of
            Some _ \<Rightarrow> Inl (getInvalidOperation ''x-ms-blob-sequence-number cannot be provided when x-ms-sequence-number-action is set to increment.'')
          | None \<Rightarrow> Inr (current + 1))
      | Update \<Rightarrow> (case given of
            None \<Rightarrow> Inl (getInvalidOperation ''x-ms-blob-sequence-number is required when x-ms-sequence-number-action is set to update.'')
          | Some n \<Rightarrow> Inr n)
      | OtherAction _ \<Rightarrow> Inl (getInvalidOperation ''Unsupported x-ms-sequence-number-action value.''))"

definition set_sequence_number :: "int \<Rightarrow> blob_doc \<Rightarrow> blob_doc" where
  "set_sequence_number n d = d\<lparr>properties := (properties d)\<lparr>blobSequenceNumber := Some n\<rparr>\<rparr>"

definition updateSequenceNumber where
  "updateSequenceNumber D ctx f account container blob action given leaseAccessConditions mac =
     bind_op (writable_blob (committed_blob D ctx account container blob None) mac) (\<lambda>(i, d).
     if blobType (properties d) \<noteq> Some PageBlob
     then throw (getInvalidOperation ''Get Page Ranges could only be against a page blob.'')
     else bind_op (check_write_lease D leaseAccessConditions i d) (\<lambda>(l, d').
          let n = (case blobSequenceNumber (properties d') of None \<Rightarrow> 0 | Some m \<Rightarrow> m);
              d1 = set_sequence_number n d' in
          bind_op (put_blob D i d1) (\<lambda>_.
          bind_op (lift_result (new_sequence_number action given n)) (\<lambda>m.
          let d2 = set_sequence_number m d1;
              d3 = d2\<lparr>properties := (properties d2)\<lparr>bp_etag := newEtag f, bp_lastModified := ctx_now ctx\<rparr>\<rparr> in
          store_blob D i (BlobWriteLeaseSyncer_sync d3 l)))))"

end
