(* ===== verification/Blob_Store_Invariant.thy ===== *)
theory Blob_Store_Invariant
  imports Blob_Operations
begin

text \<open>
  The invariant of the blob metadata store and its preservation by every operation: containers and
  base blobs are unique, every blob and every staged block belongs to an existing container, leases
  are well formed, references to arrays are valid and page ranges are ordered.
\<close>

section \<open>Views of the store\<close>

definition container_at :: "('cc, 'bc, 'kc) blob_db \<Rightarrow> ('cc, 'bc, 'kc) blob_store \<Rightarrow> nat \<Rightarrow> ContainerModel option" where
  "container_at D s = get_doc (CONTAINERS_COLLECTION D) (containers s)"

definition blob_at :: "('cc, 'bc, 'kc) blob_db \<Rightarrow> ('cc, 'bc, 'kc) blob_store \<Rightarrow> nat \<Rightarrow> blob_doc option" where
  "blob_at D s = get_doc (BLOBS_COLLECTION D) (blobs s)"

definition block_at :: "('cc, 'bc, 'kc) blob_db \<Rightarrow> ('cc, 'bc, 'kc) blob_store \<Rightarrow> nat \<Rightarrow> BlockModel option" where
  "block_at D s = get_doc (BLOCKS_COLLECTION D) (blocks s)"

definition has_container :: "('cc, 'bc, 'kc) blob_db \<Rightarrow> ('cc, 'bc, 'kc) blob_store \<Rightarrow> string \<Rightarrow> string \<Rightarrow> bool" where
  "has_container D s account name \<longleftrightarrow> (\<exists>i c. container_at D s i = Some c \<and> container_key account name c)"

definition same_base :: "('p, 'b) BlobModel \<Rightarrow> ('p, 'b) BlobModel \<Rightarrow> bool" where
  "same_base d e \<longleftrightarrow> blob_key (accountName d) (containerName d) (blob_name d) '''' e \<and> blob_snapshot d = ''''"

definition same_block :: "BlockModel \<Rightarrow> BlockModel \<Rightarrow> bool" where
  "same_block b c \<longleftrightarrow> block_path (block_accountName b) (block_containerName b) (block_blobName b) c \<and>
     block_name b = block_name c \<and> block_isCommitted b = block_isCommitted c"

definition container_lease_ok :: "ContainerModel \<Rightarrow> bool" where
  "container_lease_ok c \<longleftrightarrow> leaseState (doc_lease c) \<noteq> None \<and> lease_wf (doc_lease c)"

definition arrays_ok :: "('cc, 'bc, 'kc) blob_store \<Rightarrow> blob_doc \<Rightarrow> bool" where
  "arrays_ok s d \<longleftrightarrow> (\<forall>a. pageRangesInOrder d = Some a \<longrightarrow> a < length (page_arrays s)) \<and>
     (\<forall>a. committedBlocksInOrder d = Some a \<longrightarrow> a < length (block_arrays s))"

definition store_inv :: "('cc, 'bc, 'kc) blob_db \<Rightarrow> ('cc, 'bc, 'kc) blob_store \<Rightarrow> bool" where
  "store_inv D s \<longleftrightarrow>
     (\<forall>i c. container_at D s i = Some c \<longrightarrow> container_lease_ok c \<and>
        (\<forall>j e. container_at D s j = Some e \<longrightarrow> container_key (ct_accountName c) (ct_name c) e \<longrightarrow> i = j)) \<and>
     (\<forall>i d. blob_at D s i = Some d \<longrightarrow> doc_wf d \<and> arrays_ok s d \<and>
        has_container D s (accountName d) (containerName d) \<and>
        (\<forall>j e. blob_at D s j = Some e \<longrightarrow> same_base d e \<longrightarrow> i = j)) \<and>
     (\<forall>i b. block_at D s i = Some b \<longrightarrow>
        has_container D s (block_accountName b) (block_containerName b) \<and>
        (\<forall>j c. block_at D s j = Some c \<longrightarrow> same_block b c \<longrightarrow> i = j)) \<and>
     list_all wf_ranges (page_arrays s)"

text \<open>The empty store, for the concrete instances: every collection is a list.\<close>

definition list_db :: "(ContainerModel list_coll, blob_doc list_coll, BlockModel list_coll) blob_db" where
  "list_db = \<lparr>CONTAINERS_COLLECTION = list_collection, BLOBS_COLLECTION = list_collection,
     BLOCKS_COLLECTION = list_collection\<rparr>"

definition empty_store :: "(ContainerModel list_coll, blob_doc list_coll, BlockModel list_coll) blob_store" where
  "empty_store = \<lparr>containers = [], blobs = [], blocks = [], page_arrays = [], block_arrays = []\<rparr>"

section \<open>What a request may change besides its effect\<close>

text \<open>The document without its lease fields and with the digest left out: finding a blob brings
  its lease up to date and restores the form of its digest.\<close>

definition core :: "blob_doc \<Rightarrow> blob_doc" where
  "core d = BlobLeaseSyncer_sync (set_contentMD5 None d) undefined_lease"

definition quiet :: "('cc, 'bc, 'kc) blob_db \<Rightarrow> ('cc, 'bc, 'kc) blob_store \<Rightarrow> ('cc, 'bc, 'kc) blob_store \<Rightarrow> bool" where
  "quiet D s s' \<longleftrightarrow> containers s' = containers s \<and> blocks s' = blocks s \<and>
     page_arrays s' = page_arrays s \<and> block_arrays s' = block_arrays s \<and>
     (\<forall>i. map_option core (blob_at D s' i) = map_option core (blob_at D s i))"

definition leased_doc :: "'a lease_doc_scheme \<Rightarrow> bool" where
  "leased_doc d \<longleftrightarrow> leaseState (doc_lease d) \<noteq> None \<and> lease_wf (doc_lease d)"

section \<open>Lemmas on documents\<close>

lemma core_sync [simp]:
  "core (BlobLeaseSyncer_sync d l) = core d"
  "core (BlobWriteLeaseSyncer_sync d l) = core d"
  "core (blob_lease_defaults d) = core d"
  "core (set_contentMD5 m d) = core d"
  by (simp_all add: core_def BlobLeaseSyncer_sync_def BlobWriteLeaseSyncer_sync_def
      blob_lease_defaults_def set_contentMD5_def Let_def undefined_lease_def)

lemma core_fields:
  assumes "core d = core e"
  shows "accountName d = accountName e" "containerName d = containerName e"
    "blob_name d = blob_name e" "blob_snapshot d = blob_snapshot e" "isCommitted d = isCommitted e"
    "pageRangesInOrder d = pageRangesInOrder e" "committedBlocksInOrder d = committedBlocksInOrder e"
    "blob_metadata d = blob_metadata e" "blobTags d = blobTags e"
    "(properties d)\<lparr>contentMD5 := None\<rparr> = (properties e)\<lparr>contentMD5 := None\<rparr>"
  using assms [THEN arg_cong, of accountName] assms [THEN arg_cong, of containerName]
    assms [THEN arg_cong, of blob_name] assms [THEN arg_cong, of blob_snapshot]
    assms [THEN arg_cong, of isCommitted] assms [THEN arg_cong, of pageRangesInOrder]
    assms [THEN arg_cong, of committedBlocksInOrder] assms [THEN arg_cong, of blob_metadata]
    assms [THEN arg_cong, of blobTags] assms [THEN arg_cong, of properties]
  by (simp_all add: core_def BlobLeaseSyncer_sync_def set_contentMD5_def)

lemma core_key:
  assumes "core d = core e"
  shows "blob_key a c n sn d = blob_key a c n sn e" "blob_path a c n d = blob_path a c n e"
    "arrays_ok s d = arrays_ok s e"
  by (simp_all add: blob_key_def blob_path_def arrays_ok_def core_fields [OF assms])

lemma core_same_base:
  assumes "core d = core d'" "core e = core e'"
  shows "same_base d e = same_base d' e'"
  by (simp add: same_base_def core_fields [OF assms(1)] core_key [OF assms(2)])

lemma doc_lease_other_fields [simp]:
  fixes d :: blob_doc
  shows "doc_lease (d\<lparr>properties := p\<rparr>) = doc_lease d"
    "doc_lease (d\<lparr>blob_metadata := md\<rparr>) = doc_lease d"
    "doc_lease (d\<lparr>blobTags := ts\<rparr>) = doc_lease d"
    "doc_lease (d\<lparr>isCommitted := b\<rparr>) = doc_lease d"
    "doc_lease (d\<lparr>committedBlocksInOrder := bs\<rparr>) = doc_lease d"
    "doc_lease (d\<lparr>pageRangesInOrder := ps\<rparr>) = doc_lease d"
    "doc_lease (set_contentMD5 m d) = doc_lease d"
    "doc_lease (touch ctx f d) = doc_lease d"
    "doc_lease (set_sequence_number n d) = doc_lease d"
  by (simp_all add: doc_lease_def set_contentMD5_def touch_def set_sequence_number_def)

lemma leased_doc_wf: "leased_doc d \<Longrightarrow> doc_wf d"
  by (simp add: leased_doc_def doc_wf_def)

lemma leased_available: "leaseState available_lease \<noteq> None \<and> lease_wf available_lease"
  by (simp add: available_lease_def lease_wf_def)

lemma leased_defaults: "doc_wf d \<Longrightarrow> leased_doc (blob_lease_defaults d)"
  using doc_wf_defaults by (auto simp: leased_doc_def)

lemma defaults_leased [simp]: "leased_doc d \<Longrightarrow> blob_lease_defaults d = d"
  using lease_wf_status [of "doc_lease d"]
  by (auto simp: leased_doc_def blob_lease_defaults_def doc_lease_def)

lemma adapter_leased: "leased_doc d \<Longrightarrow> BlobLeaseAdapter d = (doc_lease d, d)"
  by (simp add: BlobLeaseAdapter_def)

lemma leased_sync:
  assumes "leaseState l \<noteq> None" "lease_wf l"
  shows "leased_doc (BlobLeaseSyncer_sync d l)" "leased_doc (BlobWriteLeaseSyncer_sync d l)"
    "leased_doc (ContainerLeaseSyncer_sync d l)"
  using assms leased_available by (auto simp: leased_doc_def)

lemma observe_leased:
  assumes "doc_wf d" "blob_observe_chain (at_time t) d = Inr d'"
  shows "leased_doc d'"
proof -
  from assms(2) obtain st where
    st: "createLeaseState (doc_lease (blob_lease_defaults d)) (at_time t) = Inr st"
    and d': "d' = BlobLeaseSyncer_sync (blob_lease_defaults d) (lease st)"
    by (auto simp: lease_chains bind_result_Inr_iff)
  from leased_defaults [OF assms(1)] st have "lease_wf (lease st) \<and> leaseState (lease st) \<noteq> None"
    by (intro factory_state_wf) (auto simp: leased_doc_def)
  then show ?thesis by (simp add: d' leased_sync)
qed

lemma observe_core: "blob_observe_chain ctx d = Inr d' \<Longrightarrow> core d' = core d"
  by (auto simp: lease_chains bind_result_Inr_iff)

lemma observe_total: "doc_wf d \<Longrightarrow> \<exists>d'. blob_observe_chain (at_time t) d = Inr d'"
  using createLeaseState_total [OF doc_wf_defaults(1), of d t] by (auto simp: lease_chains)

section \<open>Lemmas on views\<close>

lemma view_updates [simp]:
  "container_at D (s\<lparr>blobs := x\<rparr>) = container_at D s" "block_at D (s\<lparr>blobs := x\<rparr>) = block_at D s"
  "container_at D (s\<lparr>blocks := y\<rparr>) = container_at D s" "blob_at D (s\<lparr>blocks := y\<rparr>) = blob_at D s"
  "blob_at D (s\<lparr>containers := z\<rparr>) = blob_at D s" "block_at D (s\<lparr>containers := z\<rparr>) = block_at D s"
  "container_at D (s\<lparr>page_arrays := ps\<rparr>) = container_at D s" "blob_at D (s\<lparr>page_arrays := ps\<rparr>) = blob_at D s"
  "block_at D (s\<lparr>page_arrays := ps\<rparr>) = block_at D s"
  "container_at D (s\<lparr>block_arrays := bs\<rparr>) = container_at D s" "blob_at D (s\<lparr>block_arrays := bs\<rparr>) = blob_at D s"
  "block_at D (s\<lparr>block_arrays := bs\<rparr>) = block_at D s"
  by (simp_all add: container_at_def blob_at_def block_at_def)

lemma has_container_updates [simp]:
  "has_container D (s\<lparr>blobs := x\<rparr>) a n = has_container D s a n"
  "has_container D (s\<lparr>blocks := y\<rparr>) a n = has_container D s a n"
  "has_container D (s\<lparr>page_arrays := ps\<rparr>) a n = has_container D s a n"
  "has_container D (s\<lparr>block_arrays := bs\<rparr>) a n = has_container D s a n"
  by (simp_all add: has_container_def)

lemma arrays_ok_updates [simp]:
  "arrays_ok (s\<lparr>blobs := x\<rparr>) d = arrays_ok s d" "arrays_ok (s\<lparr>blocks := y\<rparr>) d = arrays_ok s d"
  "arrays_ok (s\<lparr>containers := z\<rparr>) d = arrays_ok s d"
  by (simp_all add: arrays_ok_def)

lemma quiet_refl [simp]: "quiet D s s"
  by (simp add: quiet_def)

lemma quiet_trans: "quiet D s s' \<Longrightarrow> quiet D s' s'' \<Longrightarrow> quiet D s s''"
  by (simp add: quiet_def)

lemma quiet_blob:
  assumes "quiet D s s'" "blob_at D s' i = Some d'"
  obtains d where "blob_at D s i = Some d" "core d = core d'"
proof -
  have "map_option core (blob_at D s i) = map_option core (blob_at D s' i)"
    using assms(1) by (simp add: quiet_def)
  with assms(2) that show thesis by (auto simp: map_option_eq_Some)
qed

lemma quiet_blob_fwd:
  assumes "quiet D s s'" "blob_at D s i = Some d"
  obtains d' where "blob_at D s' i = Some d'" "core d' = core d"
proof -
  have "map_option core (blob_at D s' i) = map_option core (blob_at D s i)"
    using assms(1) by (simp add: quiet_def)
  with assms(2) that show thesis by (auto simp: map_option_eq_Some)
qed

text \<open>Parts of the invariant.\<close>

lemma store_invD:
  assumes "store_inv D s"
  shows "container_at D s i = Some c \<Longrightarrow> container_lease_ok c"
    and "container_at D s i = Some c \<Longrightarrow> container_at D s j = Some e \<Longrightarrow>
      container_key (ct_accountName c) (ct_name c) e \<Longrightarrow> i = j"
    and "blob_at D s k = Some d \<Longrightarrow> doc_wf d"
    and "blob_at D s k = Some d \<Longrightarrow> arrays_ok s d"
    and "blob_at D s k = Some d \<Longrightarrow> has_container D s (accountName d) (containerName d)"
    and "blob_at D s k = Some d \<Longrightarrow> blob_at D s m = Some d' \<Longrightarrow> same_base d d' \<Longrightarrow> k = m"
    and "block_at D s k = Some b \<Longrightarrow> has_container D s (block_accountName b) (block_containerName b)"
    and "block_at D s k = Some b \<Longrightarrow> block_at D s m = Some b' \<Longrightarrow> same_block b b' \<Longrightarrow> k = m"
    and "list_all wf_ranges (page_arrays s)"
  using assms unfolding store_inv_def by blast+

section \<open>The collections\<close>

locale blob_collections =
  cont: loki "CONTAINERS_COLLECTION D" + blob: loki "BLOBS_COLLECTION D" +
  block: loki "BLOCKS_COLLECTION D" for D :: "('cc, 'bc, 'kc) blob_db"
begin

lemma wp_find_container:
  assumes "\<And>i c. container_at D s i = Some c \<Longrightarrow> p c \<Longrightarrow> Q (Some (i, c)) s"
    and "\<forall>i c. container_at D s i = Some c \<longrightarrow> \<not> p c \<Longrightarrow> Q None s"
  shows "wp (find_container D p) Q R s"
  unfolding find_container_def using assms by (intro cont.wp_findOne) (simp_all add: container_at_def)

lemma wp_find_blob:
  assumes "\<And>i d. blob_at D s i = Some d \<Longrightarrow> p d \<Longrightarrow> Q (Some (i, d)) s"
    and "\<forall>i d. blob_at D s i = Some d \<longrightarrow> \<not> p d \<Longrightarrow> Q None s"
  shows "wp (find_blob D p) Q R s"
  unfolding find_blob_def using assms by (intro blob.wp_findOne) (simp_all add: blob_at_def)

lemma wp_find_block:
  assumes "\<And>i b. block_at D s i = Some b \<Longrightarrow> p b \<Longrightarrow> Q (Some (i, b)) s"
    and "\<forall>i b. block_at D s i = Some b \<longrightarrow> \<not> p b \<Longrightarrow> Q None s"
  shows "wp (find_block D p) Q R s"
  unfolding find_block_def using assms by (intro block.wp_findOne) (simp_all add: block_at_def)

end

interpretation list_db: blob_collections list_db
  by (simp add: blob_collections_def list_db_def list_coll.loki_axioms)

section \<open>Primitive updates keep the invariant\<close>

lemma inv_blobs:
  assumes inv: "store_inv D s"
    and ok: "\<And>i d. get_doc (BLOBS_COLLECTION D) bs i = Some d \<Longrightarrow>
      doc_wf d \<and> arrays_ok s d \<and> has_container D s (accountName d) (containerName d)"
    and uniq: "\<And>i j d e. get_doc (BLOBS_COLLECTION D) bs i = Some d \<Longrightarrow>
      get_doc (BLOBS_COLLECTION D) bs j = Some e \<Longrightarrow> same_base d e \<Longrightarrow> i = j"
  shows "store_inv D (s\<lparr>blobs := bs\<rparr>)"
proof -
  have "blob_at D (s\<lparr>blobs := bs\<rparr>) = get_doc (BLOBS_COLLECTION D) bs" by (simp add: blob_at_def)
  then show ?thesis using inv ok uniq unfolding store_inv_def by simp
qed

lemma inv_blobs_subset:
  assumes "store_inv D s"
    and "\<And>i d. get_doc (BLOBS_COLLECTION D) bs i = Some d \<Longrightarrow> blob_at D s i = Some d"
  shows "store_inv D (s\<lparr>blobs := bs\<rparr>)"
  using assms by (intro inv_blobs) (auto dest: store_invD)

lemma inv_blocks:
  assumes inv: "store_inv D s"
    and ok: "\<And>i b. get_doc (BLOCKS_COLLECTION D) bs i = Some b \<Longrightarrow>
      has_container D s (block_accountName b) (block_containerName b)"
    and uniq: "\<And>i j b c. get_doc (BLOCKS_COLLECTION D) bs i = Some b \<Longrightarrow>
      get_doc (BLOCKS_COLLECTION D) bs j = Some c \<Longrightarrow> same_block b c \<Longrightarrow> i = j"
  shows "store_inv D (s\<lparr>blocks := bs\<rparr>)"
proof -
  have "block_at D (s\<lparr>blocks := bs\<rparr>) = get_doc (BLOCKS_COLLECTION D) bs" by (simp add: block_at_def)
  then show ?thesis using inv ok uniq unfolding store_inv_def by simp
qed

lemma inv_blocks_subset:
  assumes "store_inv D s"
    and "\<And>i b. get_doc (BLOCKS_COLLECTION D) bs i = Some b \<Longrightarrow> block_at D s i = Some b"
  shows "store_inv D (s\<lparr>blocks := bs\<rparr>)"
  using assms by (intro inv_blocks) (auto dest: store_invD)

lemma inv_page_arrays:
  assumes "store_inv D s" "list_all wf_ranges ps" "length (page_arrays s) \<le> length ps"
  shows "store_inv D (s\<lparr>page_arrays := ps\<rparr>)"
proof -
  have "arrays_ok (s\<lparr>page_arrays := ps\<rparr>) d" if "arrays_ok s d" for d
    using that assms(3) by (auto simp: arrays_ok_def)
  then show ?thesis using assms(1,2) unfolding store_inv_def by simp
qed

lemma inv_block_arrays:
  assumes "store_inv D s" "length (block_arrays s) \<le> length bs"
  shows "store_inv D (s\<lparr>block_arrays := bs\<rparr>)"
proof -
  have "arrays_ok (s\<lparr>block_arrays := bs\<rparr>) d" if "arrays_ok s d" for d
    using that assms(2) by (auto simp: arrays_ok_def)
  then show ?thesis using assms(1) unfolding store_inv_def by simp
qed

lemma same_base_sym: "same_base d e \<longleftrightarrow> same_base e d"
  by (auto simp: same_base_def blob_key_def blob_path_def)

lemma same_block_sym: "same_block b c \<longleftrightarrow> same_block c b"
  by (auto simp: same_block_def block_path_def)

definition same_id :: "blob_doc \<Rightarrow> blob_doc \<Rightarrow> bool" where
  "same_id d e \<longleftrightarrow> blob_key (accountName d) (containerName d) (blob_name d) (blob_snapshot d) e"

context blob_collections
begin

lemma blob_at_put:
  "blob_at D s i \<noteq> None \<Longrightarrow>
   blob_at D (s\<lparr>blobs := set_doc (BLOBS_COLLECTION D) (blobs s) i d\<rparr>) = (blob_at D s)(i \<mapsto> d)"
  by (simp add: blob_at_def blob.set_get)

lemma inv_put_blob:
  assumes inv: "store_inv D s" and d: "blob_at D s i = Some d"
    and d': "same_id d d'" "doc_wf d'" "arrays_ok s d'"
  shows "store_inv D (s\<lparr>blobs := set_doc (BLOBS_COLLECTION D) (blobs s) i d'\<rparr>)"
proof -
  have get: "get_doc (BLOBS_COLLECTION D) (set_doc (BLOBS_COLLECTION D) (blobs s) i d') =
      (blob_at D s)(i \<mapsto> d')" using blob_at_put [of s i d'] d by (simp add: blob_at_def)
  have id: "accountName d' = accountName d" "containerName d' = containerName d"
    "same_base d' e = same_base d e" "same_base e d' = same_base e d" for e
    using d'(1) by (auto simp: same_id_def same_base_def blob_key_def blob_path_def)
  show ?thesis
    using d' id store_invD(3-6) [OF inv] d
    by (intro inv_blobs [OF inv]) (auto simp: get split: if_splits)
qed

lemma inv_insert_blob:
  assumes inv: "store_inv D s" and d: "doc_wf d" "arrays_ok s d"
    "has_container D s (accountName d) (containerName d)"
    and new: "\<And>i e. blob_at D s i = Some e \<Longrightarrow> \<not> same_base d e"
  shows "store_inv D (s\<lparr>blobs := insert_doc (BLOBS_COLLECTION D) (blobs s) d\<rparr>)"
proof -
  obtain i where get: "get_doc (BLOBS_COLLECTION D) (insert_doc (BLOBS_COLLECTION D) (blobs s) d) =
      (blob_at D s)(i \<mapsto> d)" unfolding blob_at_def by (rule blob.insert_getE)
  have "\<And>i e. blob_at D s i = Some e \<Longrightarrow> \<not> same_base e d" using new same_base_sym by blast
  then show ?thesis
    using d new store_invD(3-6) [OF inv]
    by (intro inv_blobs [OF inv]) (auto simp: get split: if_splits)
qed

lemma inv_insert_block:
  assumes inv: "store_inv D s"
    and "has_container D s (block_accountName b) (block_containerName b)"
    and "\<And>i c. block_at D s i = Some c \<Longrightarrow> \<not> same_block b c"
  shows "store_inv D (s\<lparr>blocks := insert_doc (BLOCKS_COLLECTION D) (blocks s) b\<rparr>)"
proof -
  obtain i where get: "get_doc (BLOCKS_COLLECTION D) (insert_doc (BLOCKS_COLLECTION D) (blocks s) b) =
      (block_at D s)(i \<mapsto> b)" unfolding block_at_def by (rule block.insert_getE)
  have "\<And>i c. block_at D s i = Some c \<Longrightarrow> \<not> same_block c b" using assms(3) same_block_sym by blast
  then show ?thesis
    using assms(2,3) store_invD(7,8) [OF inv]
    by (intro inv_blocks [OF inv]) (auto simp: get split: if_splits)
qed

lemma inv_put_container:
  assumes inv: "store_inv D s" and c: "container_at D s i = Some c"
    and c': "ct_accountName c' = ct_accountName c" "ct_name c' = ct_name c" "container_lease_ok c'"
  shows "store_inv D (s\<lparr>containers := set_doc (CONTAINERS_COLLECTION D) (containers s) i c'\<rparr>)"
proof -
  let ?s = "s\<lparr>containers := set_doc (CONTAINERS_COLLECTION D) (containers s) i c'\<rparr>"
  have get: "container_at D ?s = (container_at D s)(i \<mapsto> c')"
    using c cont.set_get by (simp add: container_at_def)
  have has: "has_container D ?s a n = has_container D s a n" for a n
  proof
    assume "has_container D s a n"
    then obtain j e where "container_at D s j = Some e" "container_key a n e"
      by (auto simp: has_container_def)
    with c c'(1,2) show "has_container D ?s a n"
      unfolding has_container_def get by (intro exI [of _ j]) (auto simp: container_key_def)
  next
    assume "has_container D ?s a n"
    then obtain j e where "((container_at D s)(i \<mapsto> c')) j = Some e" "container_key a n e"
      unfolding has_container_def get by blast
    with c c'(1,2) show "has_container D s a n"
      unfolding has_container_def by (intro exI [of _ j]) (auto simp: container_key_def split: if_splits)
  qed
  show ?thesis
    using inv c' store_invD(1,2) [OF inv] c unfolding store_inv_def has
    by (auto simp: get container_key_def split: if_splits)
qed

lemma inv_insert_container:
  assumes inv: "store_inv D s" and "container_lease_ok c"
    and new: "\<And>i e. container_at D s i = Some e \<Longrightarrow> \<not> container_key (ct_accountName c) (ct_name c) e"
  shows "store_inv D (s\<lparr>containers := insert_doc (CONTAINERS_COLLECTION D) (containers s) c\<rparr>)"
proof -
  let ?s = "s\<lparr>containers := insert_doc (CONTAINERS_COLLECTION D) (containers s) c\<rparr>"
  obtain i where i: "container_at D s i = None" and get: "container_at D ?s = (container_at D s)(i \<mapsto> c)"
    unfolding container_at_def by (rule cont.insert_getE [of "containers s" c]) simp
  have has: "has_container D ?s a n" if "has_container D s a n" for a n
  proof -
    from that obtain j e where "container_at D s j = Some e" "container_key a n e"
      by (auto simp: has_container_def)
    with i show ?thesis unfolding has_container_def get by (intro exI [of _ j]) auto
  qed
  have new': "\<And>i e. container_at D s i = Some e \<Longrightarrow> \<not> container_key (ct_accountName e) (ct_name e) c"
    using new by (fastforce simp: container_key_def)
  have uniq: "\<forall>k e. container_at D ?s k = Some e \<longrightarrow> container_lease_ok e \<and>
      (\<forall>j e'. container_at D ?s j = Some e' \<longrightarrow> container_key (ct_accountName e) (ct_name e) e' \<longrightarrow> k = j)"
    using assms(2) new new' store_invD(1,2) [OF inv] by (auto simp: get split: if_splits)
  show ?thesis
    unfolding store_inv_def using uniq inv has unfolding store_inv_def by simp
qed

end
section \<open>Finding blobs\<close>

text \<open>The lease of a stored document at a time.\<close>

definition current_lease :: "int \<Rightarrow> blob_doc \<Rightarrow> ILease" where
  "current_lease t d =
     (case createLeaseState (doc_lease (blob_lease_defaults d)) (at_time t) of
        Inr st \<Rightarrow> lease st | Inl _ \<Rightarrow> doc_lease d)"

text \<open>What a lookup has found: the document is in the store, with its lease up to date.\<close>

definition found ::
  "('cc, 'bc, 'kc) blob_db \<Rightarrow> ('cc, 'bc, 'kc) blob_store \<Rightarrow> string \<Rightarrow> string \<Rightarrow> string \<Rightarrow> string \<Rightarrow> int \<Rightarrow>
   bool \<Rightarrow> (nat \<times> blob_doc) option \<Rightarrow> ('cc, 'bc, 'kc) blob_store \<Rightarrow> bool" where
  "found D s a c n sn t fc r s' \<longleftrightarrow> store_inv D s' \<and> quiet D s s' \<and> has_container D s a c \<and>
     (case r of
        None \<Rightarrow> s' = s \<and> (\<not> fc \<longrightarrow> (\<forall>i d. blob_at D s i = Some d \<longrightarrow> \<not> blob_key a c n sn d))
      | Some (i, d') \<Rightarrow> blob_at D s' i = Some d' \<and> leased_doc d' \<and> blob_key a c n sn d' \<and>
          (fc \<longrightarrow> isCommitted d') \<and>
          (\<exists>d. blob_at D s i = Some d \<and> core d' = core d \<and> blob_at D s' = (blob_at D s)(i \<mapsto> d') \<and>
             (sn = [] \<longrightarrow> doc_lease d' = current_lease t d)))"

lemma observe_lease:
  "blob_observe_chain (at_time t) d = Inr d' \<Longrightarrow> doc_lease d' = current_lease t d"
  by (auto simp: lease_chains bind_result_Inr_iff current_lease_def)

lemma current_lease_md5 [simp]: "current_lease t (set_contentMD5 m d) = current_lease t d"
proof -
  have "doc_lease (blob_lease_defaults (set_contentMD5 m d)) = doc_lease (blob_lease_defaults d)"
    by (simp add: blob_lease_defaults_def set_contentMD5_def doc_lease_def Let_def)
  then show ?thesis by (simp add: current_lease_def split: sum.split)
qed

context blob_collections
begin

lemma wp_checkContainerExist:
  assumes "has_container D s a c \<Longrightarrow> Q () s"
    and "\<not> has_container D s a c \<Longrightarrow> R getContainerNotFound s"
  shows "wp (checkContainerExist D a c) Q R s"
  unfolding checkContainerExist_def wp_bind using assms
  by (intro wp_find_container) (auto simp: has_container_def)

lemma put_core:
  assumes "store_inv D s" "blob_at D s i = Some d" "core d' = core d" "doc_wf d'"
  shows "store_inv D (s\<lparr>blobs := set_doc (BLOBS_COLLECTION D) (blobs s) i d'\<rparr>)"
    and "quiet D s (s\<lparr>blobs := set_doc (BLOBS_COLLECTION D) (blobs s) i d'\<rparr>)"
proof -
  have "same_id d d'" using core_key [OF assms(3)] by (auto simp: same_id_def blob_key_def blob_path_def)
  then show "store_inv D (s\<lparr>blobs := set_doc (BLOBS_COLLECTION D) (blobs s) i d'\<rparr>)"
    using assms core_key(3) [OF assms(3)] store_invD(4) [OF assms(1,2)] by (intro inv_put_blob) auto
  show "quiet D s (s\<lparr>blobs := set_doc (BLOBS_COLLECTION D) (blobs s) i d'\<rparr>)"
    using assms by (auto simp: quiet_def blob_at_put)
qed

lemma wp_restore_blob:
  assumes "store_inv D s" "blob_at D s i = Some d"
  shows "wp (restore_blob D i d)
    (\<lambda>d' s'. store_inv D s' \<and> quiet D s s' \<and> blob_at D s' = (blob_at D s)(i \<mapsto> d') \<and> (\<exists>m. d' = set_contentMD5 m d))
    (\<lambda>_ s'. s' = s) s"
  using assms store_invD(3) [OF assms] put_core [OF assms]
  by (auto simp: restore_blob_def put_blob_def blob_at_put doc_wf_def split: sum.splits)

lemma wp_refresh_lease:
  assumes inv: "store_inv D s" and d: "blob_at D s i = Some d"
  shows "wp (refresh_lease D (at_time t) sn i d)
    (\<lambda>d' s'. store_inv D s' \<and> quiet D s s' \<and> blob_at D s' = (blob_at D s)(i \<mapsto> d') \<and> leased_doc d' \<and>
       core d' = core d \<and> (sn = [] \<longrightarrow> doc_lease d' = current_lease t d)) R s"
proof (cases "sn = []")
  case False
  let ?d = "BlobLeaseSyncer_sync d available_lease"
  have l: "leased_doc ?d" using leased_sync leased_available by blast
  then show ?thesis
    using False put_core [OF assms, of ?d] d leased_doc_wf [OF l]
    by (simp add: refresh_lease_def put_blob_def blob_at_put)
next
  case True
  have wf: "doc_wf d" using store_invD(3) [OF assms] .
  then obtain d' where d': "blob_observe_chain (at_time t) d = Inr d'" using observe_total by blast
  note l = observe_leased [OF wf d'] and c = observe_core [OF d']
  let ?e = "blob_lease_defaults d"
  let ?s = "s\<lparr>blobs := set_doc (BLOBS_COLLECTION D) (blobs s) i ?e\<rparr>"
  have e: "store_inv D ?s" "quiet D s ?s" "blob_at D ?s = (blob_at D s)(i \<mapsto> ?e)"
    using put_core [OF assms, of ?e] leased_doc_wf [OF leased_defaults [OF wf]] blob_at_put d by simp_all
  have p: "store_inv D (?s\<lparr>blobs := set_doc (BLOBS_COLLECTION D) (blobs ?s) i d'\<rparr>)"
    "quiet D ?s (?s\<lparr>blobs := set_doc (BLOBS_COLLECTION D) (blobs ?s) i d'\<rparr>)"
    using put_core [OF e(1), of i ?e d'] e(3) c leased_doc_wf [OF l] by simp_all
  show ?thesis
    using True d' p e l c quiet_trans [OF e(2) p(2)] blob_at_put [of ?s i d'] observe_lease [OF d']
    by (simp add: refresh_lease_def put_blob_def)
qed

lemma wp_lookup:
  assumes inv: "store_inv D s"
  shows "wp (getBlobWithLeaseUpdated D a c n sn (at_time t) fe fc)
    (found D s a c n (default_snapshot sn) t fc) (\<lambda>_ s'. store_inv D s' \<and> quiet D s s') s"
  unfolding getBlobWithLeaseUpdated_def wp_bind
proof (intro wp_checkContainerExist wp_find_blob)
  fix i d assume has: "has_container D s a c" and d: "blob_at D s i = Some d"
    and key: "blob_key a c n (default_snapshot sn) d"
  have "wp (bind_op (restore_blob D i d) (\<lambda>d1.
      bind_op (refresh_lease D (at_time t) (default_snapshot sn) i d1) (\<lambda>d2. return (Some (i, d2)))))
    (found D s a c n (default_snapshot sn) t fc) (\<lambda>_ s'. store_inv D s' \<and> quiet D s s') s"
    if "fc \<longrightarrow> isCommitted d"
    unfolding wp_bind
  proof (rule wp_mono [OF wp_restore_blob [OF inv d]])
    fix d1 s1 assume "store_inv D s1 \<and> quiet D s s1 \<and> blob_at D s1 = (blob_at D s)(i \<mapsto> d1) \<and>
      (\<exists>m. d1 = set_contentMD5 m d)"
    then have s1: "store_inv D s1" "quiet D s s1" "blob_at D s1 = (blob_at D s)(i \<mapsto> d1)"
      and d1: "core d1 = core d" "current_lease t d1 = current_lease t d" by auto
    show "wp (refresh_lease D (at_time t) (default_snapshot sn) i d1)
        (\<lambda>x. wp (return (Some (i, x))) (found D s a c n (default_snapshot sn) t fc)
          (\<lambda>_ s'. store_inv D s' \<and> quiet D s s')) (\<lambda>_ s'. store_inv D s' \<and> quiet D s s') s1"
    proof (rule wp_mono [OF wp_refresh_lease [OF s1(1), of i d1 t "default_snapshot sn" "\<lambda>_ _. False"]])
      fix d2 s2 assume "store_inv D s2 \<and> quiet D s1 s2 \<and> blob_at D s2 = (blob_at D s1)(i \<mapsto> d2) \<and>
        leased_doc d2 \<and> core d2 = core d1 \<and> (default_snapshot sn = [] \<longrightarrow> doc_lease d2 = current_lease t d1)"
      moreover from this have c2: "core d2 = core d" and "quiet D s s2"
        using d1 quiet_trans [OF s1(2)] by simp_all
      moreover have "blob_key a c n (default_snapshot sn) d2" "isCommitted d2 = isCommitted d"
        using key by (simp_all add: core_key(1) [OF c2] core_fields(5) [OF c2])
      ultimately show "wp (return (Some (i, d2))) (found D s a c n (default_snapshot sn) t fc)
          (\<lambda>_ s'. store_inv D s' \<and> quiet D s s') s2"
        using that has d s1(3) d1(2) by (simp add: found_def)
    qed (simp_all add: s1(3))
  qed (auto simp: inv)
  then show "wp (case Some (i, d) of
       None \<Rightarrow> if fe \<noteq> Some False then throw getBlobNotFound else return None
     | Some (i, d) \<Rightarrow>
         if fc \<and> \<not> isCommitted d
         then (if fe \<noteq> Some False then throw getBlobNotFound else return None)
         else bind_op (restore_blob D i d) (\<lambda>d1.
              bind_op (refresh_lease D (at_time t) (default_snapshot sn) i d1) (\<lambda>d2.
              return (Some (i, d2)))))
    (found D s a c n (default_snapshot sn) t fc) (\<lambda>_ s'. store_inv D s' \<and> quiet D s s') s"
    using inv has by (auto simp: found_def)
qed (auto simp: inv found_def)

end

section \<open>Rules for the shared steps\<close>

text \<open>A request may fail only where nothing has changed but leases and digests.\<close>

definition unharmed ::
  "('cc, 'bc, 'kc) blob_db \<Rightarrow> ('cc, 'bc, 'kc) blob_store \<Rightarrow> js_error \<Rightarrow> ('cc, 'bc, 'kc) blob_store \<Rightarrow> bool" where
  "unharmed D s e s' \<longleftrightarrow> store_inv D s' \<and> quiet D s s'"

lemma quiet_fields:
  assumes "quiet D s s'"
  shows "containers s' = containers s" "blocks s' = blocks s" "page_arrays s' = page_arrays s"
    "block_arrays s' = block_arrays s" "has_container D s' a c = has_container D s a c"
    "arrays_ok s' d = arrays_ok s d" "block_at D s' = block_at D s" "container_at D s' = container_at D s"
  using assms by (simp_all add: quiet_def has_container_def container_at_def block_at_def arrays_ok_def)

context blob_collections
begin

lemma wp_lookupI:
  assumes "store_inv D s"
    and "\<And>r s'. found D s a c n (default_snapshot sn) t fc r s' \<Longrightarrow> Q r s'"
    and "\<And>e s'. unharmed D s e s' \<Longrightarrow> R e s'"
  shows "wp (getBlobWithLeaseUpdated D a c n sn (at_time t) fe fc) Q R s"
  using assms by (intro wp_mono [OF wp_lookup [OF assms(1)]]) (auto simp: unharmed_def)

lemma wp_writable:
  assumes inv: "store_inv D s"
    and found: "\<And>i d s'. found D s a c n (default_snapshot sn) t fc (Some (i, d)) s' \<Longrightarrow> Q (i, d) s'"
    and failed: "\<And>e s'. unharmed D s e s' \<Longrightarrow> R e s'"
  shows "wp (writable_blob (getBlobWithLeaseUpdated D a c n sn (at_time t) fe fc) mac) Q R s"
  unfolding writable_blob_def wp_bind
proof (rule wp_lookupI [OF inv _ failed])
  fix r s' assume r: "found D s a c n (default_snapshot sn) t fc r s'"
  then have "unharmed D s e s'" for e by (simp add: found_def unharmed_def)
  then show "wp (lift_result (validateWriteConditions (given_conditions mac)
      (map_option (blob_condition \<circ> snd) r)))
    (\<lambda>x. wp (case r of None \<Rightarrow> throw getBlobNotFound | Some x \<Rightarrow> return x) Q R) R s'"
    using r found failed by (cases r) (auto split: sum.splits)
qed

lemma wp_readable:
  assumes inv: "store_inv D s"
    and found: "\<And>i d s'. found D s a c n (default_snapshot sn) t fc (Some (i, d)) s' \<Longrightarrow> Q (i, d) s'"
    and failed: "\<And>e s'. unharmed D s e s' \<Longrightarrow> R e s'"
  shows "wp (readable_blob (getBlobWithLeaseUpdated D a c n sn (at_time t) fe fc) mac src) Q R s"
  unfolding readable_blob_def wp_bind
proof (rule wp_lookupI [OF inv _ failed])
  fix r s' assume r: "found D s a c n (default_snapshot sn) t fc r s'"
  then have "unharmed D s e s'" for e by (simp add: found_def unharmed_def)
  then show "wp (lift_result (validateReadConditions (given_conditions mac)
      (map_option (blob_condition \<circ> snd) r) src))
    (\<lambda>x. wp (case r of None \<Rightarrow> throw getBlobNotFound | Some x \<Rightarrow> return x) Q R) R s'"
    using r found failed by (cases r) (auto split: sum.splits)
qed

text \<open>On a document that a lookup returned, the adapter changes nothing.\<close>

lemma put_same:
  assumes "store_inv D s" "blob_at D s i = Some d"
  shows "store_inv D (s\<lparr>blobs := set_doc (BLOBS_COLLECTION D) (blobs s) i d\<rparr>)"
    "quiet D s (s\<lparr>blobs := set_doc (BLOBS_COLLECTION D) (blobs s) i d\<rparr>)"
    "blob_at D (s\<lparr>blobs := set_doc (BLOBS_COLLECTION D) (blobs s) i d\<rparr>) = blob_at D s"
  using put_core [OF assms refl] store_invD(3) [OF assms] assms(2) blob_at_put [of s i d] by auto

lemma wp_check_write_lease:
  assumes s: "store_inv D s" "blob_at D s i = Some d" "leased_doc d"
    and ok: "\<And>s'. store_inv D s' \<Longrightarrow> quiet D s s' \<Longrightarrow> blob_at D s' = blob_at D s \<Longrightarrow>
      BlobWriteLeaseValidator_validate c (doc_lease d) = Inr () \<Longrightarrow> Q (doc_lease d, d) s'"
    and failed: "\<And>e s'. store_inv D s' \<Longrightarrow> quiet D s s' \<Longrightarrow>
      BlobWriteLeaseValidator_validate c (doc_lease d) = Inl e \<Longrightarrow> R e s'"
  shows "wp (check_write_lease D c i d) Q R s"
  using put_same [OF s(1,2)] ok failed s(3)
  by (cases "BlobWriteLeaseValidator_validate c (doc_lease d)")
    (simp_all add: check_write_lease_def adapter_leased put_blob_def)

lemma wp_check_read_lease:
  assumes s: "store_inv D s" "blob_at D s i = Some d" "leased_doc d"
    and ok: "\<And>s'. store_inv D s' \<Longrightarrow> quiet D s s' \<Longrightarrow> blob_at D s' = blob_at D s \<Longrightarrow>
      BlobReadLeaseValidator_validate c (doc_lease d) = Inr () \<Longrightarrow> Q d s'"
    and failed: "\<And>e s'. store_inv D s' \<Longrightarrow> quiet D s s' \<Longrightarrow>
      BlobReadLeaseValidator_validate c (doc_lease d) = Inl e \<Longrightarrow> R e s'"
  shows "wp (check_read_lease D c i d) Q R s"
  using put_same [OF s(1,2)] ok failed s(3)
  by (cases "BlobReadLeaseValidator_validate c (doc_lease d)")
    (simp_all add: check_read_lease_def adapter_leased put_blob_def)

lemma foundD:
  assumes "found D s a c n sn t fc (Some (i, d)) s'"
  shows "store_inv D s'" "quiet D s s'" "blob_at D s' i = Some d" "leased_doc d"
    "blob_key a c n sn d" "fc \<Longrightarrow> isCommitted d" "has_container D s a c"
  using assms by (auto simp: found_def)

text \<open>The start of a write that checks the lease next.\<close>

lemma wp_write:
  assumes inv: "store_inv D s"
    and body: "\<And>i d s1 s'. found D s a c n (default_snapshot sn) t fc (Some (i, d)) s1 \<Longrightarrow>
      store_inv D s' \<Longrightarrow> quiet D s s' \<Longrightarrow> blob_at D s' = blob_at D s1 \<Longrightarrow>
      BlobWriteLeaseValidator_validate lac (doc_lease d) = Inr () \<Longrightarrow> wp (K i (doc_lease d) d) Q R s'"
    and failed: "\<And>e s'. unharmed D s e s' \<Longrightarrow> R e s'"
  shows "wp (bind_op (writable_blob (getBlobWithLeaseUpdated D a c n sn (at_time t) fe fc) mac) (\<lambda>(i, d).
     bind_op (check_write_lease D lac i d) (\<lambda>(l, d'). K i l d'))) Q R s"
  unfolding wp_bind
proof (rule wp_writable [OF inv _ failed])
  fix i d s1 assume f: "found D s a c n (default_snapshot sn) t fc (Some (i, d)) s1"
  show "wp (case (i, d) of (i, d) \<Rightarrow> bind_op (check_write_lease D lac i d) (\<lambda>(l, d'). K i l d')) Q R s1"
    unfolding prod.case wp_bind
    using foundD [OF f] body [OF f] failed quiet_trans [OF foundD(2) [OF f]]
    by (intro wp_check_write_lease) (auto simp: unharmed_def)
qed

lemma wp_guarded_read:
  assumes inv: "store_inv D s"
    and body: "\<And>i d s1 s'. found D s a c n (default_snapshot sn) t fc (Some (i, d)) s1 \<Longrightarrow>
      store_inv D s' \<Longrightarrow> quiet D s s' \<Longrightarrow> blob_at D s' = blob_at D s1 \<Longrightarrow>
      BlobReadLeaseValidator_validate lac (doc_lease d) = Inr () \<Longrightarrow> wp (K i d) Q R s'"
    and failed: "\<And>e s'. unharmed D s e s' \<Longrightarrow> R e s'"
  shows "wp (bind_op (readable_blob (getBlobWithLeaseUpdated D a c n sn (at_time t) fe fc) mac src) (\<lambda>(i, d).
     bind_op (check_read_lease D lac i d) (\<lambda>d'. K i d'))) Q R s"
  unfolding wp_bind
proof (rule wp_readable [OF inv _ failed])
  fix i d s1 assume f: "found D s a c n (default_snapshot sn) t fc (Some (i, d)) s1"
  show "wp (case (i, d) of (i, d) \<Rightarrow> bind_op (check_read_lease D lac i d) (\<lambda>d'. K i d')) Q R s1"
    unfolding prod.case wp_bind
    using foundD [OF f] body [OF f] failed quiet_trans [OF foundD(2) [OF f]]
    by (intro wp_check_read_lease) (auto simp: unharmed_def)
qed

end

section \<open>Every operation keeps the invariant\<close>

lemma write_synced_wf:
  assumes "leased_doc d" "doc_lease e = doc_lease (BlobWriteLeaseSyncer_sync x (doc_lease d))"
  shows "doc_wf e"
  using leased_sync(2) [of "doc_lease d" x] assms by (simp add: leased_doc_def doc_wf_def)

text \<open>Same identity and same arrays.\<close>

definition same_frame :: "blob_doc \<Rightarrow> blob_doc \<Rightarrow> bool" where
  "same_frame d e \<longleftrightarrow> same_id d e \<and> pageRangesInOrder e = pageRangesInOrder d \<and>
     committedBlocksInOrder e = committedBlocksInOrder d"

lemmas frame_simps =
  same_frame_def same_id_def blob_key_def blob_path_def touch_def BlobWriteLeaseSyncer_sync_def
  BlobLeaseSyncer_sync_def set_sequence_number_def Let_def

text \<open>The end of a write: the document keeps its identity and its arrays, and a lease that has ended
  is given up.\<close>

definition written :: "blob_doc \<Rightarrow> blob_doc \<Rightarrow> bool" where
  "written d e \<longleftrightarrow> same_frame d e \<and>
     doc_lease e = doc_lease (BlobWriteLeaseSyncer_sync d (doc_lease d))"

context blob_collections
begin

lemma wp_put_inv:
  assumes "store_inv D s" "blob_at D s i = Some d" "same_frame d d'" "doc_wf d'"
    "store_inv D (s\<lparr>blobs := set_doc (BLOBS_COLLECTION D) (blobs s) i d'\<rparr>) \<Longrightarrow>
       Q () (s\<lparr>blobs := set_doc (BLOBS_COLLECTION D) (blobs s) i d'\<rparr>)"
  shows "wp (put_blob D i d') Q R s"
proof -
  have "arrays_ok s d'"
    using store_invD(4) [OF assms(1,2)] assms(3) by (simp add: arrays_ok_def same_frame_def)
  then show ?thesis
    using inv_put_blob [OF assms(1,2)] assms by (simp add: put_blob_def same_frame_def)
qed

lemma wp_put_written:
  assumes "store_inv D s" "blob_at D s i = Some d" "leased_doc d" "written d d'"
    "store_inv D (s\<lparr>blobs := set_doc (BLOBS_COLLECTION D) (blobs s) i d'\<rparr>) \<Longrightarrow>
       Q () (s\<lparr>blobs := set_doc (BLOBS_COLLECTION D) (blobs s) i d'\<rparr>)"
  shows "wp (put_blob D i d') Q R s"
  using assms write_synced_wf [of d d' d] by (intro wp_put_inv [of s i d]) (simp_all add: written_def)

text \<open>A write of the common form.\<close>

lemma wp_simple_write:
  assumes "store_inv D s" "\<And>d. written d (G (doc_lease d) d)"
  shows "wp (bind_op (writable_blob (getBlobWithLeaseUpdated D a c n sn (at_time t) fe fc) mac) (\<lambda>(i, d).
     bind_op (check_write_lease D lac i d) (\<lambda>(l, d'). store_blob D i (G l d')))) (\<lambda>_. store_inv D) (unharmed D s) s"
proof (rule wp_write [OF assms(1)])
  fix i d s1 s'
  assume f: "found D s a c n (default_snapshot sn) t fc (Some (i, d)) s1"
    and s': "store_inv D s'" "blob_at D s' = blob_at D s1"
  show "wp (store_blob D i (G (doc_lease d) d)) (\<lambda>_. store_inv D) (unharmed D s) s'"
    unfolding store_blob_def wp_bind
    using s' foundD [OF f] assms(2) by (intro wp_put_written [of s' i d]) simp_all
qed

lemma setBlobHTTPHeaders_inv:
  assumes "store_inv D s"
  shows "wp (setBlobHTTPHeaders D (at_time t) f a c n lac h mac) (\<lambda>_. store_inv D) (unharmed D s) s"
  unfolding setBlobHTTPHeaders_def committed_blob_def
  by (rule wp_simple_write [OF assms]) (simp add: written_def, simp add: frame_simps)

lemma setBlobMetadata_inv:
  assumes "store_inv D s"
  shows "wp (setBlobMetadata D (at_time t) f a c n lac md mac) (\<lambda>_. store_inv D) (unharmed D s) s"
  unfolding setBlobMetadata_def committed_blob_def
  by (rule wp_simple_write [OF assms]) (simp add: written_def, simp add: frame_simps)

end

end
