(* ===== verification/Blob_Store_Steps.thy ===== *)
theory Blob_Store_Steps
  imports Blob_Store_Invariant
begin

text \<open>
  Every operation of the blob metadata store keeps the store's invariant, and a request that is
  refused leaves the store as it was except for refreshed leases.
\<close>

section \<open>Documents handed to the store\<close>

definition pages_ok :: "blob_value \<Rightarrow> bool" where
  "pages_ok v \<longleftrightarrow> (\<forall>rs. pageRangesInOrder v = Some rs \<longrightarrow> wf_ranges rs)"

lemma with_arrays_simps [simp]:
  "accountName (with_arrays v ps bs) = accountName v" "containerName (with_arrays v ps bs) = containerName v"
  "blob_name (with_arrays v ps bs) = blob_name v" "blob_snapshot (with_arrays v ps bs) = blob_snapshot v"
  "isCommitted (with_arrays v ps bs) = isCommitted v" "properties (with_arrays v ps bs) = properties v"
  "blob_metadata (with_arrays v ps bs) = blob_metadata v" "blobTags (with_arrays v ps bs) = blobTags v"
  "pageRangesInOrder (with_arrays v ps bs) = ps" "committedBlocksInOrder (with_arrays v ps bs) = bs"
  "doc_lease (with_arrays v ps bs) = doc_lease v"
  by (simp_all add: with_arrays_def doc_lease_def)

lemma lease_chain_leased:
  assumes "leased_doc d" "blob_lease_chain (at_time t) op d = Inr d'"
  shows "leased_doc d'" "core d' = core d"
proof -
  from assms obtain l where l: "lease_request t op (doc_lease d) = Inr l"
    and d': "d' = BlobLeaseSyncer_sync d l"
    by (auto simp: blob_lease_chain_request map_sum_def split: sum.splits)
  show "leased_doc d'"
    using assms(1) lease_request_wf [OF _ l] lease_request_state [OF _ _ l] by (simp add: d' leased_doc_def)
  show "core d' = core d" by (simp add: d')
qed

context blob_collections
begin

lemma wp_check_write_lease_raw:
  assumes s: "store_inv D s" "blob_at D s i = Some d"
    and ok: "\<And>s'. store_inv D s' \<Longrightarrow> quiet D s s' \<Longrightarrow> blob_at D s' = (blob_at D s)(i \<mapsto> blob_lease_defaults d) \<Longrightarrow>
      BlobWriteLeaseValidator_validate c (doc_lease (blob_lease_defaults d)) = Inr () \<Longrightarrow>
      Q (doc_lease (blob_lease_defaults d), blob_lease_defaults d) s'"
    and failed: "\<And>e s'. store_inv D s' \<Longrightarrow> quiet D s s' \<Longrightarrow> R e s'"
  shows "wp (check_write_lease D c i d) Q R s"
proof -
  have "doc_wf (blob_lease_defaults d)"
    using leased_doc_wf [OF leased_defaults [OF store_invD(3) [OF s]]] .
  then show ?thesis
    using put_core [OF s, of "blob_lease_defaults d"] ok failed blob_at_put s(2)
    by (cases "BlobWriteLeaseValidator_validate c (doc_lease (blob_lease_defaults d))")
      (simp_all add: check_write_lease_def BlobLeaseAdapter_def put_blob_def Let_def)
qed

lemma wp_writable_any:
  assumes "wp m F R s" and "\<And>x s'. F (Some x) s' \<Longrightarrow> Q x s'" and "\<And>r s' e. F r s' \<Longrightarrow> R e s'"
  shows "wp (writable_blob m mac) Q R s"
  unfolding writable_blob_def wp_bind
  using assms(2,3) by (intro wp_mono [OF assms(1)]) (auto split: sum.splits option.splits)

lemma wp_getBlob:
  assumes inv: "store_inv D s"
  shows "wp (getBlob D a c n sn)
    (\<lambda>r s'. store_inv D s' \<and> quiet D s s' \<and> (\<forall>i d. r = Some (i, d) \<longrightarrow> blob_at D s' i = Some d))
    (unharmed D s) s"
  unfolding getBlob_def wp_bind
proof (rule wp_find_blob)
  fix i d assume "blob_at D s i = Some d"
  from wp_restore_blob [OF inv this] show "wp (case Some (i, d) of None \<Rightarrow> return None
     | Some (i, d) \<Rightarrow> bind_op (restore_blob D i d) (\<lambda>d1. return (Some (i, d1))))
    (\<lambda>r s'. store_inv D s' \<and> quiet D s s' \<and> (\<forall>i d. r = Some (i, d) \<longrightarrow> blob_at D s' i = Some d))
    (unharmed D s) s"
    by (auto simp: unharmed_def inv elim!: wp_mono)
qed (simp add: inv)

lemma sealBlob_inv:
  assumes inv: "store_inv D s"
  shows "wp (sealBlob D (at_time t) f a c n lac mac) (\<lambda>_. store_inv D) (unharmed D s) s"
  unfolding sealBlob_def wp_bind
proof (rule wp_writable_any [OF wp_getBlob [OF inv]], goal_cases)
  case (1 x s1)
  obtain i d where x: "x = (i, d)" by (cases x)
  with 1 have s1: "store_inv D s1" "quiet D s s1" "blob_at D s1 i = Some d" by auto
  let ?e = "blob_lease_defaults d"
  have w: "written ?e ((BlobWriteLeaseSyncer_sync ?e (doc_lease ?e))\<lparr>properties := p\<rparr>)" for p
    by (simp add: written_def, simp add: frame_simps)
  have l: "leased_doc ?e" using leased_defaults [OF store_invD(3) [OF s1(1,3)]] .
  show ?case
    using s1 quiet_trans [OF s1(2)] l w unfolding x prod.case wp_if wp_bind
    by (auto simp: unharmed_def store_blob_def Let_def
        intro!: wp_check_write_lease_raw wp_put_written [of _ i ?e])
qed (simp add: unharmed_def)

lemma setBlobTag_inv:
  assumes inv: "store_inv D s"
  shows "wp (setBlobTag D (at_time t) a c n sn lac tags mac) (\<lambda>_. store_inv D) (unharmed D s) s"
  unfolding setBlobTag_def committed_blob_def wp_bind
proof (rule wp_lookupI [OF inv])
  fix r s1 assume f: "found D s a c n (default_snapshot sn) t True r s1"
  show "wp (case r of None \<Rightarrow> throw getBlobNotFound
     | Some (i, d) \<Rightarrow> bind_op (check_write_lease D lac i d) (\<lambda>(l, d').
         put_blob D i ((BlobWriteLeaseSyncer_sync d' l)\<lparr>blobTags := tags\<rparr>)))
     (\<lambda>_. store_inv D) (unharmed D s) s1"
  proof (cases r)
    case None
    with f inv show ?thesis by (simp add: found_def unharmed_def)
  next
    case (Some x)
    obtain i d where r: "r = Some (i, d)" using Some by (cases x) auto
    note fd = foundD [OF f [unfolded r]]
    have "written d ((BlobWriteLeaseSyncer_sync d (doc_lease d))\<lparr>blobTags := tags\<rparr>)"
      by (simp add: written_def, simp add: frame_simps)
    then show ?thesis
      using fd quiet_trans [OF fd(2)] unfolding r
      by (auto simp: unharmed_def intro!: wp_check_write_lease wp_put_written [of _ i d])
  qed
qed

end

context blob_collections
begin

lemma setTier_inv:
  assumes inv: "store_inv D s"
  shows "wp (setTier D (at_time t) a c n tier lac) (\<lambda>_. store_inv D) (unharmed D s) s"
  unfolding setTier_def wp_bind
proof (rule wp_lookupI [OF inv], goal_cases)
  case (1 r s1)
  show ?case
  proof (cases r)
    case None
    with 1 inv show ?thesis by (simp add: found_def unharmed_def)
  next
    case (Some x)
    obtain i d where r: "r = Some (i, d)" using Some by (cases x) auto
    note fd = foundD [OF 1 [unfolded r]]
    have "written d (BlobWriteLeaseSyncer_sync (d\<lparr>properties := p\<rparr>) (doc_lease d))" for p
      by (simp add: written_def, simp add: frame_simps)
    then show ?thesis
      using fd quiet_trans [OF fd(2)] unfolding r
      by (auto simp: unharmed_def Let_def intro!: wp_check_write_lease wp_put_written [of _ i d])
  qed
qed

lemma wp_blob_lease_request:
  assumes inv: "store_inv D s"
  shows "wp (blob_lease_request D (at_time t) a c n mac op) (\<lambda>_. store_inv D) (unharmed D s) s"
  unfolding blob_lease_request_def any_blob_def wp_bind
proof (rule wp_writable [OF inv], goal_cases)
  case (1 i d s1)
  note fd = foundD [OF 1]
  note same = put_same [OF fd(1,3)]
  let ?s = "s1\<lparr>blobs := set_doc (BLOBS_COLLECTION D) (blobs s1) i d\<rparr>"
  have "wp (bind_op (lift_result (blob_lease_chain (at_time t) op d)) (\<lambda>d'.
      bind_op (put_blob D i d') (\<lambda>_. return d'))) (\<lambda>_. store_inv D) (unharmed D s) ?s"
  proof (cases "blob_lease_chain (at_time t) op d")
    case (Inl e)
    then show ?thesis using same quiet_trans [OF fd(2) same(2)] by (simp add: unharmed_def)
  next
    case (Inr d')
    note l = lease_chain_leased [OF fd(4) Inr]
    show ?thesis
      using Inr put_core(1) [OF same(1), of i d d'] same(3) fd(3) l leased_doc_wf [OF l(1)]
      by (simp add: put_blob_def)
  qed
  then show ?case using fd by (simp add: put_blob_def unharmed_def)
qed

lemma blob_lease_inv:
  assumes "store_inv D s"
  shows "wp (acquireBlobLease D (at_time t) f a c n dur pid mac) (\<lambda>_. store_inv D) (unharmed D s) s"
    "wp (releaseBlobLease D (at_time t) a c n lid mac) (\<lambda>_. store_inv D) (unharmed D s) s"
    "wp (renewBlobLease D (at_time t) a c n lid mac) (\<lambda>_. store_inv D) (unharmed D s) s"
    "wp (changeBlobLease D (at_time t) a c n lid pid' mac) (\<lambda>_. store_inv D) (unharmed D s) s"
    "wp (breakBlobLease D (at_time t) a c n per mac) (\<lambda>_. store_inv D) (unharmed D s) s"
  unfolding acquireBlobLease_def releaseBlobLease_def renewBlobLease_def changeBlobLease_def
    breakBlobLease_def wp_bind
  by (rule wp_mono [OF wp_blob_lease_request [OF assms]]; simp)+

text \<open>Reads.\<close>

lemma read_inv:
  assumes inv: "store_inv D s"
  shows "wp (downloadBlob D (at_time t) a c n sn lac mac) (\<lambda>_. store_inv D) (unharmed D s) s"
    "wp (getBlobTag D (at_time t) a c n sn lac mac) (\<lambda>_. store_inv D) (unharmed D s) s"
  unfolding downloadBlob_def getBlobTag_def committed_blob_def
  by (rule wp_guarded_read [OF inv]; simp)+

lemma getBlobProperties_inv:
  assumes inv: "store_inv D s"
  shows "wp (getBlobProperties D (at_time t) a c n sn lac mac) (\<lambda>_. store_inv D) (unharmed D s) s"
  unfolding getBlobProperties_def committed_blob_def
proof (rule wp_guarded_read [OF inv], goal_cases)
  case (1 i d s1 s')
  note fd = foundD [OF 1(1)]
  have frame: "same_frame d (d\<lparr>properties := p\<rparr>)" for p by (simp add: frame_simps)
  have wf: "doc_wf (d\<lparr>properties := p\<rparr>)" for p using leased_doc_wf [OF fd(4)] by (simp add: doc_wf_def)
  show ?case unfolding Let_def wp_bind
    using 1 fd frame wf by (intro wp_put_inv [of s' i d]) simp_all
qed

lemma getPageRanges_inv:
  assumes inv: "store_inv D s"
  shows "wp (getPageRanges D (at_time t) a c n sn lac mac) (\<lambda>_. store_inv D) (unharmed D s) s"
  unfolding getPageRanges_def committed_blob_def wp_bind
proof (rule wp_readable [OF inv], goal_cases)
  case (1 i d s1)
  note fd = foundD [OF 1]
  show ?case unfolding prod.case wp_if wp_bind
    using fd quiet_trans [OF fd(2)] by (auto simp: unharmed_def intro!: wp_check_read_lease)
qed

lemma getBlockList_inv:
  assumes inv: "store_inv D s"
  shows "wp (getBlockList D (at_time t) a c n sn b lac mac) (\<lambda>_. store_inv D) (unharmed D s) s"
  unfolding getBlockList_def
proof (rule wp_guarded_read [OF inv], goal_cases)
  case (1 i d s1 s')
  then show ?case by (simp add: unharmed_def staged_blocks_def)
qed simp

text \<open>Deletion.\<close>

lemma inv_remove_blobs: "store_inv D s \<Longrightarrow> wp (remove_blobs D p) (\<lambda>_. store_inv D) R s"
  by (auto simp: remove_blobs_def blob_at_def blob.findAndRemove_get split: option.splits if_splits
      intro!: inv_blobs_subset)

lemma inv_remove_blocks: "store_inv D s \<Longrightarrow> wp (remove_blocks D p) (\<lambda>_. store_inv D) R s"
  by (auto simp: remove_blocks_def block_at_def block.findAndRemove_get split: option.splits if_splits
      intro!: inv_blocks_subset)

lemma deleteBlob_inv:
  assumes inv: "store_inv D s"
  shows "wp (deleteBlob D (at_time t) a c n sn del lac mac) (\<lambda>_. store_inv D) (unharmed D s) s"
  unfolding deleteBlob_def any_blob_def wp_bind
proof (intro wp_checkContainerExist wp_writable [OF inv], goal_cases)
  case (1 i d s1)
  note fd = foundD [OF 1(2)]
  show ?case unfolding prod.case Let_def wp_if wp_bind
    using fd quiet_trans [OF fd(2)]
    by (auto simp: unharmed_def intro!: wp_check_write_lease inv_remove_blobs)
qed (simp_all add: unharmed_def inv)

end

section \<open>Inserting a blob\<close>

lemma with_arrays_same: "with_arrays v (pageRangesInOrder v) (committedBlocksInOrder v) = v"
  by (simp add: with_arrays_def)

lemma with_arrays_twice [simp]: "with_arrays (with_arrays v ps bs) qs cs = with_arrays v qs cs"
  by (simp add: with_arrays_def)

lemma array_at_append [simp]:
  "array_at (h @ [xs]) (length h) = xs" "a < length h \<Longrightarrow> array_at (h @ hs) a = array_at h a"
  by (simp_all add: array_at_def nth_append)

definition inserted ::
  "('cc, 'bc, 'kc) blob_db \<Rightarrow> ('cc, 'bc, 'kc) blob_store \<Rightarrow> blob_value \<Rightarrow> ('cc, 'bc, 'kc) blob_store \<Rightarrow> bool" where
  "inserted D s v s' \<longleftrightarrow> store_inv D s' \<and> containers s' = containers s \<and> blocks s' = blocks s \<and>
     (\<exists>ps bs. page_arrays s' = page_arrays s @ ps \<and> block_arrays s' = block_arrays s @ bs) \<and>
     (\<exists>i d. blob_at D s i = None \<and> blob_at D s' = (blob_at D s)(i \<mapsto> d) \<and> blob_value s' d = v)"

text \<open>The effect of \<open>createBlob\<close>: the document is in the store, with a lease that it may have
  inherited.\<close>

definition created ::
  "('cc, 'bc, 'kc) blob_db \<Rightarrow> ('cc, 'bc, 'kc) blob_store \<Rightarrow> blob_value \<Rightarrow> ('cc, 'bc, 'kc) blob_store \<Rightarrow> bool" where
  "created D s v s' \<longleftrightarrow> (\<exists>s0 w. inserted D s0 w s' \<and> containers s0 = containers s \<and>
     BlobLeaseSyncer_sync w undefined_lease = BlobLeaseSyncer_sync v undefined_lease)"

lemma lease_free_sync [simp]:
  "BlobLeaseSyncer_sync (BlobWriteLeaseSyncer_sync v l) k = BlobLeaseSyncer_sync v k"
  "BlobLeaseSyncer_sync (BlobLeaseSyncer_sync v l) k = BlobLeaseSyncer_sync v k"
  by (simp_all add: BlobLeaseSyncer_sync_def BlobWriteLeaseSyncer_sync_def)

context blob_collections
begin

lemma wp_insert_blob:
  assumes inv: "store_inv D s" and v: "doc_wf v" "pages_ok v"
    "has_container D s (accountName v) (containerName v)"
    and new: "\<And>i e. blob_at D s i = Some e \<Longrightarrow> blob_snapshot v = [] \<Longrightarrow>
      \<not> blob_key (accountName v) (containerName v) (blob_name v) [] e"
    and post: "\<And>s'. inserted D s v s' \<Longrightarrow> Q () s'"
  shows "wp (insert_blob D v) Q R s"
proof -
  define ps where "ps = (case pageRangesInOrder v of None \<Rightarrow> [] | Some rs \<Rightarrow> [rs])"
  define bs where "bs = (case committedBlocksInOrder v of None \<Rightarrow> [] | Some ks \<Rightarrow> [ks])"
  define d where "d = with_arrays v (map_option (\<lambda>_. length (page_arrays s)) (pageRangesInOrder v))
    (map_option (\<lambda>_. length (block_arrays s)) (committedBlocksInOrder v))"
  define s1 where "s1 = s\<lparr>page_arrays := page_arrays s @ ps, block_arrays := block_arrays s @ bs\<rparr>"
  define s2 where "s2 = s1\<lparr>blobs := insert_doc (BLOBS_COLLECTION D) (blobs s1) d\<rparr>"
  have run: "wp (insert_blob D v) Q R s = Q () s2"
    by (auto simp: insert_blob_def wp_def bind_op_def new_page_array_def new_block_array_def
        insert_doc_blob_def update_op_def s2_def s1_def ps_def bs_def d_def split: option.splits)
  have inv1: "store_inv D s1" unfolding s1_def
    using inv v(2) store_invD(9) [OF inv]
    by (intro inv_block_arrays inv_page_arrays) (auto simp: ps_def pages_ok_def split: option.splits)
  have at1: "blob_at D s1 = blob_at D s" by (simp add: s1_def)
  have ok: "arrays_ok s1 d"
    by (auto simp: arrays_ok_def d_def s1_def ps_def bs_def split: option.splits)
  have inv2: "store_inv D s2" unfolding s2_def
  proof (rule inv_insert_blob [OF inv1 _ ok])
    show "doc_wf d" using v(1) by (simp add: d_def doc_wf_def)
    show "has_container D s1 (accountName d) (containerName d)" using v(3) by (simp add: d_def s1_def)
    show "\<not> same_base d e" if "blob_at D s1 i = Some e" for i e
      using new [of i e] that by (auto simp: same_base_def d_def at1)
  qed
  have val: "blob_value s2 d = v"
    using with_arrays_same [of v]
    by (auto simp: blob_value_def d_def s2_def s1_def ps_def bs_def option.map_comp comp_def split: option.splits)
  obtain i where "blob_at D s1 i = None" "blob_at D s2 = (blob_at D s1)(i \<mapsto> d)"
    unfolding s2_def blob_at_def by (rule blob.insert_getE [of "blobs s1" d]) simp
  then have "inserted D s v s2"
    using inv2 val at1 by (auto simp: inserted_def) (auto simp: s2_def s1_def)
  then show ?thesis using run post by simp
qed

lemma inserted_inv: "inserted D s v s' \<Longrightarrow> store_inv D s'"
  by (simp add: inserted_def)

text \<open>\<open>createBlob\<close>: the new document inherits the lease of the one it replaces.\<close>

lemma createBlob_created:
  assumes inv: "store_inv D s" and v: "doc_wf v" "pages_ok v"
  shows "wp (createBlob D (at_time t) v lac mac) (\<lambda>_. created D s v) (unharmed D s) s"
  unfolding createBlob_def wp_bind
proof (intro wp_checkContainerExist wp_find_blob, goal_cases)
  case (1 i d)
  let ?e = "blob_lease_defaults d"
  have l: "leased_doc ?e" using leased_defaults [OF store_invD(3) [OF inv 1(2)]] .
  note put = put_core [OF inv 1(2), of ?e, simplified, OF leased_doc_wf [OF l]]
  let ?s = "s\<lparr>blobs := set_doc (BLOBS_COLLECTION D) (blobs s) i ?e\<rparr>"
  let ?r = "?s\<lparr>blobs := remove_doc (BLOBS_COLLECTION D) (blobs ?s) i\<rparr>"
  have at: "blob_at D ?s = (blob_at D s)(i \<mapsto> ?e)" using blob_at_put 1(2) by simp
  have rm: "blob_at D ?r = (blob_at D s)(i := None)"
    using at by (simp add: blob_at_def blob.remove_get fun_upd_idem_iff)
  have invr: "store_inv D ?r"
    using put(1) by (rule inv_blobs_subset)
      (simp add: blob_at_def blob.remove_get split: if_splits)
  have new: "\<not> blob_key (accountName v) (containerName v) (blob_name v) [] e"
    if "blob_at D ?r j = Some e" "blob_snapshot v = []" for j e
  proof
    assume "blob_key (accountName v) (containerName v) (blob_name v) [] e"
    then have "same_base d e" using 1(3) that(2) by (auto simp: same_base_def blob_key_def blob_path_def)
    then show False using store_invD(6) [OF inv 1(2)] that(1) rm by (auto split: if_splits)
  qed
  have ins: "wp (insert_blob D (LeaseStateBase_sync (BlobWriteLeaseSyncer_sync v) st)) (\<lambda>_. created D s v) (unharmed D s) ?r"
    if "createLeaseState (doc_lease ?e) (at_time t) = Inr st" for st
  proof (rule wp_insert_blob [OF invr])
    have st: "leaseState (lease st) \<noteq> None \<and> lease_wf (lease st)"
      using factory_state_wf [OF _ _ that] l by (simp add: leased_doc_def)
    then show "doc_wf (LeaseStateBase_sync (BlobWriteLeaseSyncer_sync v) st)"
      using leased_sync(2) [of "lease st" v] leased_doc_wf by (simp add: LeaseStateBase_sync_def)
    show "created D s v s'" if "inserted D ?r (LeaseStateBase_sync (BlobWriteLeaseSyncer_sync v) st) s'" for s'
      using that unfolding created_def
      by (intro exI [of _ ?r] exI [of _ "BlobWriteLeaseSyncer_sync v (lease st)"])
        (simp add: LeaseStateBase_sync_def)
  qed (use v 1(1) new in \<open>auto simp: pages_ok_def LeaseStateBase_sync_def BlobWriteLeaseSyncer_sync_def has_container_def\<close>)
  show ?case
    using inv put ins
    by (auto simp: unharmed_def BlobLeaseAdapter_def Let_def put_blob_def remove_blob_def
        LeaseStateBase_validate_def bind_result_Inr_iff split: sum.splits)
next
  case 2
  have "wp (insert_blob D v) (\<lambda>_. created D s v) (unharmed D s) s"
  proof (rule wp_insert_blob [OF inv v])
    show "\<not> blob_key (accountName v) (containerName v) (blob_name v) [] e"
      if "blob_at D s i = Some e" "blob_snapshot v = []" for i e
      using 2(2) that by auto
  qed (use 2 in \<open>auto simp: has_container_def created_def\<close>)
  then show ?case using inv by (auto simp: unharmed_def split: sum.splits)
qed (simp add: unharmed_def inv)

lemma createBlob_inv:
  assumes "store_inv D s" "doc_wf v" "pages_ok v"
  shows "wp (createBlob D (at_time t) v lac mac) (\<lambda>_. store_inv D) (unharmed D s) s"
  by (rule wp_mono [OF createBlob_created [OF assms]]) (auto simp: created_def inserted_inv)

end

section \<open>Snapshots and copies\<close>

lemma convert_not_Nil: "convertDateTimeStringMsTo7Digital z = [] \<longleftrightarrow> z = []"
  by (cases z) simp_all

lemma toISOString_not_Nil: "toISOString d = Inr z \<Longrightarrow> z \<noteq> []"
  by (cases d) (auto simp: Let_def split: prod.splits)

lemma wf_ranges_Nil [simp]: "wf_ranges []"
  by (simp add: wf_ranges_def)

lemma wf_array_at: "list_all wf_ranges h \<Longrightarrow> wf_ranges (array_at h a)"
  by (simp add: array_at_def list_all_length)

lemma snapshot_value_simps [simp]:
  "accountName (snapshot_value sn md v) = accountName v" "containerName (snapshot_value sn md v) = containerName v"
  "blob_name (snapshot_value sn md v) = blob_name v" "blob_snapshot (snapshot_value sn md v) = sn"
  "pageRangesInOrder (snapshot_value sn md v) = pageRangesInOrder v"
  "committedBlocksInOrder (snapshot_value sn md v) = committedBlocksInOrder v"
  "properties (snapshot_value sn md v) = properties v"
  "doc_lease (snapshot_value sn md v) = undefined_lease"
  by (simp_all add: snapshot_value_def, simp_all add: BlobLeaseSyncer_sync_def)

lemma blob_value_simps [simp]:
  "accountName (blob_value s d) = accountName d" "containerName (blob_value s d) = containerName d"
  "blob_name (blob_value s d) = blob_name d" "blob_snapshot (blob_value s d) = blob_snapshot d"
  "properties (blob_value s d) = properties d"
  "pageRangesInOrder (blob_value s d) = map_option (array_at (page_arrays s)) (pageRangesInOrder d)"
  "committedBlocksInOrder (blob_value s d) = map_option (array_at (block_arrays s)) (committedBlocksInOrder d)"
  by (simp_all add: blob_value_def)

lemma copied_blob_simps [simp]:
  "accountName (copied_blob src dst de p md ts) = id_account de"
  "containerName (copied_blob src dst de p md ts) = id_container de"
  "blob_name (copied_blob src dst de p md ts) = id_blob de"
  "blob_snapshot (copied_blob src dst de p md ts) = []"
  "pageRangesInOrder (copied_blob src dst de p md ts) = pageRangesInOrder src"
  "committedBlocksInOrder (copied_blob src dst de p md ts) = committedBlocksInOrder src"
  "properties (copied_blob src dst de p md ts) = p"
  "isCommitted (copied_blob src dst de p md ts) = isCommitted src"
  by (simp_all add: copied_blob_def)

lemma copied_blob_lease:
  "doc_lease (copied_blob src dst de p md ts) =
     (case dst of None \<Rightarrow> available_lease | Some d \<Rightarrow> doc_lease d)"
  by (simp add: copied_blob_def doc_lease_def available_lease_def split: option.splits)

lemma copied_tier_frame:
  assumes "copied_tier tier d = Inr d'"
  shows "same_frame d d'" "doc_lease d' = doc_lease d"
proof -
  have "d' = d \<or> (\<exists>a. d' = d\<lparr>properties := (properties d)\<lparr>accessTier := Some a\<rparr>\<rparr>)"
    using assms by (auto simp: copied_tier_def split: option.splits if_splits)
  then show "same_frame d d'" "doc_lease d' = doc_lease d"
    by (elim disjE exE; simp add: frame_simps)+
qed

lemma toISOString_total: "\<exists>z. toISOString (Valid t) = Inr z"
  by (cases "civil_date (t div 86400000)") (simp add: Let_def)

context blob_collections
begin

lemma createSnapshot_inv:
  assumes inv: "store_inv D s"
  shows "wp (createSnapshot D (at_time t) a c n lac md mac) (\<lambda>_. store_inv D) (unharmed D s) s"
  unfolding createSnapshot_def committed_blob_def
proof (rule wp_guarded_read [OF inv], goal_cases)
  case (1 i d s1 s')
  note fd = foundD [OF 1(1)]
  obtain z where z: "toISOString (Valid t) = Inr z" using toISOString_total by blast
  let ?v = "snapshot_value (convertDateTimeStringMsTo7Digital z) md (blob_value s' d)"
  have "wp (insert_blob D ?v) (\<lambda>_. store_inv D) (unharmed D s) s'"
  proof (rule wp_insert_blob [OF 1(2)])
    show "doc_wf ?v" by (simp add: doc_wf_def)
    show "pages_ok ?v" using store_invD(9) [OF 1(2)] by (auto simp: pages_ok_def wf_array_at)
    show "has_container D s' (accountName ?v) (containerName ?v)"
      using store_invD(5) [OF 1(2)] 1(4) fd(3) by simp
  qed (auto simp: convert_not_Nil toISOString_not_Nil [OF z] inserted_inv)
  then show ?case using z by (simp add: at_time_def del: toISOString.simps)
qed simp

lemma wp_finish_copy:
  assumes inv: "store_inv D s" and d: "doc_wf d" "arrays_ok s d" "blob_snapshot d = []"
    "has_container D s (accountName d) (containerName d)"
    and dest: "\<And>j e. blob_at D s j = Some e \<Longrightarrow> same_base d e \<Longrightarrow> \<exists>x. dest = Some (j, x)"
  shows "wp (finish_copy D dest d) (\<lambda>_. store_inv D) R s"
proof -
  let ?s = "case dest of None \<Rightarrow> s
    | Some (j, x) \<Rightarrow> s\<lparr>blobs := remove_doc (BLOBS_COLLECTION D) (blobs s) j\<rparr>"
  have get: "blob_at D ?s j = (if \<exists>x. dest = Some (j, x) then None else blob_at D s j)" for j
    by (auto simp: blob_at_def blob.remove_get split: option.splits)
  have "store_inv D ?s"
    using inv by (auto split: option.splits intro!: inv_blobs_subset
        simp: blob_at_def blob.remove_get split: if_splits)
  moreover have "arrays_ok ?s d" "has_container D ?s (accountName d) (containerName d)"
    using d by (auto split: option.splits)
  moreover have "\<not> same_base d e" if "blob_at D ?s j = Some e" for j e
    using dest [of j e] that by (auto simp: get split: if_splits)
  ultimately have "store_inv D (?s\<lparr>blobs := insert_doc (BLOBS_COLLECTION D) (blobs ?s) d\<rparr>)"
    using d by (intro inv_insert_blob)
  then show ?thesis
    by (auto simp: finish_copy_def remove_blob_def insert_doc_blob_def split: option.splits)
qed

end

definition dest_ok ::
  "('cc, 'bc, 'kc) blob_db \<Rightarrow> ('cc, 'bc, 'kc) blob_store \<Rightarrow> BlobId \<Rightarrow> (nat \<times> blob_doc) option \<Rightarrow> bool" where
  "dest_ok D s de dest \<longleftrightarrow>
     (case dest of
        None \<Rightarrow> \<forall>i d. blob_at D s i = Some d \<longrightarrow> \<not> blob_key (id_account de) (id_container de) (id_blob de) [] d
      | Some (j, e) \<Rightarrow> blob_at D s j = Some e \<and> leased_doc e \<and>
          blob_key (id_account de) (id_container de) (id_blob de) [] e)"

lemma dest_ok_found:
  assumes "found D s (id_account de) (id_container de) (id_blob de) [] t False r s'"
  shows "dest_ok D s' de r"
  using assms by (auto simp: found_def dest_ok_def split: option.splits)

context blob_collections
begin

lemma wp_copy_source:
  assumes inv: "store_inv D s"
  shows "wp (copy_source D (at_time t) so mac src)
    (\<lambda>r s'. store_inv D s' \<and> quiet D s s') (unharmed D s) s"
  unfolding copy_source_def wp_bind
proof (rule wp_lookupI [OF inv], goal_cases)
  case (1 r s')
  then show ?case by (auto simp: found_def unharmed_def split: sum.splits)
qed

lemma wp_copy_destination:
  assumes inv: "store_inv D s"
  shows "wp (copy_destination D (at_time t) de mac)
    (\<lambda>r s'. store_inv D s' \<and> quiet D s s' \<and> dest_ok D s' de r) (unharmed D s) s"
  unfolding copy_destination_def any_blob_def wp_bind
proof (rule wp_lookupI [OF inv], goal_cases)
  case (1 r s')
  then have "found D s (id_account de) (id_container de) (id_blob de) [] t False r s'"
    by (simp add: default_snapshot_def)
  from dest_ok_found [OF this] 1 show ?case
    by (auto simp: found_def unharmed_def split: sum.splits)
qed

lemma wp_copy_tail:
  assumes inv: "store_inv D s" and dest: "dest_ok D s de dest" and src: "blob_at D s i = Some src"
    and cont: "has_container D s (id_account de) (id_container de)"
    and d: "copied_tier tier (copied_blob src (map_option snd dest) de p md ts) = Inr d"
  shows "wp (finish_copy D dest d) (\<lambda>_. store_inv D) R s"
proof -
  let ?c = "copied_blob src (map_option snd dest) de p md ts"
  note frame = copied_tier_frame [OF d]
  have key: "accountName d = id_account de" "containerName d = id_container de"
    "blob_name d = id_blob de" "blob_snapshot d = []"
    using frame(1) by (simp_all add: same_frame_def same_id_def blob_key_def blob_path_def)
  have lease: "leaseState (doc_lease d) \<noteq> None \<and> lease_wf (doc_lease d)"
    using dest leased_available
    by (auto simp: frame(2) copied_blob_lease dest_ok_def leased_doc_def split: option.splits)
  show ?thesis
  proof (rule wp_finish_copy [OF inv])
    show "doc_wf d" using lease by (simp add: doc_wf_def)
    show "arrays_ok s d"
      using store_invD(4) [OF inv src] frame(1) by (simp add: arrays_ok_def same_frame_def)
    show "\<exists>x. dest = Some (j, x)" if "blob_at D s j = Some e" "same_base d e" for j e
    proof (cases dest)
      case None
      with dest that key show ?thesis by (auto simp: dest_ok_def same_base_def)
    next
      case (Some x)
      then have x: "blob_at D s (fst x) = Some (snd x)" "same_base (snd x) e"
        using dest that(2) key by (auto simp: dest_ok_def same_base_def blob_key_def blob_path_def)
      then show ?thesis using store_invD(6) [OF inv x(1) that(1) x(2)] Some by (cases x) auto
    qed
  qed (use key cont in simp_all)
qed

lemma startCopyFromURL_inv:
  assumes inv: "store_inv D s"
  shows "wp (startCopyFromURL D (at_time t) f so de url md tier smac mac lac sealed tags)
    (\<lambda>_. store_inv D) (unharmed D s) s"
  unfolding startCopyFromURL_def wp_bind
proof (rule wp_mono [OF wp_copy_source [OF inv]], goal_cases)
  case (1 r s1)
  then have s1: "store_inv D s1" "quiet D s s1" by simp_all
  show ?case
  proof (rule wp_mono [OF wp_copy_destination [OF s1(1)]], goal_cases)
    case (1 dst s2)
    then have s2: "store_inv D s2" "quiet D s s2" "dest_ok D s2 de dst"
      using quiet_trans [OF s1(2)] by simp_all
    have lock: "wp (case dst of None \<Rightarrow> return None
        | Some (j, e) \<Rightarrow> bind_op (check_write_lease D lac j e) (\<lambda>(l, e'). return (Some (j, e'))))
      (\<lambda>r s'. store_inv D s' \<and> quiet D s s' \<and> dest_ok D s' de r) (unharmed D s) s2"
      using s2 quiet_trans [OF s2(2)]
      by (auto simp: dest_ok_def unharmed_def split: option.splits intro!: wp_check_write_lease)
    show ?case
    proof (rule wp_mono [OF lock], goal_cases)
      case (1 dest s3)
      then show ?case
        by (auto simp: unharmed_def blob_at_def Let_def simp del: split_paired_All
            split: option.splits sum.splits intro!: wp_checkContainerExist wp_copy_tail)
    qed simp
  qed (use quiet_trans [OF s1(2)] in \<open>auto simp: unharmed_def\<close>)
qed simp

end

lemma write_chain_leased:
  assumes "doc_wf d" "blob_write_chain (at_time t) lac d = Inr d'"
  shows "leased_doc d'" "core d' = core d"
proof -
  from assms(2) obtain st where
    st: "createLeaseState (doc_lease (blob_lease_defaults d)) (at_time t) = Inr st"
    and d': "d' = BlobWriteLeaseSyncer_sync (blob_lease_defaults d) (lease st)"
    by (auto simp: lease_chains bind_result_Inr_iff)
  from leased_defaults [OF assms(1)] have "lease_wf (lease st) \<and> leaseState (lease st) \<noteq> None"
    by (intro factory_state_wf [OF _ _ st]) (auto simp: leased_doc_def)
  then show "leased_doc d'" "core d' = core d" by (simp_all add: d' leased_sync)
qed

context blob_collections
begin

lemma copyFromURL_inv:
  assumes inv: "store_inv D s"
  shows "wp (copyFromURL D (at_time t) f so de url md tier smac mac lac ctags tags)
    (\<lambda>_. store_inv D) (unharmed D s) s"
  unfolding copyFromURL_def wp_bind
proof (rule wp_mono [OF wp_copy_source [OF inv]], goal_cases)
  case (1 r s1)
  then have s1: "store_inv D s1" "quiet D s s1" by simp_all
  show ?case
  proof (rule wp_mono [OF wp_copy_destination [OF s1(1)]], goal_cases)
    case (1 dst s2)
    then have s2: "store_inv D s2" "quiet D s s2" "dest_ok D s2 de dst"
      using quiet_trans [OF s1(2)] by simp_all
    have lock: "wp (case dst of None \<Rightarrow> return None
        | Some (j, e) \<Rightarrow> (let (l, e') = BlobLeaseAdapter e; e'' = BlobWriteLeaseSyncer_sync e' l in
          bind_op (put_blob D j e'') (\<lambda>_.
          bind_op (lift_result (BlobWriteLeaseValidator_validate lac l)) (\<lambda>_.
          return (Some (j, e''))))))
      (\<lambda>r s'. store_inv D s' \<and> quiet D s s' \<and> dest_ok D s' de r) (unharmed D s) s2"
    proof (cases dst)
      case None
      with s2 show ?thesis by simp
    next
      case (Some x)
      obtain j e where dst: "dst = Some (j, e)" using Some by (cases x) auto
      with s2(3) have e: "blob_at D s2 j = Some e" "leased_doc e"
        "blob_key (id_account de) (id_container de) (id_blob de) [] e" by (auto simp: dest_ok_def)
      let ?e = "BlobWriteLeaseSyncer_sync e (doc_lease e)"
      let ?s = "s2\<lparr>blobs := set_doc (BLOBS_COLLECTION D) (blobs s2) j ?e\<rparr>"
      have l: "leased_doc ?e" using e(2) leased_sync(2) by (simp add: leased_doc_def)
      note put = put_core [OF s2(1) e(1), of ?e, simplified, OF leased_doc_wf [OF l]]
      have "dest_ok D ?s de (Some (j, ?e))"
        using e l blob_at_put [of s2 j ?e] core_key(1) [of ?e e] by (simp add: dest_ok_def)
      then show ?thesis
        using put e quiet_trans [OF s2(2) put(2)]
        by (simp add: dst adapter_leased put_blob_def unharmed_def Let_def split: sum.splits)
    qed
    show ?case
    proof (rule wp_mono [OF lock], goal_cases)
      case (1 dest s3)
      then show ?case
        by (auto simp: unharmed_def blob_at_def Let_def simp del: split_paired_All
            split: option.splits sum.splits intro!: wp_checkContainerExist wp_copy_tail)
    qed simp
  qed (use quiet_trans [OF s1(2)] in \<open>auto simp: unharmed_def\<close>)
qed simp

section \<open>Blocks and pages\<close>

lemma inv_replace_block:
  assumes inv: "store_inv D s" and cont: "has_container D s (block_accountName b) (block_containerName b)"
  shows "wp (bind_op (find_block D (\<lambda>e. block_path (block_accountName b) (block_containerName b)
         (block_blobName b) e \<and> block_name e = block_name b \<and>
         block_isCommitted e = block_isCommitted b)) (\<lambda>blockDoc.
      bind_op (case blockDoc of
         None \<Rightarrow> return ()
       | Some (k, _) \<Rightarrow> update_op (\<lambda>s. s\<lparr>blocks := remove_doc (BLOCKS_COLLECTION D) (blocks s) k\<rparr>)) (\<lambda>_.
      insert_block D b))) (\<lambda>_. store_inv D) R s"
  unfolding wp_bind
proof (rule wp_find_block, goal_cases)
  case (1 k e)
  let ?s = "s\<lparr>blocks := remove_doc (BLOCKS_COLLECTION D) (blocks s) k\<rparr>"
  have get: "block_at D ?s = (block_at D s)(k := None)" by (simp add: block_at_def block.remove_get)
  have inv': "store_inv D ?s"
    using inv by (rule inv_blocks_subset) (simp add: block_at_def block.remove_get split: if_splits)
  have new: "\<not> same_block b x" if "block_at D ?s i = Some x" for i x
  proof
    assume "same_block b x"
    then have "same_block e x" using 1(2) by (auto simp: same_block_def block_path_def)
    then show False using store_invD(8) [OF inv 1(1)] that by (auto simp: get split: if_splits)
  qed
  have "store_inv D (?s\<lparr>blocks := insert_doc (BLOCKS_COLLECTION D) (blocks ?s) b\<rparr>)"
    using cont new by (intro inv_insert_block [OF inv']) auto
  then show ?case by (simp add: insert_block_def)
next
  case 2
  have "\<not> same_block b x" if "block_at D s i = Some x" for i x
    using 2 that by (auto simp: same_block_def)
  then have "store_inv D (s\<lparr>blocks := insert_doc (BLOCKS_COLLECTION D) (blocks s) b\<rparr>)"
    using cont by (intro inv_insert_block [OF inv])
  then show ?case by (simp add: insert_block_def)
qed

lemma stageBlock_inv:
  assumes inv: "store_inv D s"
  shows "wp (stageBlock D (at_time t) f b lac) (\<lambda>_. store_inv D) (unharmed D s) s"
proof -
  have tail: "wp (bind_op (find_block D p) (\<lambda>x. if P x then throw getInvalidBlobOrBlock
      else bind_op (find_block D (\<lambda>e. block_path (block_accountName b) (block_containerName b)
         (block_blobName b) e \<and> block_name e = block_name b \<and>
         block_isCommitted e = block_isCommitted b)) (\<lambda>blockDoc.
      bind_op (case blockDoc of
         None \<Rightarrow> return ()
       | Some (k, _) \<Rightarrow> update_op (\<lambda>s. s\<lparr>blocks := remove_doc (BLOCKS_COLLECTION D) (blocks s) k\<rparr>)) (\<lambda>_.
      insert_block D b)))) (\<lambda>_. store_inv D) (unharmed D s) s'"
    if "store_inv D s'" "has_container D s' (block_accountName b) (block_containerName b)"
      "\<And>x. P x \<Longrightarrow> quiet D s s'" for s' p P
    unfolding wp_bind [of "find_block D p"]
    using that(1,3) inv_replace_block [OF that(1,2)]
    by (intro wp_find_block;
        simp only: wp_if wp_throw if_True if_False simp_thms unharmed_def split: if_split; blast)
  have ins: "wp (insert_blob D (uncommitted_blob (at_time t) f b))
      (\<lambda>_ s'. store_inv D s' \<and> has_container D s' (block_accountName b) (block_containerName b)) R s"
    if "has_container D s (block_accountName b) (block_containerName b)"
      "\<forall>i d. blob_at D s i = Some d \<longrightarrow>
        \<not> blob_path (block_accountName b) (block_containerName b) (block_blobName b) d" for R
    using that by (intro wp_insert_blob [OF inv])
      (auto simp: uncommitted_blob_def doc_wf_def doc_lease_def undefined_lease_def pages_ok_def
        blob_key_def inserted_def has_container_def container_at_def)
  show ?thesis
    unfolding stageBlock_def wp_bind
  proof (intro wp_checkContainerExist wp_find_blob, goal_cases)
    case (1 i d)
    have wf: "doc_wf d" using store_invD(3) [OF inv 1(2)] .
    let ?e = "blob_lease_defaults d"
    let ?s = "s\<lparr>blobs := set_doc (BLOBS_COLLECTION D) (blobs s) i ?e\<rparr>"
    note put = put_core [OF inv 1(2), of ?e, simplified, OF leased_doc_wf [OF leased_defaults [OF wf]]]
    have at: "blob_at D ?s i = Some ?e" using blob_at_put [of s i ?e] 1(2) by simp
    have put2: "store_inv D (?s\<lparr>blobs := set_doc (BLOBS_COLLECTION D) (blobs ?s) i d'\<rparr>)"
      "quiet D s (?s\<lparr>blobs := set_doc (BLOBS_COLLECTION D) (blobs ?s) i d'\<rparr>)"
      if "blob_write_chain (at_time t) lac d = Inr d'" for d'
      using put_core [OF put(1) at, of d'] write_chain_leased [OF wf that]
        leased_doc_wf [OF write_chain_leased(1) [OF wf that]] quiet_trans [OF put(2)] by simp_all
    show ?case
      using inv put put2 tail [simplified wp_bind] 1(1)
      by (auto simp: put_blob_def unharmed_def split: sum.splits)
  next
    case 2
    show ?case
      using tail [where P = "\<lambda>_. False", simplified] by (auto intro!: wp_mono [OF ins [OF 2]])
  qed (simp add: unharmed_def inv)
qed

end

context blob_collections
begin

lemma appendBlock_inv:
  assumes inv: "store_inv D s"
  shows "wp (appendBlock D (at_time t) f b lac mac pos) (\<lambda>_. store_inv D) (unharmed D s) s"
  unfolding appendBlock_def committed_blob_def
proof (rule wp_write [OF inv], goal_cases)
  case (1 i d s1 s')
  note fd = foundD [OF 1(1)]
  let ?b = "PersistencyBlockModel.truncate b"
  have at: "blob_at D s' i = Some d" using 1(4) fd(3) by simp
  have push: "wp (push_block ?b d) (\<lambda>arr s2. store_inv D s2 \<and> blob_at D s2 i = Some d \<and>
      arrays_ok s2 (d\<lparr>committedBlocksInOrder := arr\<rparr>)) R s'" for R
  proof (cases "committedBlocksInOrder d")
    case None
    then show ?thesis
      using 1(2) at store_invD(4) [OF 1(2) at]
      by (auto simp: push_block_def wp_def new_block_array_def arrays_ok_def intro!: inv_block_arrays)
  next
    case (Some a)
    then show ?thesis
      using 1(2) at store_invD(4) [OF 1(2) at]
      by (auto simp: push_block_def arrays_ok_def intro!: inv_block_arrays)
  qed
  have fin: "store_inv D (s2\<lparr>blobs := set_doc (BLOBS_COLLECTION D) (blobs s2) i d'\<rparr>)"
    if "store_inv D s2" "blob_at D s2 i = Some d" "arrays_ok s2 (d\<lparr>committedBlocksInOrder := arr\<rparr>)"
      "d' = (touch (at_time t) f ((BlobWriteLeaseSyncer_sync d (doc_lease d))\<lparr>committedBlocksInOrder := arr\<rparr>))
        \<lparr>properties := p\<rparr>" for s2 arr d' p
  proof (rule inv_put_blob [OF that(1,2)])
    show "same_id d d'" unfolding that(4) by (simp add: frame_simps)
    show "doc_wf d'" unfolding that(4) by (rule write_synced_wf [OF fd(4)]) simp
    show "arrays_ok s2 d'" using that(3) unfolding that(4) by (simp add: arrays_ok_def frame_simps)
  qed
  show ?case
    using 1(2,3)
    by (auto simp: unharmed_def store_blob_def put_blob_def Let_def fin intro!: wp_mono [OF push])
qed simp

lemma commitBlockList_inv:
  assumes inv: "store_inv D s" and v: "doc_wf v" "pages_ok v"
  shows "wp (commitBlockList D (at_time t) v bl lac mac) (\<lambda>_. store_inv D) (unharmed D s) s"
  unfolding commitBlockList_def any_blob_def wp_bind
proof (rule wp_lookupI [OF inv], goal_cases)
  case (1 r s1)
  then have s1: "store_inv D s1" "quiet D s s1" by (simp_all add: found_def)
  have fin: "wp (bind_op (case locked of
         None \<Rightarrow> insert_blob D (v\<lparr>committedBlocksInOrder := Some sel,
            properties := (properties v)\<lparr>contentLength := Some (total_size sel)\<rparr>\<rparr>)
       | Some (i, l, d') \<Rightarrow>
           bind_op (new_block_array (Some sel)) (\<lambda>arr.
           put_blob D i (BlobWriteLeaseSyncer_sync
             (d'\<lparr>committedBlocksInOrder := arr, isCommitted := True,
               blob_metadata := blob_metadata v, blobTags := blobTags v,
               properties := committed_properties (properties v) sel (properties d')\<rparr>) l))) (\<lambda>_.
      remove_blocks D (block_path (accountName v) (containerName v) (blob_name v))))
      (\<lambda>_. store_inv D) (unharmed D s) s'"
    if s': "store_inv D s'" "quiet D s s'" and locked: "case locked of
        None \<Rightarrow> r = None \<and> s' = s1
      | Some (i, l, d) \<Rightarrow> blob_at D s' i = Some d \<and> leased_doc d \<and> l = doc_lease d" for locked sel s'
  proof (cases locked)
    case None
    then have r: "r = None" "s' = s" using locked 1 by (auto simp: found_def)
    have "wp (insert_blob D (v\<lparr>committedBlocksInOrder := Some sel,
            properties := (properties v)\<lparr>contentLength := Some (total_size sel)\<rparr>\<rparr>))
          (\<lambda>_. store_inv D) R s" for R
      using 1 v by (intro wp_insert_blob [OF inv])
        (auto simp: r found_def default_snapshot_def doc_wf_def doc_lease_def pages_ok_def inserted_inv)
    from this [of "unharmed D s"] show ?thesis
      unfolding None r option.case wp_bind by (rule wp_mono) (auto intro: inv_remove_blocks)
  next
    case (Some x)
    obtain i l d where x: "locked = Some (i, l, d)" using Some by (cases x) auto
    with locked have d: "blob_at D s' i = Some d" "leased_doc d" "l = doc_lease d" by auto
    let ?e = "BlobWriteLeaseSyncer_sync (d\<lparr>committedBlocksInOrder := Some (length (block_arrays s')),
        isCommitted := True, blob_metadata := blob_metadata v, blobTags := blobTags v,
        properties := committed_properties (properties v) sel (properties d)\<rparr>) l"
    let ?s = "s'\<lparr>block_arrays := block_arrays s' @ [sel]\<rparr>"
    have "store_inv D (?s\<lparr>blobs := set_doc (BLOBS_COLLECTION D) (blobs ?s) i ?e\<rparr>)"
    proof (rule inv_put_blob)
      show "store_inv D ?s" using s'(1) by (rule inv_block_arrays) simp
      show "blob_at D ?s i = Some d" using d by simp
      show "same_id d ?e" by (simp add: frame_simps)
      show "doc_wf ?e" by (rule write_synced_wf [OF d(2)]) (simp add: d(3))
      show "arrays_ok ?s ?e"
        using store_invD(4) [OF s'(1) d(1)] by (auto simp: arrays_ok_def frame_simps)
    qed
    then show ?thesis
      by (simp add: x wp_def [of "new_block_array _"] new_block_array_def put_blob_def inv_remove_blocks)
  qed
  note fin' = fin [unfolded wp_bind]
  show ?case
  proof (cases r)
    case None
    then show ?thesis
      using s1 fin' [of s1 None] by (auto simp: unharmed_def staged_blocks_def split: sum.splits)
  next
    case (Some x)
    obtain i d where r: "r = Some (i, d)" using Some by (cases x) auto
    note fd = foundD [OF 1 [unfolded r]]
    show ?thesis
      using s1 fd quiet_trans [OF s1(2)] unfolding r
      by (auto simp: unharmed_def staged_blocks_def split: sum.splits
          intro!: wp_check_write_lease fin' [of _ "Some (i, doc_lease d, d)", simplified])
  qed
qed simp

end

section \<open>Pages\<close>

text \<open>A range operation that keeps ordered lists ordered.\<close>

definition pages_preserving :: "(PersistencyPageRange list \<Rightarrow> PersistencyPageRange list result) \<Rightarrow> bool" where
  "pages_preserving g \<longleftrightarrow> (\<forall>rs. wf_ranges rs \<longrightarrow> (\<exists>rs'. g rs = Inr rs' \<and> wf_ranges rs'))"

lemma pages_preserving_merge: "wf_range r \<Longrightarrow> pages_preserving (\<lambda>rs. mergeRange rs r)"
  using mergeRange_correct by (fastforce simp: pages_preserving_def)

lemma pages_preserving_clear:
  "0 \<le> rstart r \<Longrightarrow> rstart r \<le> rend r \<Longrightarrow> pages_preserving (\<lambda>rs. clearRange rs r)"
  using clearRange_correct by (fastforce simp: pages_preserving_def)

context blob_collections
begin

lemma wp_change_pages:
  assumes inv: "store_inv D s" and d: "blob_at D s i = Some d" and g: "pages_preserving g"
    and post: "\<And>s'. store_inv D s' \<Longrightarrow> blob_at D s' = blob_at D s \<Longrightarrow> Q () s'"
  shows "wp (change_pages g d) Q R s"
proof (cases "pageRangesInOrder d")
  case None
  moreover obtain rs where "g [] = Inr rs" using g wf_ranges_Nil unfolding pages_preserving_def by blast
  ultimately show ?thesis using inv post by (simp add: wp_def change_pages_def)
next
  case (Some a)
  have a: "a < length (page_arrays s)" using store_invD(4) [OF inv d] Some by (simp add: arrays_ok_def)
  obtain rs where rs: "g (array_at (page_arrays s) a) = Inr rs" "wf_ranges rs"
    using g wf_array_at [OF store_invD(9) [OF inv]] by (auto simp: pages_preserving_def)
  have "store_inv D (s\<lparr>page_arrays := (page_arrays s)[a := rs]\<rparr>)"
    using inv rs store_invD(9) [OF inv]
    by (intro inv_page_arrays) (auto simp: list_all_iff dest!: set_update_subset_insert [THEN subsetD])
  then show ?thesis using post Some rs by (simp add: wp_def change_pages_def)
qed

lemma wp_page_write_target:
  assumes inv: "store_inv D s"
    and found: "\<And>i d s'. found D s (accountName v) (containerName v) (blob_name v) (blob_snapshot v) t True (Some (i, d)) s' \<Longrightarrow> Q (i, d) s'"
    and failed: "\<And>e s'. unharmed D s e s' \<Longrightarrow> R e s'"
  shows "wp (page_write_target D (at_time t) v mac smac) Q R s"
  unfolding page_write_target_def committed_blob_def wp_bind
proof (rule wp_lookupI [OF inv _ failed], goal_cases)
  case (1 r s')
  then have "unharmed D s e s'" for e by (simp add: found_def unharmed_def)
  then show ?case using 1 found failed
    by (cases r) (auto simp: default_snapshot_def split: sum.splits)
qed

lemma written_touch: "written d (touch ctx f (BlobWriteLeaseSyncer_sync d (doc_lease d)))"
  by (simp add: written_def, simp add: frame_simps)

lemma wp_page_write:
  assumes s: "store_inv D s" "quiet D s0 s" "blob_at D s i = Some d" "leased_doc d" and g: "pages_preserving g"
  shows "wp (bind_op (check_write_lease D lac i d) (\<lambda>(l, d').
      bind_op (change_pages g d') (\<lambda>_.
      store_blob D i (touch ctx f (BlobWriteLeaseSyncer_sync d' l))))) (\<lambda>_. store_inv D) (unharmed D s0) s"
  unfolding wp_bind
proof (rule wp_check_write_lease [OF s(1,3,4)], goal_cases)
  case (1 s')
  show ?case unfolding prod.case wp_bind
    using 1 s written_touch
    by (auto simp: store_blob_def intro!: wp_change_pages [OF _ _ g] wp_put_written [of _ i d])
next
  case (2 e s')
  then show ?case using quiet_trans [OF s(2)] by (simp add: unharmed_def)
qed

lemma uploadPages_inv:
  assumes inv: "store_inv D s" and r: "wf_range \<lparr>rstart = x, rend = y, persistency = ch\<rparr>"
  shows "wp (uploadPages D (at_time t) f v x y ch lac mac smac) (\<lambda>_. store_inv D) (unharmed D s) s"
  unfolding uploadPages_def wp_bind [of "page_write_target _ _ _ _ _"]
proof (rule wp_page_write_target [OF inv], goal_cases)
  case (1 i d s')
  note fd = foundD [OF 1]
  show ?case unfolding prod.case wp_if
    using fd wp_page_write [OF fd(1,2,3,4) pages_preserving_merge [OF r]]
    by (simp only: wp_throw unharmed_def simp_thms split: if_split)
qed simp

lemma clearRange_blob_inv:
  assumes inv: "store_inv D s" and r: "0 \<le> x" "x \<le> y"
  shows "wp (clearRange_blob D (at_time t) f v x y lac mac smac) (\<lambda>_. store_inv D) (unharmed D s) s"
  unfolding clearRange_blob_def wp_bind [of "page_write_target _ _ _ _ _"]
proof (rule wp_page_write_target [OF inv], goal_cases)
  case (1 i d s')
  note fd = foundD [OF 1]
  show ?case unfolding prod.case
    using r by (intro wp_page_write [OF fd(1,2,3,4) pages_preserving_clear]) simp_all
qed simp

text \<open>An update of the sequence number that is refused may already have stored the default 0.\<close>

lemma updateSequenceNumber_inv:
  assumes inv: "store_inv D s"
  shows "wp (updateSequenceNumber D (at_time t) f a c n act giv lac mac) (\<lambda>_. store_inv D) (\<lambda>_. store_inv D) s"
  unfolding updateSequenceNumber_def committed_blob_def wp_bind [of "writable_blob _ _"]
proof (rule wp_writable [OF inv], goal_cases)
  case (1 i d s1)
  note fd = foundD [OF 1]
  have first: "same_frame d (set_sequence_number k d)" "doc_wf (set_sequence_number k d)" for k
    using leased_doc_wf [OF fd(4)] by (simp_all add: doc_wf_def, simp add: frame_simps)
  have second: "same_frame d (BlobWriteLeaseSyncer_sync (e\<lparr>properties := p\<rparr>) (doc_lease d))"
    "doc_wf (BlobWriteLeaseSyncer_sync (e\<lparr>properties := p\<rparr>) (doc_lease d))"
    if "e = set_sequence_number m (set_sequence_number k d)" for e p m k
    unfolding that
    by (simp add: frame_simps, rule write_synced_wf [OF fd(4)], simp)
  have at: "store_inv D (s2\<lparr>blobs := set_doc (BLOBS_COLLECTION D) (blobs s2) i (set_sequence_number k d)\<rparr>)"
    "blob_at D (s2\<lparr>blobs := set_doc (BLOBS_COLLECTION D) (blobs s2) i (set_sequence_number k d)\<rparr>) i =
      Some (set_sequence_number k d)"
    if "store_inv D s2" "blob_at D s2 i = Some d" for s2 k
    using wp_put_inv [OF that first, where Q = "\<lambda>_. store_inv D"] blob_at_put [of s2 i] that
    by (auto simp: put_blob_def)
  have id: "same_frame (set_sequence_number k d) e \<longleftrightarrow> same_frame d e" for k e
    by (simp add: frame_simps)
  show ?case
    using fd
    by (auto simp: Let_def put_blob_def [of D i "set_sequence_number _ d"] store_blob_def at id second
        split: sum.splits intro!: wp_check_write_lease wp_put_inv [of _ i "set_sequence_number _ d"])
qed (simp add: unharmed_def)

end
context blob_collections
begin

lemma wp_ensure_pages:
  assumes inv: "store_inv D s" and d: "blob_at D s i = Some d" "leased_doc d"
  shows "wp (ensure_pages D i d) (\<lambda>e s'. store_inv D s' \<and> blob_at D s' i = Some e \<and> leased_doc e \<and>
    same_id d e \<and> doc_lease e = doc_lease d) R s"
proof (cases "pageRangesInOrder d")
  case None
  let ?e = "d\<lparr>pageRangesInOrder := Some (length (page_arrays s))\<rparr>"
  let ?s = "s\<lparr>page_arrays := page_arrays s @ [[]]\<rparr>"
  have "store_inv D (?s\<lparr>blobs := set_doc (BLOBS_COLLECTION D) (blobs ?s) i ?e\<rparr>)"
  proof (rule inv_put_blob)
    show "store_inv D ?s" using inv store_invD(9) [OF inv] by (intro inv_page_arrays) auto
    show "blob_at D ?s i = Some d" using d by simp
    show "same_id d ?e" by (simp add: frame_simps)
    show "doc_wf ?e" using leased_doc_wf [OF d(2)] by (simp add: doc_wf_def)
    show "arrays_ok ?s ?e" using store_invD(4) [OF inv d(1)] by (simp add: arrays_ok_def)
  qed
  moreover have "blob_at D (?s\<lparr>blobs := set_doc (BLOBS_COLLECTION D) (blobs ?s) i ?e\<rparr>) i = Some ?e"
    using blob_at_put [of ?s i ?e] d by simp
  ultimately show ?thesis
    using None d by (simp add: ensure_pages_def wp_def [of "new_page_array _"] new_page_array_def
        put_blob_def leased_doc_def, simp add: frame_simps)
next
  case (Some a)
  then show ?thesis using inv d by (simp add: ensure_pages_def, simp add: frame_simps)
qed

lemma resizePageBlob_inv:
  assumes inv: "store_inv D s" and len: "0 \<le> len"
  shows "wp (resizePageBlob D (at_time t) f a c n len lac mac) (\<lambda>_. store_inv D) (unharmed D s) s"
  unfolding resizePageBlob_def committed_blob_def wp_bind [of "writable_blob _ _"]
proof (rule wp_writable [OF inv], goal_cases)
  case (1 i d s1)
  note fd = foundD [OF 1]
  have fin: "wp (store_blob D i (BlobWriteLeaseSyncer_sync
      (touch (at_time t) f (e\<lparr>properties := p\<rparr>)) (doc_lease d))) (\<lambda>_. store_inv D) R s2"
    if "store_inv D s2" "blob_at D s2 i = Some e" "leased_doc e" "doc_lease e = doc_lease d" for e p s2 R
    unfolding store_blob_def wp_bind
  proof (rule wp_put_written [OF that(1-3)])
    show "written e (BlobWriteLeaseSyncer_sync (touch (at_time t) f (e\<lparr>properties := p\<rparr>)) (doc_lease d))"
      by (simp add: written_def that(4), simp add: frame_simps)
  qed simp
  have body: "wp (bind_op (ensure_pages D i d) (\<lambda>d1.
          bind_op (case contentLength (properties d1) of
             None \<Rightarrow> return ()
           | Some n \<Rightarrow>
               if n > len
               then change_pages (\<lambda>rs. clearRange rs \<lparr>rstart = len, rend = n - 1\<rparr>) d1
               else return ()) (\<lambda>_.
          let d2 = touch (at_time t) f (d1\<lparr>properties := (properties d1)\<lparr>contentLength := Some len\<rparr>\<rparr>) in
          store_blob D i (BlobWriteLeaseSyncer_sync d2 (doc_lease d)))))
       (\<lambda>_. store_inv D) (unharmed D s) s'" if "store_inv D s'" "blob_at D s' i = Some d" for s'
    unfolding wp_bind
  proof (rule wp_mono [OF wp_ensure_pages [OF that fd(4)]], goal_cases)
    case (1 e s2)
    then show ?case
      using len by (auto simp: Let_def fin split: option.splits
          intro!: wp_change_pages [of s2 i e] pages_preserving_clear)
  qed simp
  show ?case
    using fd quiet_trans [OF fd(2)] body
    by (auto simp: unharmed_def simp del: wp_bind intro!: wp_check_write_lease
        simp: wp_bind [of "check_write_lease _ _ _ _"])
qed simp

section \<open>Containers\<close>

lemma container_observe_ok:
  assumes "container_lease_ok c" "container_observe_chain (at_time t) c = Inr c'"
  shows "container_lease_ok c'" "ct_accountName c' = ct_accountName c" "ct_name c' = ct_name c"
proof -
  from assms(2) obtain st where st: "createLeaseState (doc_lease c) (at_time t) = Inr st"
    and c': "c' = ContainerLeaseSyncer_sync c (lease st)"
    by (auto simp: container_observe_chain_def ContainerLeaseAdapter_def LeaseStateBase_sync_def
        bind_result_Inr_iff split: if_splits)
  show "container_lease_ok c'"
    using factory_state_wf [OF _ _ st] assms(1) by (simp add: c' container_lease_ok_def)
  show "ct_accountName c' = ct_accountName c" "ct_name c' = ct_name c"
    by (simp_all add: c' ContainerLeaseSyncer_sync_def)
qed

lemma container_lease_chain_ok:
  assumes "container_lease_ok c" "container_lease_chain (at_time t) op c = Inr c'"
  shows "container_lease_ok c'" "ct_accountName c' = ct_accountName c" "ct_name c' = ct_name c"
proof -
  from assms(2) obtain l where l: "lease_request t op (doc_lease c) = Inr l"
    and c': "c' = ContainerLeaseSyncer_sync c l"
    by (auto simp: lease_chains lease_request_def bind_result_Inr_iff split: if_splits)
  show "container_lease_ok c'"
    using lease_request_wf [OF _ l] lease_request_state [OF _ _ l] assms(1)
    by (simp add: c' container_lease_ok_def)
  show "ct_accountName c' = ct_accountName c" "ct_name c' = ct_name c"
    by (simp_all add: c' ContainerLeaseSyncer_sync_def)
qed

lemma wp_put_container:
  assumes "store_inv D s" "container_at D s i = Some c"
    "ct_accountName c' = ct_accountName c" "ct_name c' = ct_name c" "container_lease_ok c'"
    and "\<And>s'. store_inv D s' \<Longrightarrow> container_at D s' = (container_at D s)(i \<mapsto> c') \<Longrightarrow> Q () s'"
  shows "wp (put_container D i c') Q R s"
  using inv_put_container [OF assms(1-5)] assms(2,6) cont.set_get [of "containers s" i c']
  by (simp add: put_container_def container_at_def)

lemma wp_getContainerWithLeaseUpdated:
  assumes inv: "store_inv D s"
  shows "wp (getContainerWithLeaseUpdated D a n (at_time t) fe)
    (\<lambda>r s'. store_inv D s' \<and> (\<forall>i c. r = Some (i, c) \<longrightarrow> container_at D s' i = Some c \<and> container_key a n c))
    (\<lambda>_. store_inv D) s"
  unfolding getContainerWithLeaseUpdated_def wp_bind
proof (rule wp_find_container, goal_cases)
  case (1 i c)
  note ok = store_invD(1) [OF inv 1(1)]
  show ?case
    using inv 1 container_observe_ok [OF ok]
    by (auto simp: container_key_def split: sum.splits intro!: wp_put_container)
qed (simp add: inv)

lemma wp_existing_container:
  assumes "wp m (\<lambda>r s'. store_inv D s' \<and>
      (\<forall>i c. r = Some (i, c) \<longrightarrow> container_at D s' i = Some c \<and> container_key a n c)) (\<lambda>_. store_inv D) s"
    and "\<And>i c s'. store_inv D s' \<Longrightarrow> container_at D s' i = Some c \<Longrightarrow> container_key a n c \<Longrightarrow>
      wp (K i c) Q (\<lambda>_. store_inv D) s'"
  shows "wp (bind_op (existing_container m mac) (\<lambda>(i, c). K i c)) Q (\<lambda>_. store_inv D) s"
  unfolding existing_container_def wp_bind
  using assms(2) by (intro wp_mono [OF assms(1)]) (auto split: sum.splits option.splits)

lemma createContainer_inv:
  assumes inv: "store_inv D s" and c: "container_lease_ok c"
  shows "wp (createContainer D c) (\<lambda>_. store_inv D) (\<lambda>_. store_inv D) s"
  unfolding createContainer_def wp_bind
proof (rule wp_find_container, goal_cases)
  case 2
  then have "store_inv D (s\<lparr>containers := insert_doc (CONTAINERS_COLLECTION D) (containers s) c\<rparr>)"
    using c by (intro inv_insert_container [OF inv]) auto
  then show ?case by (simp add: insert_container_def)
qed (simp add: inv)

lemma setContainer_inv:
  assumes inv: "store_inv D s"
  shows "wp (setContainerMetadata D (at_time t) a n lm et md lac mac) (\<lambda>_. store_inv D) (\<lambda>_. store_inv D) s"
    "wp (setContainerACL D (at_time t) a n acl) (\<lambda>_. store_inv D) (\<lambda>_. store_inv D) s"
  unfolding setContainerMetadata_def setContainerACL_def
  by (rule wp_existing_container [OF wp_getContainerWithLeaseUpdated [OF inv]];
      auto split: sum.splits dest: store_invD(1) intro!: wp_put_container simp: container_lease_ok_def doc_lease_def)+

lemma readable_container_inv:
  assumes inv: "store_inv D s"
  shows "wp (readable_container D a n (at_time t) lac) (\<lambda>_. store_inv D) (\<lambda>_. store_inv D) s"
  unfolding readable_container_def wp_bind
  by (rule wp_mono [OF wp_getContainerWithLeaseUpdated [OF inv]]) (auto split: sum.splits)

lemma wp_getContainer:
  assumes inv: "store_inv D s"
  shows "wp (getContainer D a n fe) (\<lambda>r s'. store_inv D s' \<and>
      (\<forall>i c. r = Some (i, c) \<longrightarrow> container_at D s' i = Some c \<and> container_key a n c)) (\<lambda>_. store_inv D) s"
  unfolding getContainer_def wp_bind by (rule wp_find_container) (auto simp: inv)

lemma container_lease_request_inv:
  assumes inv: "store_inv D s"
  shows "wp (container_lease_request D (at_time t) a n mac op) (\<lambda>_. store_inv D) (\<lambda>_. store_inv D) s"
  unfolding container_lease_request_def
proof (rule wp_existing_container [OF wp_getContainer [OF inv]], goal_cases)
  case (1 i c s')
  show ?case
    using 1 container_lease_chain_ok [OF store_invD(1) [OF 1(1,2)], of t op]
    by (auto split: sum.splits intro!: wp_put_container)
qed

end

context blob_collections
begin

lemma inv_drop_container:
  assumes inv: "store_inv D s" and c: "container_at D s i = Some c" "container_key a n c"
    and s': "s' = s\<lparr>containers := remove_doc (CONTAINERS_COLLECTION D) (containers s) i,
      blobs := findAndRemove (BLOBS_COLLECTION D) (blobs s) (\<lambda>d. accountName d = a \<and> containerName d = n),
      blocks := findAndRemove (BLOCKS_COLLECTION D) (blocks s)
        (\<lambda>b. block_accountName b = a \<and> block_containerName b = n)\<rparr>"
  shows "store_inv D s'"
proof -
  have cs: "container_at D s' = (container_at D s)(i := None)"
    by (simp add: s' container_at_def cont.remove_get)
  have bs: "blob_at D s j = Some d \<and> (accountName d \<noteq> a \<or> containerName d \<noteq> n)"
    if "blob_at D s' j = Some d" for j d
  proof -
    have "blob_at D s' j = (case blob_at D s j of None \<Rightarrow> None
        | Some d \<Rightarrow> if accountName d = a \<and> containerName d = n then None else Some d)"
      by (simp add: s' blob_at_def blob.findAndRemove_get)
    with that show ?thesis by (cases "blob_at D s j") (auto split: if_splits)
  qed
  have ks: "block_at D s j = Some b \<and> (block_accountName b \<noteq> a \<or> block_containerName b \<noteq> n)"
    if "block_at D s' j = Some b" for j b
  proof -
    have "block_at D s' j = (case block_at D s j of None \<Rightarrow> None
        | Some b \<Rightarrow> if block_accountName b = a \<and> block_containerName b = n then None else Some b)"
      by (simp add: s' block_at_def block.findAndRemove_get)
    with that show ?thesis by (cases "block_at D s j") (auto split: if_splits)
  qed
  have has: "has_container D s' x y" if "has_container D s x y" "x \<noteq> a \<or> y \<noteq> n" for x y
  proof -
    from that(1) obtain j e where e: "container_at D s j = Some e" "container_key x y e"
      by (auto simp: has_container_def)
    with c that(2) have "j \<noteq> i" by (auto simp: container_key_def)
    with e show ?thesis unfolding has_container_def cs by auto
  qed
  have arr: "arrays_ok s' d = arrays_ok s d" for d by (simp add: s' arrays_ok_def)
  show ?thesis unfolding store_inv_def arr
  proof (intro conjI allI impI)
    show "list_all wf_ranges (page_arrays s')" using store_invD(9) [OF inv] by (simp add: s')
  qed (use cs store_invD(1,2) [OF inv] in \<open>auto split: if_splits\<close>,
       auto dest!: bs ks intro: has store_invD(3-8) [OF inv])
qed

lemma deleteContainer_inv:
  assumes inv: "store_inv D s"
  shows "wp (deleteContainer D (at_time t) a n lac mac) (\<lambda>_. store_inv D) (\<lambda>_. store_inv D) s"
  unfolding deleteContainer_def
proof (rule wp_existing_container [OF wp_getContainerWithLeaseUpdated [OF inv]], goal_cases)
  case (1 i c s')
  then show ?case
    using inv_drop_container [OF 1 refl]
    by (simp add: remove_blobs_def remove_blocks_def split: sum.splits)
qed

end

section \<open>Runs of the store\<close>

text \<open>A request at a time, with the arguments that the handlers build: a new blob document has no
  lease of its own and ordered page ranges, a page range lies inside the blob's address space.\<close>

inductive container_request ::
  "('cc, 'bc, 'kc) blob_db \<Rightarrow> ('cc, 'bc, 'kc) blob_store \<Rightarrow> js_error option \<Rightarrow>
   ('cc, 'bc, 'kc) blob_store \<Rightarrow> bool"
  for D where
  createContainer_request: "container_lease_ok c \<Longrightarrow> outcome (createContainer D c) s r s' \<Longrightarrow> container_request D s r s'"
| getContainerProperties_request: "outcome (getContainerProperties D (at_time t) a n lac) s r s' \<Longrightarrow> container_request D s r s'"
| getContainerACL_request: "outcome (getContainerACL D (at_time t) a n lac) s r s' \<Longrightarrow> container_request D s r s'"
| deleteContainer_request: "outcome (deleteContainer D (at_time t) a n lac mac) s r s' \<Longrightarrow> container_request D s r s'"
| setContainerMetadata_request: "outcome (setContainerMetadata D (at_time t) a n modified tag md lac mac) s r s' \<Longrightarrow> container_request D s r s'"
| setContainerACL_request: "outcome (setContainerACL D (at_time t) a n (acl :: SetContainerAccessPolicyOptions)) s r s' \<Longrightarrow> container_request D s r s'"
| container_lease_request_request: "outcome (container_lease_request D (at_time t) a n mac op) s r s' \<Longrightarrow> container_request D s r s'"

inductive blob_request ::
  "('cc, 'bc, 'kc) blob_db \<Rightarrow> ('cc, 'bc, 'kc) blob_store \<Rightarrow> js_error option \<Rightarrow>
   ('cc, 'bc, 'kc) blob_store \<Rightarrow> bool"
  for D where
  createBlob_request: "doc_wf v \<Longrightarrow> pages_ok v \<Longrightarrow> outcome (createBlob D (at_time t) v lac mac) s r s' \<Longrightarrow> blob_request D s r s'"
| createSnapshot_request: "outcome (createSnapshot D (at_time t) a c n lac md mac) s r s' \<Longrightarrow> blob_request D s r s'"
| downloadBlob_request: "outcome (downloadBlob D (at_time t) a c n sn lac mac) s r s' \<Longrightarrow> blob_request D s r s'"
| getBlobProperties_request: "outcome (getBlobProperties D (at_time t) a c n sn lac mac) s r s' \<Longrightarrow> blob_request D s r s'"
| deleteBlob_request: "outcome (deleteBlob D (at_time t) a c n sn del lac mac) s r s' \<Longrightarrow> blob_request D s r s'"
| setBlobHTTPHeaders_request: "outcome (setBlobHTTPHeaders D (at_time t) (f :: fresh) a c n lac h mac) s r s' \<Longrightarrow> blob_request D s r s'"
| setBlobMetadata_request: "outcome (setBlobMetadata D (at_time t) (f :: fresh) a c n lac md mac) s r s' \<Longrightarrow> blob_request D s r s'"
| setBlobTag_request: "outcome (setBlobTag D (at_time t) a c n sn lac tags (mac :: ModifiedAccessConditions option)) s r s' \<Longrightarrow> blob_request D s r s'"
| getBlobTag_request: "outcome (getBlobTag D (at_time t) a c n sn lac mac) s r s' \<Longrightarrow> blob_request D s r s'"
| setTier_request: "outcome (setTier D (at_time t) a c n tier lac) s r s' \<Longrightarrow> blob_request D s r s'"
| sealBlob_request: "outcome (sealBlob D (at_time t) (f :: fresh) a c n lac mac) s r s' \<Longrightarrow> blob_request D s r s'"
| blob_lease_request_request: "outcome (blob_lease_request D (at_time t) a c n mac op) s r s' \<Longrightarrow> blob_request D s r s'"
| startCopyFromURL_request: "outcome (startCopyFromURL D (at_time t) (f :: fresh) (so :: BlobId) (de :: BlobId) url md tier' smac mac lac sealed tstr) s r s' \<Longrightarrow> blob_request D s r s'"
| copyFromURL_request: "outcome (copyFromURL D (at_time t) (f :: fresh) (so :: BlobId) (de :: BlobId) url md tier' smac mac lac ctags tstr) s r s' \<Longrightarrow> blob_request D s r s'"
| stageBlock_request: "outcome (stageBlock D (at_time t) (f :: fresh) (b :: BlockModel) lac) s r s' \<Longrightarrow> blob_request D s r s'"
| appendBlock_request: "outcome (appendBlock D (at_time t) (f :: fresh) (b :: BlockModel) lac mac (pos :: AppendPositionAccessConditions)) s r s' \<Longrightarrow> blob_request D s r s'"
| commitBlockList_request: "doc_wf v \<Longrightarrow> pages_ok v \<Longrightarrow> outcome (commitBlockList D (at_time t) v bl lac mac) s r s' \<Longrightarrow> blob_request D s r s'"
| getBlockList_request: "outcome (getBlockList D (at_time t) a c n sn com lac mac) s r s' \<Longrightarrow> blob_request D s r s'"
| uploadPages_request: "wf_range \<lparr>rstart = x, rend = y, persistency = ch\<rparr> \<Longrightarrow> outcome (uploadPages D (at_time t) (f :: fresh) (v :: blob_value) x y ch lac mac smac) s r s' \<Longrightarrow> blob_request D s r s'"
| clearRange_blob_request: "0 \<le> x \<Longrightarrow> x \<le> y \<Longrightarrow> outcome (clearRange_blob D (at_time t) (f :: fresh) (v :: blob_value) x y lac mac smac) s r s' \<Longrightarrow> blob_request D s r s'"
| getPageRanges_request: "outcome (getPageRanges D (at_time t) a c n sn lac mac) s r s' \<Longrightarrow> blob_request D s r s'"
| resizePageBlob_request: "0 \<le> len \<Longrightarrow> outcome (resizePageBlob D (at_time t) (f :: fresh) a c n len lac mac) s r s' \<Longrightarrow> blob_request D s r s'"

text \<open>Apart: an update of the sequence number, which may fail half way.\<close>

inductive sequence_request ::
  "('cc, 'bc, 'kc) blob_db \<Rightarrow> ('cc, 'bc, 'kc) blob_store \<Rightarrow> js_error option \<Rightarrow>
   ('cc, 'bc, 'kc) blob_store \<Rightarrow> bool"
  for D where
  updateSequenceNumber_request: "outcome (updateSequenceNumber D (at_time t) (f :: fresh) a c n act giv lac mac) s r s' \<Longrightarrow> sequence_request D s r s'"

definition store_step ::
  "('cc, 'bc, 'kc) blob_db \<Rightarrow> ('cc, 'bc, 'kc) blob_store \<Rightarrow> ('cc, 'bc, 'kc) blob_store \<Rightarrow> bool" where
  "store_step D s s' \<longleftrightarrow> (\<exists>r. container_request D s r s' \<or> blob_request D s r s' \<or> sequence_request D s r s')"

inductive store_reachable ::
  "('cc, 'bc, 'kc) blob_db \<Rightarrow> ('cc, 'bc, 'kc) blob_store \<Rightarrow> ('cc, 'bc, 'kc) blob_store \<Rightarrow> bool"
  for D s0 where
  start: "store_reachable D s0 s0"
| step: "store_reachable D s0 s \<Longrightarrow> store_step D s s' \<Longrightarrow> store_reachable D s0 s'"

lemma unharmed_inv: "unharmed D s e s' \<Longrightarrow> store_inv D s'"
  by (simp add: unharmed_def)

context blob_collections
begin

lemmas operation_inv =
  createContainer_inv deleteContainer_inv setContainer_inv container_lease_request_inv
  createBlob_inv createSnapshot_inv read_inv getBlobProperties_inv deleteBlob_inv
  setBlobHTTPHeaders_inv setBlobMetadata_inv setBlobTag_inv setTier_inv sealBlob_inv
  wp_blob_lease_request startCopyFromURL_inv copyFromURL_inv stageBlock_inv appendBlock_inv
  commitBlockList_inv getBlockList_inv uploadPages_inv clearRange_blob_inv getPageRanges_inv
  resizePageBlob_inv updateSequenceNumber_inv

lemma container_read_inv:
  assumes "store_inv D s"
  shows "wp (getContainerProperties D (at_time t) a n lac) (\<lambda>_. store_inv D) (\<lambda>_. store_inv D) s"
    "wp (getContainerACL D (at_time t) a n lac) (\<lambda>_. store_inv D) (\<lambda>_. store_inv D) s"
  using readable_container_inv [OF assms]
  by (simp_all add: getContainerProperties_def getContainerACL_def)

lemma refused_unharmed:
  "outcome m s (Some e) s' \<Longrightarrow> wp m (\<lambda>_. store_inv D) (unharmed D s) s \<Longrightarrow> unharmed D s e s'"
  by (auto dest!: outcome_wp [rotated])

lemma blob_request_refused:
  assumes step: "blob_request D s (Some e) s'" and inv: "store_inv D s"
  shows "unharmed D s e s'"
  using step
proof cases
qed (drule refused_unharmed, (rule operation_inv inv | assumption)+)+

lemma outcome_inv:
  "outcome m s r s' \<Longrightarrow> wp m (\<lambda>_. store_inv D) (unharmed D s) s \<Longrightarrow> store_inv D s'"
  "outcome m s r s' \<Longrightarrow> wp m (\<lambda>_. store_inv D) (\<lambda>_. store_inv D) s \<Longrightarrow> store_inv D s'"
  by (auto simp: unharmed_def dest!: outcome_wp [rotated] split: option.splits)

lemma blob_request_inv:
  assumes step: "blob_request D s r s'" and inv: "store_inv D s"
  shows "store_inv D s'"
  using step
proof cases
qed (drule outcome_inv, (rule operation_inv inv | assumption)+)+

lemma sequence_request_inv:
  assumes step: "sequence_request D s r s'" and inv: "store_inv D s"
  shows "store_inv D s'"
  using step
proof cases
qed (drule outcome_inv(2), (rule operation_inv inv | assumption)+)

lemma container_request_inv:
  assumes step: "container_request D s r s'" and inv: "store_inv D s"
  shows "store_inv D s'"
  using step
proof cases
qed (drule outcome_inv(2), (rule operation_inv container_read_inv inv | assumption)+)+

lemma store_reachable_inv:
  "store_reachable D s0 s \<Longrightarrow> store_inv D s0 \<Longrightarrow> store_inv D s"
  by (induction rule: store_reachable.induct)
    (auto simp: store_step_def intro: blob_request_inv container_request_inv sequence_request_inv)

end

end
