(* ===== verification/Blob_Store_Properties.thy ===== *)
theory Blob_Store_Properties
  imports Blob_Store_Steps
begin

text \<open>
  What the blob metadata store guarantees: its invariant, that a refused request has no effect,
  that a leased blob is protected from writers that do not hold the lease, and what creating,
  committing, deleting, copying and writing pages do.
\<close>

section \<open>Documents for the concrete instances\<close>

definition sample_container :: ContainerModel where
  "sample_container =
     \<lparr>doc_leaseId = None, doc_leaseDurationSeconds = None, doc_leaseExpireTime = None,
      doc_leaseBreakTime = None, prop_leaseDuration = None, prop_leaseState = Some Available,
      prop_leaseStatus = Some Unlocked, ct_accountName = ''a'', ct_name = ''c'', ct_metadata = None,
      ct_lastModified = Valid 0, ct_etag = ''etag'', ct_publicAccess = None, ct_containerAcl = None\<rparr>"

definition sample_value :: "BlobType \<Rightarrow> PersistencyPageRange list option \<Rightarrow> PersistencyBlockModel list option \<Rightarrow> blob_value" where
  "sample_value ty ps bs =
     \<lparr>doc_leaseId = None, doc_leaseDurationSeconds = None, doc_leaseExpireTime = None,
      doc_leaseBreakTime = None, prop_leaseDuration = None, prop_leaseState = None,
      prop_leaseStatus = None, accountName = ''a'', containerName = ''c'', blob_name = ''b'',
      blob_snapshot = '''', blob_deleted = Some False, isCommitted = True,
      properties = \<lparr>creationTime = None, bp_lastModified = Valid 0,
        bp_etag = ''etag'', contentLength = Some 0, contentType = None, contentEncoding = None,
        contentLanguage = None, contentMD5 = None, contentDisposition = None, cacheControl = None,
        blobSequenceNumber = Some 0, blobType = Some ty, copyId = None, copyStatus = None,
        copySource = None, copyProgress = None, copyCompletionTime = None,
        copyStatusDescription = None, incrementalCopy = None, destinationSnapshot = None,
        deletedTime = None, remainingRetentionDays = None, accessTier = None,
        accessTierInferred = None, archiveStatus = None, accessTierChangeTime = None,
        tagCount = None, isSealed = None\<rparr>,
      blob_metadata = None, blobTags = None, blob_persistency = None, pageRangesInOrder = ps,
      committedBlocksInOrder = bs\<rparr>"

text \<open>A store with one container.\<close>

definition one_container :: "(ContainerModel list_coll, blob_doc list_coll, BlockModel list_coll) blob_store" where
  "one_container = empty_store\<lparr>containers := [Some sample_container]\<rparr>"

lemmas list_db_simps =
  list_db_def list_collection_def list_get_def list_find_def list_findOne_def enumerate_eq_zip

lemmas store_eval =
  op_defs list_db_simps one_container_def empty_store_def committed_blob_def any_blob_def
  getBlobWithLeaseUpdated_def checkContainerExist_def find_container_def find_blob_def
  default_snapshot_def container_key_def blob_key_def blob_path_def sample_container_def

lemma one_container_inv: "store_inv list_db one_container"
  by (auto simp: store_inv_def one_container_def empty_store_def container_at_def blob_at_def block_at_def
      list_db_simps container_lease_ok_def doc_lease_def sample_container_def lease_wf_def available_lease_def)

lemma sample_value_ok: "doc_wf (sample_value ty ps bs)" "ps = None \<Longrightarrow> pages_ok (sample_value ty ps bs)"
  by (simp_all add: sample_value_def doc_wf_def doc_lease_def undefined_lease_def pages_ok_def)

section \<open>The invariant\<close>

text \<open>
  C21: Whatever requests a store has served since it was empty, successful or not, its invariant
  holds: no two containers have the same account and name, no two base blobs the same path, and no
  two staged blocks of a blob the same name; every blob and every staged block belongs to a
  container that exists; every lease is well formed; every document refers to existing arrays, and
  the page ranges in them are ordered and disjoint.
\<close>

theorem blob_store_invariant:
  assumes "blob_collections D"
    and "\<And>i. container_at D s0 i = None" "\<And>i. blob_at D s0 i = None" "\<And>i. block_at D s0 i = None"
    and "page_arrays s0 = []" and "store_reachable D s0 s"
  shows "store_inv D s"
proof -
  have "store_inv D s0" using assms(2-5) by (simp add: store_inv_def)
  then show ?thesis using assms(1,6) by (rule blob_collections.store_reachable_inv [rotated 2])
qed

theorem blob_store_invariant_witness:
  "store_inv list_db (snd (createContainer list_db sample_container empty_store))"
proof -
  have "container_request list_db empty_store None (snd (createContainer list_db sample_container empty_store))"
    by (rule createContainer_request [of sample_container])
      (simp_all add: container_lease_ok_def doc_lease_def sample_container_def lease_wf_def available_lease_def outcome_def
        createContainer_def find_container_def insert_container_def op_defs list_db_simps empty_store_def)
  then have "store_reachable list_db empty_store (snd (createContainer list_db sample_container empty_store))"
    by (intro store_reachable.step [OF store_reachable.start]) (auto simp: store_step_def)
  then show ?thesis
    by (intro blob_store_invariant [OF list_db.blob_collections_axioms, of empty_store])
      (simp_all add: empty_store_def container_at_def blob_at_def block_at_def list_db_simps)
qed

section \<open>Refused requests\<close>



section \<open>Leased blobs\<close>

text \<open>A write to a blob at a time, with the lease identifier the request gives.\<close>

inductive blob_write_request ::
  "('cc, 'bc, 'kc) blob_db \<Rightarrow> string \<Rightarrow> string \<Rightarrow> string \<Rightarrow> int \<Rightarrow> LeaseAccessConditions option \<Rightarrow>
   ('cc, 'bc, 'kc) blob_store \<Rightarrow> js_error option \<Rightarrow> ('cc, 'bc, 'kc) blob_store \<Rightarrow> bool"
  for D a c n t lac s where
  "blob_key a c n '''' v \<Longrightarrow> outcome (createBlob D (at_time t) v lac mac) s r s' \<Longrightarrow>
     blob_write_request D a c n t lac s r s'"
| "outcome (deleteBlob D (at_time t) a c n None del lac mac) s r s' \<Longrightarrow> blob_write_request D a c n t lac s r s'"
| "outcome (setBlobHTTPHeaders D (at_time t) (f :: fresh) a c n lac h mac) s r s' \<Longrightarrow> blob_write_request D a c n t lac s r s'"
| "outcome (setBlobMetadata D (at_time t) (f :: fresh) a c n lac md mac) s r s' \<Longrightarrow> blob_write_request D a c n t lac s r s'"
| "outcome (setBlobTag D (at_time t) a c n None lac tags (mac :: ModifiedAccessConditions option)) s r s' \<Longrightarrow>
     blob_write_request D a c n t lac s r s'"
| "outcome (setTier D (at_time t) a c n tier lac) s r s' \<Longrightarrow> blob_write_request D a c n t lac s r s'"
| "id_account de = a \<Longrightarrow> id_container de = c \<Longrightarrow> id_blob de = n \<Longrightarrow>
     outcome (startCopyFromURL D (at_time t) (f :: fresh) (so :: BlobId) (de :: BlobId) url md tier' smac mac lac sealed tstr) s r s' \<Longrightarrow>
     blob_write_request D a c n t lac s r s'"
| "id_account de = a \<Longrightarrow> id_container de = c \<Longrightarrow> id_blob de = n \<Longrightarrow>
     outcome (copyFromURL D (at_time t) (f :: fresh) (so :: BlobId) (de :: BlobId) url md tier' smac mac lac ctags tstr) s r s' \<Longrightarrow>
     blob_write_request D a c n t lac s r s'"
| "block_path a c n b \<Longrightarrow> outcome (appendBlock D (at_time t) (f :: fresh) b lac mac (pos :: AppendPositionAccessConditions)) s r s' \<Longrightarrow>
     blob_write_request D a c n t lac s r s'"
| "blob_key a c n '''' v \<Longrightarrow> outcome (commitBlockList D (at_time t) v bl lac mac) s r s' \<Longrightarrow>
     blob_write_request D a c n t lac s r s'"
| "blob_key a c n '''' (v :: blob_value) \<Longrightarrow> outcome (uploadPages D (at_time t) (f :: fresh) v x y ch lac mac smac) s r s' \<Longrightarrow>
     blob_write_request D a c n t lac s r s'"
| "blob_key a c n '''' (v :: blob_value) \<Longrightarrow> outcome (clearRange_blob D (at_time t) (f :: fresh) v x y lac mac smac) s r s' \<Longrightarrow>
     blob_write_request D a c n t lac s r s'"
| "outcome (resizePageBlob D (at_time t) (f :: fresh) a c n len lac mac) s r s' \<Longrightarrow> blob_write_request D a c n t lac s r s'"
| "outcome (updateSequenceNumber D (at_time t) (f :: fresh) a c n act giv lac mac) s r s' \<Longrightarrow> blob_write_request D a c n t lac s r s'"

text \<open>The blob is leased at the time and the request does not name the lease.\<close>

definition locked_against ::
  "('cc, 'bc, 'kc) blob_db \<Rightarrow> ('cc, 'bc, 'kc) blob_store \<Rightarrow> string \<Rightarrow> string \<Rightarrow> string \<Rightarrow> int \<Rightarrow>
   LeaseAccessConditions option \<Rightarrow> bool" where
  "locked_against D s a c n t lac \<longleftrightarrow>
     (\<exists>k d i. blob_at D s k = Some d \<and> blob_key a c n '''' d \<and>
        lease_holder t (doc_lease (blob_lease_defaults d)) = Some i \<and>
        (case given_leaseId lac of None \<Rightarrow> True | Some g \<Rightarrow> toLowerCase g \<noteq> toLowerCase i))"

lemma locked_lease_refuses:
  assumes "doc_wf d" "lease_holder t (doc_lease (blob_lease_defaults d)) = Some i"
    and "case given_leaseId lac of None \<Rightarrow> True | Some g \<Rightarrow> toLowerCase g \<noteq> toLowerCase i"
    and "l = current_lease t d"
  shows "BlobWriteLeaseValidator_validate lac l \<noteq> Inr ()"
proof -
  note wf = doc_wf_defaults [OF assms(1)]
  obtain st where st: "createLeaseState (doc_lease (blob_lease_defaults d)) (at_time t) = Inr st"
    using createLeaseState_total [OF wf(1)] by blast
  have l: "l = lease st" using assms(4) st by (simp add: current_lease_def)
  have "leaseStatus (lease st) = Some Locked" "leaseId (lease st) = Some i"
    using locked_iff_holder [OF wf(1) st] holder_leaseId [OF wf(1) st assms(2)] assms(2) by simp_all
  then show ?thesis
    using assms(3) by (auto simp: l BlobWriteLeaseValidator_validate_def leaseId_differs_def split: option.splits)
qed

context blob_collections
begin

lemma locked_found:
  assumes inv: "store_inv D s" and lock: "locked_against D s a c n t lac"
    and f: "found D s a c n [] t fc (Some (i, d)) s1"
  shows "BlobWriteLeaseValidator_validate lac (doc_lease d) \<noteq> Inr ()"
proof -
  from lock obtain k e h where e: "blob_at D s k = Some e" "blob_key a c n [] e"
    "lease_holder t (doc_lease (blob_lease_defaults e)) = Some h"
    "case given_leaseId lac of None \<Rightarrow> True | Some g \<Rightarrow> toLowerCase g \<noteq> toLowerCase h"
    by (auto simp: locked_against_def)
  from f obtain d0 where d0: "blob_at D s i = Some d0" "core d = core d0" "doc_lease d = current_lease t d0"
    "blob_key a c n [] d" by (auto simp: found_def)
  then have "same_base e d0"
    using e(2) core_key(1) [OF d0(2)] by (auto simp: same_base_def blob_key_def blob_path_def)
  then have "d0 = e" using store_invD(6) [OF inv e(1) d0(1)] e(1) d0(1) by auto
  then show ?thesis
    using locked_lease_refuses [OF store_invD(3) [OF inv e(1)] e(3,4)] d0(3) by simp
qed

lemma locked_not_absent:
  assumes "locked_against D s a c n t lac" "found D s a c n [] t False None s1"
  shows False
  using assms by (auto simp: locked_against_def found_def)

text \<open>Writes that look for a committed or any blob and then check the lease.\<close>

lemma wp_write_locked:
  assumes inv: "store_inv D s" and lock: "locked_against D s a c n t lac"
  shows "wp (bind_op (writable_blob (getBlobWithLeaseUpdated D a c n None (at_time t) fe fc) mac) (\<lambda>(i, d).
     bind_op (check_write_lease D lac i d) (\<lambda>(l, d'). K i l d'))) (\<lambda>_ _. False) (unharmed D s) s"
  by (rule wp_write [OF inv]) (auto simp: default_snapshot_def dest: locked_found [OF inv lock])

lemma wp_check_locked:
  assumes inv: "store_inv D s" and lock: "locked_against D s a c n t lac"
    and f: "found D s a c n [] t fc (Some (i, d)) s1"
  shows "wp (check_write_lease D lac i d) Q (unharmed D s) s1"
  using foundD [OF f] quiet_trans [OF foundD(2) [OF f]] locked_found [OF inv lock f]
  by (intro wp_check_write_lease) (auto simp: unharmed_def)

lemma locked_simple:
  assumes "store_inv D s" "locked_against D s a c n t lac"
  shows "wp (setBlobHTTPHeaders D (at_time t) f a c n lac h mac) (\<lambda>_ _. False) (unharmed D s) s"
    "wp (setBlobMetadata D (at_time t) f a c n lac md mac) (\<lambda>_ _. False) (unharmed D s) s"
  unfolding setBlobHTTPHeaders_def setBlobMetadata_def committed_blob_def
  by (rule wp_write_locked [OF assms])+

lemma locked_appendBlock:
  assumes "store_inv D s" "locked_against D s a c n t lac" "block_path a c n b"
  shows "wp (appendBlock D (at_time t) f b lac mac pos) (\<lambda>_ _. False) (unharmed D s) s"
proof -
  have b: "a = block_accountName b" "c = block_containerName b" "n = block_blobName b"
    using assms(3) by (simp_all add: block_path_def)
  show ?thesis unfolding appendBlock_def committed_blob_def
    by (rule wp_write_locked [OF assms(1,2) [unfolded b]])
qed

end

context blob_collections
begin

lemma locked_checked:
  assumes inv: "store_inv D s" and lock: "locked_against D s a c n t lac"
  shows "wp (resizePageBlob D (at_time t) f a c n len lac mac) (\<lambda>_ _. False) (unharmed D s) s"
    "wp (updateSequenceNumber D (at_time t) f a c n act giv lac mac) (\<lambda>_ _. False) (unharmed D s) s"
    "wp (deleteBlob D (at_time t) a c n None del lac mac) (\<lambda>_ _. False) (unharmed D s) s"
proof -
  have s: "unharmed D s e s1" if "found D s a c n sn t fc r s1" for sn fc r s1 e
    using that by (simp add: found_def unharmed_def)
  show "wp (resizePageBlob D (at_time t) f a c n len lac mac) (\<lambda>_ _. False) (unharmed D s) s"
    unfolding resizePageBlob_def committed_blob_def wp_bind [of "writable_blob _ _"]
  proof (rule wp_writable [OF inv], goal_cases)
    case (1 i d s1)
    show ?case using s [OF 1] wp_check_locked [OF inv lock 1 [unfolded default_snapshot_def option.case]]
      by (auto simp: unharmed_def)
  qed simp
  show "wp (updateSequenceNumber D (at_time t) f a c n act giv lac mac) (\<lambda>_ _. False) (unharmed D s) s"
    unfolding updateSequenceNumber_def committed_blob_def wp_bind [of "writable_blob _ _"]
  proof (rule wp_writable [OF inv], goal_cases)
    case (1 i d s1)
    show ?case using s [OF 1] wp_check_locked [OF inv lock 1 [unfolded default_snapshot_def option.case]]
      by (auto simp: unharmed_def)
  qed simp
  show "wp (deleteBlob D (at_time t) a c n None del lac mac) (\<lambda>_ _. False) (unharmed D s) s"
    unfolding deleteBlob_def any_blob_def wp_bind
  proof (intro wp_checkContainerExist wp_writable [OF inv], goal_cases)
    case (1 i d s1)
    show ?case using s [OF 1(2)] wp_check_locked [OF inv lock 1(2) [unfolded default_snapshot_def option.case]]
      by (auto simp: unharmed_def Let_def)
  qed (simp_all add: unharmed_def inv)
qed

lemma locked_pages:
  assumes inv: "store_inv D s" and lock: "locked_against D s a c n t lac" and v: "blob_key a c n [] v"
  shows "wp (uploadPages D (at_time t) f v x y ch lac mac smac) (\<lambda>_ _. False) (unharmed D s) s"
    "wp (clearRange_blob D (at_time t) f v x y lac mac smac) (\<lambda>_ _. False) (unharmed D s) s"
proof -
  have k: "accountName v = a" "containerName v = c" "blob_name v = n" "blob_snapshot v = []"
    using v by (simp_all add: blob_key_def blob_path_def)
  show "wp (uploadPages D (at_time t) f v x y ch lac mac smac) (\<lambda>_ _. False) (unharmed D s) s"
    unfolding uploadPages_def wp_bind [of "page_write_target _ _ _ _ _"]
  proof (rule wp_page_write_target [OF inv], goal_cases)
    case (1 i d s1)
    show ?case using foundD(1,2) [OF 1] wp_check_locked [OF inv lock 1 [unfolded k]] by (auto simp: unharmed_def)
  qed simp
  show "wp (clearRange_blob D (at_time t) f v x y lac mac smac) (\<lambda>_ _. False) (unharmed D s) s"
    unfolding clearRange_blob_def wp_bind [of "page_write_target _ _ _ _ _"]
  proof (rule wp_page_write_target [OF inv], goal_cases)
    case (1 i d s1)
    show ?case using wp_check_locked [OF inv lock 1 [unfolded k]] by simp
  qed simp
qed

lemma locked_lookups:
  assumes inv: "store_inv D s" and lock: "locked_against D s a c n t lac"
  shows "wp (setBlobTag D (at_time t) a c n None lac tags mac) (\<lambda>_ _. False) (unharmed D s) s"
    "wp (setTier D (at_time t) a c n tier lac) (\<lambda>_ _. False) (unharmed D s) s"
proof -
  have s: "unharmed D s e s1" if "found D s a c n sn t fc r s1" for sn fc r s1 e
    using that by (simp add: found_def unharmed_def)
  show "wp (setBlobTag D (at_time t) a c n None lac tags mac) (\<lambda>_ _. False) (unharmed D s) s"
    unfolding setBlobTag_def committed_blob_def wp_bind [of "getBlobWithLeaseUpdated _ _ _ _ _ _ _ _"]
  proof (rule wp_lookupI [OF inv], goal_cases)
    case (1 r s1)
    show ?case
      using s [OF 1] 1 wp_check_locked [OF inv lock]
      by (auto simp: default_snapshot_def split: option.splits)
  qed simp
  show "wp (setTier D (at_time t) a c n tier lac) (\<lambda>_ _. False) (unharmed D s) s"
    unfolding setTier_def wp_bind [of "getBlobWithLeaseUpdated _ _ _ _ _ _ _ _"]
  proof (rule wp_lookupI [OF inv], goal_cases)
    case (1 r s1)
    show ?case
      using s [OF 1] 1 wp_check_locked [OF inv lock]
      by (auto simp: default_snapshot_def split: option.splits)
  qed simp
qed

lemma locked_commitBlockList:
  assumes inv: "store_inv D s" and lock: "locked_against D s a c n t lac" and v: "blob_key a c n [] v"
  shows "wp (commitBlockList D (at_time t) v bl lac mac) (\<lambda>_ _. False) (unharmed D s) s"
proof -
  have k: "accountName v = a" "containerName v = c" "blob_name v = n" "blob_snapshot v = []"
    using v by (simp_all add: blob_key_def blob_path_def)
  show ?thesis
    unfolding commitBlockList_def any_blob_def k wp_bind [of "getBlobWithLeaseUpdated _ _ _ _ _ _ _ _"]
  proof (rule wp_lookupI [OF inv], goal_cases)
    case (1 r s1)
    then have f: "found D s a c n [] t False r s1" by (simp add: default_snapshot_def)
    then have s1: "unharmed D s e s1" for e by (simp add: found_def unharmed_def)
    show ?case
    proof (cases r)
      case None
      with f lock locked_not_absent show ?thesis by blast
    next
      case (Some x)
      obtain i d where r: "r = Some (i, d)" using Some by (cases x) auto
      show ?thesis
        using s1 wp_check_locked [OF inv lock f [unfolded r]] by (auto simp: r split: sum.splits)
    qed
  qed simp
qed

lemma locked_createBlob:
  assumes inv: "store_inv D s" and lock: "locked_against D s a c n t lac" and v: "blob_key a c n [] v"
  shows "wp (createBlob D (at_time t) v lac mac) (\<lambda>_ _. False) (unharmed D s) s"
proof -
  have k: "accountName v = a" "containerName v = c" "blob_name v = n" "blob_snapshot v = []"
    using v by (simp_all add: blob_key_def blob_path_def)
  from lock obtain k0 e h where e: "blob_at D s k0 = Some e" "blob_key a c n [] e"
    "lease_holder t (doc_lease (blob_lease_defaults e)) = Some h"
    "case given_leaseId lac of None \<Rightarrow> True | Some g \<Rightarrow> toLowerCase g \<noteq> toLowerCase h"
    by (auto simp: locked_against_def)
  show ?thesis
    unfolding createBlob_def wp_bind [of "checkContainerExist _ _ _"] wp_bind [of "find_blob _ _"] k
  proof (intro wp_checkContainerExist wp_find_blob, goal_cases)
    case (1 i d)
    have "same_base e d" using e(2) 1(3) by (auto simp: same_base_def blob_key_def blob_path_def)
    then have d: "d = e" using store_invD(6) [OF inv e(1) 1(2)] e(1) 1(2) by auto
    have wf: "doc_wf d" using store_invD(3) [OF inv 1(2)] .
    let ?s = "s\<lparr>blobs := set_doc (BLOBS_COLLECTION D) (blobs s) i (blob_lease_defaults d)\<rparr>"
    have put: "unharmed D s x ?s" for x
      using put_core [OF inv 1(2), of "blob_lease_defaults d"] leased_doc_wf [OF leased_defaults [OF wf]]
      by (simp add: unharmed_def)
    obtain st where st: "createLeaseState (doc_lease (blob_lease_defaults d)) (at_time t) = Inr st"
      using createLeaseState_total [OF doc_wf_defaults(1) [OF wf]] by blast
    then have "BlobWriteLeaseValidator_validate lac (lease st) \<noteq> Inr ()"
      using locked_lease_refuses [OF wf, of t h lac "lease st"] e(3,4) d by (simp add: current_lease_def)
    then show ?case
      using inv put st
      by (auto simp: unharmed_def BlobLeaseAdapter_def Let_def put_blob_def LeaseStateBase_validate_def
          bind_result_Inr_iff split: sum.splits)
  next
    case 2
    with e show ?case by blast
  qed (simp add: unharmed_def inv)
qed

end

lemma refreshed_holder:
  assumes "lease_wf l" "createLeaseState l (at_time t) = Inr st"
  shows "lease_holder t (lease st) = lease_holder t l"
  using assms
  by (cases rule: lease_wf_cases) (auto simp: createLeaseState_shapes lease_holder_def split: if_splits)

lemma current_lease_holder:
  assumes "doc_wf d"
  shows "lease_holder t (current_lease t d) = lease_holder t (doc_lease (blob_lease_defaults d))"
proof -
  note wf = doc_wf_defaults(1) [OF assms]
  obtain st where st: "createLeaseState (doc_lease (blob_lease_defaults d)) (at_time t) = Inr st"
    using createLeaseState_total [OF wf] by blast
  then show ?thesis using refreshed_holder [OF wf st] by (simp add: current_lease_def)
qed

lemma outcome_refused:
  assumes "outcome m s r s'" "wp m (\<lambda>_ _. False) (unharmed D s) s"
  shows "\<exists>e. r = Some e \<and> unharmed D s e s'"
  using outcome_wp [OF assms(2,1)] by (cases r) auto

context blob_collections
begin

lemma found_keeps_lock:
  assumes inv: "store_inv D s" and f: "found D s a' c' n' sn t fc r s1"
    and lock: "locked_against D s a c n t lac"
  shows "locked_against D s1 a c n t lac"
proof -
  from lock obtain k e h where e: "blob_at D s k = Some e" "blob_key a c n [] e"
    "lease_holder t (doc_lease (blob_lease_defaults e)) = Some h"
    "case given_leaseId lac of None \<Rightarrow> True | Some g \<Rightarrow> toLowerCase g \<noteq> toLowerCase h"
    by (auto simp: locked_against_def)
  show ?thesis
  proof (cases "\<exists>d'. r = Some (k, d')")
    case True
    then obtain d' where "r = Some (k, d')" by blast
    with f e(1) have d': "blob_at D s1 k = Some d'" "leased_doc d'" "core d' = core e" "blob_key a' c' n' sn d'"
      "sn = [] \<longrightarrow> doc_lease d' = current_lease t e" by (auto simp: found_def)
    have key: "blob_key a c n [] d'" using e(2) core_key(1) [OF d'(3)] by simp
    then have "sn = []" using d'(4) by (simp add: blob_key_def)
    with d' have "lease_holder t (doc_lease (blob_lease_defaults d')) = Some h"
      using current_lease_holder [OF store_invD(3) [OF inv e(1)], of t] e(3) by simp
    with d'(1) key e(4) show ?thesis by (auto simp: locked_against_def)
  next
    case False
    then have "blob_at D s1 k = Some e" using f e(1) by (auto simp: found_def split: option.splits)
    with e show ?thesis by (auto simp: locked_against_def)
  qed
qed

lemma wp_copy_source_locked:
  assumes inv: "store_inv D s" and lock: "locked_against D s a c n t lac"
  shows "wp (copy_source D (at_time t) so mac src)
    (\<lambda>r s'. store_inv D s' \<and> quiet D s s' \<and> locked_against D s' a c n t lac) (unharmed D s) s"
  unfolding copy_source_def wp_bind
proof (rule wp_lookupI [OF inv], goal_cases)
  case (1 r s')
  with found_keeps_lock [OF inv 1 lock] show ?case
    by (auto simp: found_def unharmed_def split: sum.splits)
qed simp

lemma wp_copy_destination_locked:
  assumes inv: "store_inv D s"
    and lock: "locked_against D s (id_account de) (id_container de) (id_blob de) t lac"
  shows "wp (copy_destination D (at_time t) de mac)
    (\<lambda>r s'. \<exists>j e. r = Some (j, e) \<and> found D s (id_account de) (id_container de) (id_blob de) [] t False (Some (j, e)) s')
    (unharmed D s) s"
  unfolding copy_destination_def any_blob_def wp_bind
proof (rule wp_lookupI [OF inv], goal_cases)
  case (1 r s')
  then have f: "found D s (id_account de) (id_container de) (id_blob de) [] t False r s'"
    by (simp add: default_snapshot_def)
  show ?case
  proof (cases r)
    case None
    with f lock locked_not_absent show ?thesis by blast
  next
    case (Some x)
    then show ?thesis using f foundD(1,2) [of s _ _ _ _ _ _ "fst x" "snd x" s']
      by (cases x) (auto simp: unharmed_def split: sum.splits)
  qed
qed simp

lemma locked_startCopy:
  assumes inv: "store_inv D s"
    and lock: "locked_against D s (id_account de) (id_container de) (id_blob de) t lac"
  shows "wp (startCopyFromURL D (at_time t) f so de url md tier smac mac lac sealed tags)
    (\<lambda>_ _. False) (unharmed D s) s"
  unfolding startCopyFromURL_def wp_bind [of "copy_source _ _ _ _ _"] wp_bind [of "copy_destination _ _ _ _"]
proof (rule wp_mono [OF wp_copy_source_locked [OF inv lock]], goal_cases)
  case (1 r s1)
  then have s1: "store_inv D s1" "quiet D s s1"
    "locked_against D s1 (id_account de) (id_container de) (id_blob de) t lac" by simp_all
  show ?case
  proof (rule wp_mono [OF wp_copy_destination_locked [OF s1(1,3)]], goal_cases)
    case (1 dst s2)
    then obtain j e where dst: "dst = Some (j, e)"
      and f: "found D s1 (id_account de) (id_container de) (id_blob de) [] t False (Some (j, e)) s2" by blast
    have "wp (check_write_lease D lac j e) Q (unharmed D s) s2" for Q
      using quiet_trans [OF s1(2)]
      by (intro wp_mono [OF wp_check_locked [OF s1(1,3) f, where Q = Q]]) (auto simp: unharmed_def)
    then show ?case by (simp add: dst)
  qed (use quiet_trans [OF s1(2)] in \<open>auto simp: unharmed_def\<close>)
qed simp

lemma locked_copyFromURL:
  assumes inv: "store_inv D s"
    and lock: "locked_against D s (id_account de) (id_container de) (id_blob de) t lac"
  shows "wp (copyFromURL D (at_time t) f so de url md tier smac mac lac ctags tags)
    (\<lambda>_ _. False) (unharmed D s) s"
  unfolding copyFromURL_def wp_bind [of "copy_source _ _ _ _ _"] wp_bind [of "copy_destination _ _ _ _"]
proof (rule wp_mono [OF wp_copy_source_locked [OF inv lock]], goal_cases)
  case (1 r s1)
  then have s1: "store_inv D s1" "quiet D s s1"
    "locked_against D s1 (id_account de) (id_container de) (id_blob de) t lac" by simp_all
  show ?case
  proof (rule wp_mono [OF wp_copy_destination_locked [OF s1(1,3)]], goal_cases)
    case (1 dst s2)
    then obtain j e where dst: "dst = Some (j, e)"
      and f: "found D s1 (id_account de) (id_container de) (id_blob de) [] t False (Some (j, e)) s2" by blast
    note fd = foundD [OF f]
    let ?e = "BlobWriteLeaseSyncer_sync e (doc_lease e)"
    have l: "leased_doc ?e" using fd(4) leased_sync(2) by (simp add: leased_doc_def)
    have "unharmed D s x (s2\<lparr>blobs := set_doc (BLOBS_COLLECTION D) (blobs s2) j ?e\<rparr>)" for x
      using put_core [OF fd(1,3), of ?e] leased_doc_wf [OF l] quiet_trans [OF quiet_trans [OF s1(2) fd(2)]]
      by (simp add: unharmed_def)
    then show ?case
      using locked_found [OF s1(1,3) f] fd(4)
      by (auto simp: dst adapter_leased put_blob_def Let_def split: sum.splits)
  qed (use quiet_trans [OF s1(2)] in \<open>auto simp: unharmed_def\<close>)
qed simp

lemma locked_write_refused:
  assumes "blob_write_request D a c n t lac s r s'" and inv: "store_inv D s"
    and lock: "locked_against D s a c n t lac"
  shows "\<exists>e. r = Some e \<and> unharmed D s e s'"
  using assms(1)
proof cases
qed (erule outcome_refused, rule locked_createBlob locked_checked locked_simple locked_lookups
      locked_startCopy locked_copyFromURL locked_appendBlock locked_commitBlockList locked_pages;
    (rule inv | rule lock | assumption | simp add: lock)+)+

end

text \<open>A store in which the blob is leased without limit.\<close>

definition leased_store :: "(ContainerModel list_coll, blob_doc list_coll, BlockModel list_coll) blob_store" where
  "leased_store = one_container\<lparr>blobs := [Some (BlobLeaseSyncer_sync
     (with_arrays (sample_value BlockBlob None None) None None)
     (leased_lease (Some ''id'') (Some Infinite) None None))]\<rparr>"

lemma leased_store_inv: "store_inv list_db leased_store"
  by (auto simp: store_inv_def leased_store_def one_container_def empty_store_def container_at_def
      blob_at_def block_at_def list_db_simps container_lease_ok_def doc_lease_def sample_container_def
      lease_wf_def available_lease_def leased_lease_def doc_wf_def arrays_ok_def has_container_def
      container_key_def sample_value_def with_arrays_def BlobLeaseSyncer_sync_def)



section \<open>Creating and reading\<close>

context blob_collections
begin

lemma wp_lookup_total:
  assumes inv: "store_inv D s" and cont: "has_container D s a c" and d: "blob_at D s i = Some d"
    "blob_key a c n [] d" "fc \<longrightarrow> isCommitted d"
    and md5: "restoreUint8Array (contentMD5 (properties d)) = Inr m"
  shows "wp (getBlobWithLeaseUpdated D a c n None (at_time t) fe fc)
    (\<lambda>r s'. store_inv D s' \<and> quiet D s s' \<and> (\<exists>d'. r = Some (i, d') \<and> blob_at D s' i = Some d' \<and> leased_doc d' \<and>
       core d' = core d \<and> contentMD5 (properties d') = m)) (\<lambda>_ _. False) s"
proof -
  have "wp (getBlobWithLeaseUpdated D a c n None (at_time t) fe fc)
    (\<lambda>r s'. \<exists>d'. r = Some (i, d') \<and> core d' = core d \<and> contentMD5 (properties d') = m) (\<lambda>_ _. False) s"
    unfolding getBlobWithLeaseUpdated_def wp_bind
  proof (intro wp_checkContainerExist wp_find_blob, goal_cases)
    case (1 j e)
    have "same_base d e" using 1(3) d(2)
      by (auto simp: same_base_def blob_key_def blob_path_def default_snapshot_def)
    then have e: "j = i" "e = d" using store_invD(6) [OF inv d(1) 1(2)] d(1) 1(2) by auto
    have "doc_wf (set_contentMD5 m d)" using store_invD(3) [OF inv d(1)] by (simp add: doc_wf_def)
    then obtain d' where d': "blob_observe_chain (at_time t) (set_contentMD5 m d) = Inr d'"
      using observe_total by blast
    moreover have "contentMD5 (properties d') = m"
      using d' by (auto simp: lease_chains bind_result_Inr_iff BlobLeaseSyncer_sync_def
          blob_lease_defaults_def set_contentMD5_def)
    ultimately show ?case
      using d(3) md5 observe_core [OF d']
      by (auto simp: e restore_blob_def refresh_lease_def default_snapshot_def put_blob_def)
  next
    case 2
    with d(1,2) show ?case by (auto simp: default_snapshot_def)
  qed (use cont in simp)
  then show ?thesis
    using wp_lookup [OF inv, of a c n None t fe fc]
    by (auto simp: wp_def found_def split: prod.splits sum.splits)
qed

end

lemma sync_from_core:
  "BlobLeaseSyncer_sync d undefined_lease = set_contentMD5 (contentMD5 (properties d)) (core d)"
  by (simp add: core_def BlobLeaseSyncer_sync_def set_contentMD5_def)

lemma blob_value_sync: "BlobLeaseSyncer_sync (blob_value s d) l = blob_value s (BlobLeaseSyncer_sync d l)"
  by (simp add: blob_value_def with_arrays_def BlobLeaseSyncer_sync_def)

lemma blob_value_quiet: "quiet D s s' \<Longrightarrow> blob_value s' d = blob_value s d"
  by (simp add: blob_value_def quiet_def)

lemma no_conditions_read:
  assumes "isCommitted d" "3 \<le> length (bp_etag (properties d))"
  shows "validateReadConditions (given_conditions None) (Some (blob_condition d)) None = Inr ()"
  using assms
  by (simp add: validateReadConditions_def given_conditions_def no_conditions_def ConditionResourceAdapter_def
      blob_condition_def ConditionalHeadersAdapter_def etag_list_def truthy_str_def
      ReadConditionalHeadersValidator_validate_def validate_tags_def)

lemma sync_fields:
  fixes v w :: "('p, 'b) BlobModel"
  assumes "BlobLeaseSyncer_sync w undefined_lease = BlobLeaseSyncer_sync v undefined_lease"
  shows "accountName w = accountName v" "containerName w = containerName v" "blob_name w = blob_name v"
    "blob_snapshot w = blob_snapshot v" "isCommitted w = isCommitted v" "properties w = properties v"
  using assms [THEN arg_cong, of accountName] assms [THEN arg_cong, of containerName]
    assms [THEN arg_cong, of blob_name] assms [THEN arg_cong, of blob_snapshot]
    assms [THEN arg_cong, of isCommitted] assms [THEN arg_cong, of properties]
  by (simp_all add: BlobLeaseSyncer_sync_def)

lemma createdE:
  assumes "created D s v s'"
  obtains i d where "store_inv D s'" "blob_at D s' i = Some d"
    "BlobLeaseSyncer_sync (blob_value s' d) undefined_lease = BlobLeaseSyncer_sync v undefined_lease"
proof -
  from assms obtain s0 i d where "store_inv D s'" "blob_at D s' = (blob_at D s0)(i \<mapsto> d)"
    "BlobLeaseSyncer_sync (blob_value s' d) undefined_lease = BlobLeaseSyncer_sync v undefined_lease"
    by (auto simp: created_def inserted_def)
  then show thesis by (intro that [of i d]) simp_all
qed

context blob_collections
begin

lemma wp_download_total:
  assumes inv: "store_inv D s" and d: "blob_at D s i = Some d" "blob_key a c n [] d" "isCommitted d"
    "3 \<le> length (bp_etag (properties d))"
    and md5: "restoreUint8Array (contentMD5 (properties d)) = Inr (contentMD5 (properties d))"
  shows "wp (downloadBlob D (at_time t) a c n None None None)
    (\<lambda>v _. BlobLeaseSyncer_sync v undefined_lease = BlobLeaseSyncer_sync (blob_value s d) undefined_lease)
    (\<lambda>_ _. False) s"
proof -
  have cont: "has_container D s a c"
    using store_invD(5) [OF inv d(1)] d(2) by (simp add: blob_key_def blob_path_def)
  have com: "True \<longrightarrow> isCommitted d" using d(3) by simp
  show ?thesis
    unfolding downloadBlob_def committed_blob_def readable_blob_def wp_bind
  proof (rule wp_mono [OF wp_lookup_total [OF inv cont d(1,2) com md5]], goal_cases)
    case (1 r s1)
    then obtain d' where r: "r = Some (i, d')" and s1: "store_inv D s1" "quiet D s s1" "blob_at D s1 i = Some d'"
      and d': "leased_doc d'" "core d' = core d" "contentMD5 (properties d') = contentMD5 (properties d)" by blast
    have "bp_etag (properties d') = bp_etag (properties d)"
      using core_fields(10) [OF d'(2), THEN arg_cong, of bp_etag] by simp
    then have "validateReadConditions (given_conditions None) (Some (blob_condition d')) None = Inr ()"
      using d(3,4) core_fields(5) [OF d'(2)] by (intro no_conditions_read) simp_all
    moreover have "BlobLeaseSyncer_sync (blob_value s2 d') undefined_lease =
        BlobLeaseSyncer_sync (blob_value s d) undefined_lease" if "quiet D s1 s2" for s2
      using blob_value_quiet [OF quiet_trans [OF s1(2) that]] d'(2,3)
      by (simp add: blob_value_sync sync_from_core)
    moreover have "BlobReadLeaseValidator_validate None l = Inr ()" for l
      by (simp add: BlobReadLeaseValidator_validate_def given_leaseId_def)
    ultimately show ?case
      using s1 d'(1) by (auto simp: r intro!: wp_check_read_lease)
  qed simp
qed

lemma create_download:
  assumes inv: "store_inv D s" and v: "doc_wf v" "pages_ok v" "blob_key a c n [] v" "isCommitted v"
    "3 \<le> length (bp_etag (properties v))"
    "restoreUint8Array (contentMD5 (properties v)) = Inr (contentMD5 (properties v))"
    and create: "createBlob D (at_time t) v lac mac s = (Inr (), s')"
  obtains v' s'' where "downloadBlob D (at_time t') a c n None None None s' = (Inr v', s'')"
    "BlobLeaseSyncer_sync v' undefined_lease = BlobLeaseSyncer_sync v undefined_lease"
proof -
  from wp_result [OF createBlob_created [OF inv v(1,2)] create]
  obtain i d where s': "store_inv D s'" "blob_at D s' i = Some d"
    and w: "BlobLeaseSyncer_sync (blob_value s' d) undefined_lease = BlobLeaseSyncer_sync v undefined_lease"
    by (rule createdE)
  note f = sync_fields [OF w]
  have d: "blob_key a c n [] d" "isCommitted d" "properties d = properties v"
    using v(3,4) f by (auto simp: blob_key_def blob_path_def blob_value_def)
  have "wp (downloadBlob D (at_time t') a c n None None None)
    (\<lambda>v' _. BlobLeaseSyncer_sync v' undefined_lease = BlobLeaseSyncer_sync (blob_value s' d) undefined_lease)
    (\<lambda>_ _. False) s'"
    using d v(5,6) by (intro wp_download_total [OF s'(1,2)]) simp_all
  then show thesis
    using that w by (auto simp: wp_def split: prod.splits sum.splits)
qed

end

text \<open>
  C24: What is created can be read back. After a successful \<open>createBlob\<close> of a committed blob, a
  download of it succeeds at any later time and returns the document that was created, with all its
  properties, metadata, tags, committed blocks and page ranges; only its lease may be another one,
  inherited from the blob it replaced.
\<close>

theorem created_blob_is_read_back:
  assumes "blob_collections D" "store_inv D s" "doc_wf v" "pages_ok v" "blob_key a c n '''' v" "isCommitted v"
    and "3 \<le> length (bp_etag (properties v))"
    and "restoreUint8Array (contentMD5 (properties v)) = Inr (contentMD5 (properties v))"
    and "createBlob D (at_time t) v lac mac s = (Inr (), s')"
  shows "\<exists>v' s''. downloadBlob D (at_time t') a c n None None None s' = (Inr v', s'') \<and>
    BlobLeaseSyncer_sync v' undefined_lease = BlobLeaseSyncer_sync v undefined_lease"
  using blob_collections.create_download [OF assms(1-4) _ assms(6-9)] assms(5) by (metis (no_types))

lemma no_conditions_write [simp]:
  "validateWriteConditions (given_conditions None) None = Inr ()"
  "3 \<le> length (bp_etag (properties d)) \<Longrightarrow>
   validateWriteConditions (given_conditions None) (Some (blob_condition d)) = Inr ()"
  by (simp_all add: validateWriteConditions_def given_conditions_def no_conditions_def
      ConditionResourceAdapter_def blob_condition_def ConditionalHeadersAdapter_def etag_list_def truthy_str_def
      WriteConditionalHeadersValidator_validate_def validateCombinations_def nonempty_list_def validate_tags_def)

lemmas insert_eval =
  createBlob_def only_if_new_def insert_blob_def new_page_array_def new_block_array_def
  insert_doc_blob_def

theorem created_blob_is_read_back_witness:
  "\<exists>v' s''. downloadBlob list_db (at_time 9) ''a'' ''c'' ''b'' None None None
      (snd (createBlob list_db (at_time 1) (sample_value BlockBlob None None) None None one_container)) = (Inr v', s'') \<and>
    BlobLeaseSyncer_sync v' undefined_lease =
    BlobLeaseSyncer_sync (sample_value BlockBlob None None) undefined_lease"
proof -
  let ?v = "sample_value BlockBlob None None"
  let ?m = "createBlob list_db (at_time 1) ?v None None one_container"
  have "fst ?m = Inr ()"
    by (simp add: insert_eval store_eval sample_value_def)
  then have "?m = (Inr (), snd ?m)" by (simp add: prod_eq_iff)
  moreover have "blob_key ''a'' ''c'' ''b'' '''' ?v" "isCommitted ?v" "3 \<le> length (bp_etag (properties ?v))"
    "restoreUint8Array (contentMD5 (properties ?v)) = Inr (contentMD5 (properties ?v))"
    by (simp_all add: blob_key_def blob_path_def sample_value_def)
  ultimately show ?thesis
    by (intro created_blob_is_read_back [OF list_db.blob_collections_axioms one_container_inv])
      (simp_all add: sample_value_ok)
qed

end
