(* ===== verification/Blob_Store_Effects.thy ===== *)
theory Blob_Store_Effects
  imports Blob_Store_Properties
begin

text \<open>
  What single operations of the blob metadata store do: which blocks a block list selects and what
  committing it leaves behind, what deleting removes, and which documents a write to a page or
  append blob reaches through a shared array.
\<close>

section \<open>Block lists\<close>

text \<open>A staged block of the blob.\<close>

definition staged_as ::
  "('cc, 'bc, 'kc) blob_db \<Rightarrow> ('cc, 'bc, 'kc) blob_store \<Rightarrow> string \<Rightarrow> string \<Rightarrow> string \<Rightarrow> string \<Rightarrow>
   PersistencyBlockModel \<Rightarrow> bool" where
  "staged_as D s a c n name b \<longleftrightarrow> (\<exists>k x. block_at D s k = Some x \<and> block_path a c n x \<and>
     \<not> block_isCommitted x \<and> block_name x = name \<and> PersistencyBlockModel.truncate x = b)"

text \<open>The last block of a list with a name.\<close>

definition last_named :: "PersistencyBlockModel list \<Rightarrow> string \<Rightarrow> PersistencyBlockModel \<Rightarrow> bool" where
  "last_named bs name b \<longleftrightarrow>
     (\<exists>xs ys. bs = xs @ b # ys \<and> block_name b = name \<and> name \<notin> block_name ` set ys)"

text \<open>What an entry of a block list stands for, given the staged and the committed blocks.\<close>

definition selects ::
  "(string \<Rightarrow> 'b \<Rightarrow> bool) \<Rightarrow> (string \<Rightarrow> 'b \<Rightarrow> bool) \<Rightarrow> string \<times> string \<Rightarrow> 'b \<Rightarrow> bool" where
  "selects U C e b \<longleftrightarrow> (case e of (name, ty) \<Rightarrow>
     (toLowerCase ty = ''uncommitted'' \<and> U name b) \<or>
     (toLowerCase ty = ''committed'' \<and> C name b) \<or>
     (toLowerCase ty = ''latest'' \<and> (U name b \<or> (\<forall>x. \<not> U name x) \<and> C name b)))"

text \<open>The committed blocks of the blob, none if there is no such blob.\<close>

definition current_blocks ::
  "('cc, 'bc, 'kc) blob_db \<Rightarrow> ('cc, 'bc, 'kc) blob_store \<Rightarrow> string \<Rightarrow> string \<Rightarrow> string \<Rightarrow>
   PersistencyBlockModel list \<Rightarrow> bool" where
  "current_blocks D s a c n bs \<longleftrightarrow>
     (\<exists>i d. blob_at D s i = Some d \<and> blob_key a c n '''' d \<and> bs = stored_blocks s d) \<or>
     (\<forall>i d. blob_at D s i = Some d \<longrightarrow> \<not> blob_key a c n '''' d) \<and> bs = []"

lemma blocks_by_name_last: "blocks_by_name bs name = Some b \<longleftrightarrow> last_named bs name b"
proof (induction bs rule: rev_induct)
  case Nil
  then show ?case by (simp add: blocks_by_name_def last_named_def)
next
  case (snoc x bs)
  show ?case
  proof (cases "block_name x = name")
    case True
    have "last_named (bs @ [x]) name b \<longleftrightarrow> b = x"
    proof
      assume "last_named (bs @ [x]) name b"
      then obtain xs ys where e: "bs @ [x] = xs @ b # ys" "name \<notin> block_name ` set ys"
        by (auto simp: last_named_def)
      with True show "b = x" by (cases ys rule: rev_cases) auto
    next
      assume "b = x"
      with True show "last_named (bs @ [x]) name b" unfolding last_named_def by fastforce
    qed
    with True show ?thesis by (auto simp: blocks_by_name_def)
  next
    case False
    have "last_named (bs @ [x]) name b \<longleftrightarrow> last_named bs name b"
    proof
      assume "last_named (bs @ [x]) name b"
      then obtain xs ys where e: "bs @ [x] = xs @ b # ys" "block_name b = name" "name \<notin> block_name ` set ys"
        by (auto simp: last_named_def)
      with False have "ys \<noteq> []" by auto
      then obtain zs y where "ys = zs @ [y]" by (cases ys rule: rev_cases) auto
      with e show "last_named bs name b" by (auto simp: last_named_def)
    next
      assume "last_named bs name b"
      then obtain xs ys where e: "bs = xs @ b # ys" "block_name b = name" "name \<notin> block_name ` set ys"
        by (auto simp: last_named_def)
      then show "last_named (bs @ [x]) name b"
        unfolding last_named_def using False by (intro exI [of _ xs] exI [of _ "ys @ [x]"]) auto
    qed
    with snoc False show ?thesis by (simp add: blocks_by_name_def)
  qed
qed

lemma blocks_by_name_set:
  assumes "\<And>x y. x \<in> set bs \<Longrightarrow> y \<in> set bs \<Longrightarrow> block_name x = block_name y \<Longrightarrow> x = y"
  shows "blocks_by_name bs name = Some b \<longleftrightarrow> b \<in> set bs \<and> block_name b = name"
  unfolding blocks_by_name_last
proof
  assume b: "b \<in> set bs \<and> block_name b = name"
  then obtain xs ys where bs: "bs = xs @ b # ys" "b \<notin> set ys" by (meson split_list_last)
  have "name \<notin> block_name ` set ys"
  proof
    assume "name \<in> block_name ` set ys"
    then obtain y where "y \<in> set ys" "block_name y = block_name b" using b by auto
    then show False using assms [of y b] bs by auto
  qed
  then show "last_named bs name b" unfolding last_named_def using b bs(1) by blast
qed (auto simp: last_named_def)

lemma select_block_iff:
  assumes "\<And>name b. u name = Some b \<longleftrightarrow> U name b" "\<And>name b. k name = Some b \<longleftrightarrow> C name b"
  shows "select_block u k e = Some b \<longleftrightarrow> selects U C e b"
proof (cases e)
  case (Pair name ty)
  have k: "k name = Some b \<longleftrightarrow> C name b" using assms(2) .
  show ?thesis
  proof (cases "u name")
    case None
    then have "\<not> U name x" for x using assms(1) [of name x] by simp
    with None k show ?thesis by (simp add: Pair select_block_def selects_def Let_def)
  next
    case (Some z)
    then have "U name x \<longleftrightarrow> z = x" for x using assms(1) [of name x] by auto
    with Some k show ?thesis by (auto simp: Pair select_block_def selects_def Let_def)
  qed
qed

lemma select_blocks_iff:
  assumes "\<And>name b. u name = Some b \<longleftrightarrow> U name b" "\<And>name b. k name = Some b \<longleftrightarrow> C name b"
  shows "select_blocks u k bl = Inr sel \<longleftrightarrow> list_all2 (selects U C) bl sel"
proof (induction bl arbitrary: sel)
  case (Cons e bl)
  note e = select_block_iff [of u U k C e, OF assms]
  show ?case
  proof (cases "select_block u k e")
    case None
    then have "\<not> selects U C e b" for b using e [of b] by simp
    with None show ?thesis by (auto simp: list_all2_Cons1)
  next
    case (Some b)
    then have "selects U C e x \<longleftrightarrow> x = b" for x using e [of x] by auto
    with Some Cons.IH show ?thesis by (auto simp: list_all2_Cons1 bind_result_Inr_iff)
  qed
qed auto

lemma total_size_sum: "total_size bs = sum_list (map block_size bs)"
proof -
  have "foldl (\<lambda>total val. total + val) z xs = z + sum_list xs" for z :: int and xs
    by (induction xs arbitrary: z) simp_all
  then show ?thesis by (simp add: total_size_def)
qed

context blob_collections
begin

lemma staged_by_name:
  assumes inv: "store_inv D s"
  shows "blocks_by_name (map PersistencyBlockModel.truncate (filter (\<lambda>b. \<not> block_isCommitted b)
      (map snd (find_simplesort (BLOCKS_COLLECTION D) (blocks s) (block_path a c n))))) name = Some b \<longleftrightarrow>
    staged_as D s a c n name b"
proof -
  let ?P = "\<lambda>x. (\<exists>k. block_at D s k = Some x) \<and> block_path a c n x \<and> \<not> block_isCommitted x"
  let ?bs = "map PersistencyBlockModel.truncate (filter (\<lambda>b. \<not> block_isCommitted b)
      (map snd (find_simplesort (BLOCKS_COLLECTION D) (blocks s) (block_path a c n))))"
  have bs: "set ?bs = PersistencyBlockModel.truncate ` Collect ?P"
    by (force simp: block.find_set block_at_def)
  have name: "block_name (PersistencyBlockModel.truncate x) = block_name x" for x :: BlockModel
    by (simp add: PersistencyBlockModel.defs)
  have uniq: "x = y" if "?P x" "?P y" "block_name x = block_name y" for x y
  proof -
    from that(1,2) obtain k m where "block_at D s k = Some x" "block_at D s m = Some y" by blast
    moreover have "same_block x y" using that by (auto simp: same_block_def block_path_def)
    ultimately show ?thesis using store_invD(8) [OF inv] by fastforce
  qed
  have "x = y" if "x \<in> set ?bs" "y \<in> set ?bs" "block_name x = block_name y" for x y
  proof -
    from that(1,2) obtain x' y' where e: "x = PersistencyBlockModel.truncate x'" "?P x'"
      "y = PersistencyBlockModel.truncate y'" "?P y'" unfolding bs by blast
    then have "x' = y'" using that(3) by (intro uniq) (simp_all add: name)
    with e show ?thesis by simp
  qed
  then have "blocks_by_name ?bs name = Some b \<longleftrightarrow> b \<in> set ?bs \<and> block_name b = name"
    by (rule blocks_by_name_set)
  also have "\<dots> \<longleftrightarrow> staged_as D s a c n name b" unfolding bs staged_as_def by (force simp: name)
  finally show ?thesis .
qed

lemma staged_quiet: "quiet D s s' \<Longrightarrow> staged_as D s' a c n = staged_as D s a c n"
  by (simp add: staged_as_def fun_eq_iff quiet_fields)

end

text \<open>The blob at \<open>i\<close> after a successful commit.\<close>

definition committed_as ::
  "('cc, 'bc, 'kc) blob_db \<Rightarrow> ('cc, 'bc, 'kc) blob_store \<Rightarrow> blob_value \<Rightarrow> PersistencyBlockModel list \<Rightarrow> nat \<Rightarrow>
   ('cc, 'bc, 'kc) blob_store \<Rightarrow> bool" where
  "committed_as D s v sel i s' \<longleftrightarrow>
     (\<exists>d. blob_at D s' i = Some d \<and>
        blob_key (accountName v) (containerName v) (blob_name v) (blob_snapshot v) d \<and> isCommitted d \<and>
        stored_blocks s' d = sel \<and> contentLength (properties d) = Some (sum_list (map block_size sel)) \<and>
        blob_metadata d = blob_metadata v \<and> blobTags d = blobTags v \<and>
        bp_etag (properties d) = bp_etag (properties v)) \<and>
     (\<forall>j. j \<noteq> i \<longrightarrow> map_option core (blob_at D s' j) = map_option core (blob_at D s j)) \<and>
     containers s' = containers s"

lemma stored_blocks_value: "stored_blocks s d = (case committedBlocksInOrder (blob_value s d) of None \<Rightarrow> [] | Some bs \<Rightarrow> bs)"
  by (simp add: stored_blocks_def blob_value_def split: option.splits)

context blob_collections
begin

lemma wp_commit_insert:
  assumes inv: "store_inv D s" and v: "doc_wf v" "pages_ok v" "isCommitted v"
    "has_container D s (accountName v) (containerName v)"
    and new: "\<And>i e. blob_at D s i = Some e \<Longrightarrow>
      \<not> blob_key (accountName v) (containerName v) (blob_name v) (blob_snapshot v) e"
    and post: "\<And>i s'. committed_as D s v sel i s' \<Longrightarrow> blocks s' = blocks s \<Longrightarrow> Q () s'"
  shows "wp (insert_blob D (v\<lparr>committedBlocksInOrder := Some sel,
      properties := (properties v)\<lparr>contentLength := Some (total_size sel)\<rparr>\<rparr>)) Q R s"
proof (rule wp_insert_blob [OF inv], goal_cases)
  case (5 s')
  let ?v = "v\<lparr>committedBlocksInOrder := Some sel, properties := (properties v)\<lparr>contentLength := Some (total_size sel)\<rparr>\<rparr>"
  from 5 obtain i d where i: "blob_at D s i = None" and at: "blob_at D s' = (blob_at D s)(i \<mapsto> d)"
    and d: "blob_value s' d = ?v" by (auto simp: inserted_def)
  have f: "accountName d = accountName v" "containerName d = containerName v" "blob_name d = blob_name v"
    "blob_snapshot d = blob_snapshot v" "isCommitted d" "properties d = properties ?v"
    "blob_metadata d = blob_metadata v" "blobTags d = blobTags v"
    using d [THEN arg_cong, of accountName] d [THEN arg_cong, of containerName]
      d [THEN arg_cong, of blob_name] d [THEN arg_cong, of blob_snapshot]
      d [THEN arg_cong, of isCommitted] d [THEN arg_cong, of properties]
      d [THEN arg_cong, of blob_metadata] d [THEN arg_cong, of blobTags] v(3)
    by (simp_all add: blob_value_def)
  have "stored_blocks s' d = sel"
    using d [THEN arg_cong, of committedBlocksInOrder] unfolding stored_blocks_value by auto
  then have "committed_as D s v sel i s'"
    using at f i 5 unfolding committed_as_def
    by (simp add: blob_key_def blob_path_def total_size_sum inserted_def)
  then show ?case using post 5 by (simp add: inserted_def)
qed (use v new in \<open>auto simp: doc_wf_def doc_lease_def pages_ok_def\<close>)

lemma wp_commit_put:
  assumes s: "store_inv D s" "quiet D s0 s" "blob_at D s i = Some d" "leased_doc d"
    and key: "blob_key (accountName v) (containerName v) (blob_name v) (blob_snapshot v) d"
    and post: "\<And>s'. committed_as D s0 v sel i s' \<Longrightarrow> blocks s' = blocks s \<Longrightarrow> Q () s'"
  shows "wp (bind_op (new_block_array (Some sel)) (\<lambda>arr.
      put_blob D i (BlobWriteLeaseSyncer_sync (d\<lparr>committedBlocksInOrder := arr, isCommitted := True,
        blob_metadata := blob_metadata v, blobTags := blobTags v,
        properties := committed_properties (properties v) sel (properties d)\<rparr>) l))) Q R s"
proof -
  let ?e = "BlobWriteLeaseSyncer_sync (d\<lparr>committedBlocksInOrder := Some (length (block_arrays s)),
      isCommitted := True, blob_metadata := blob_metadata v, blobTags := blobTags v,
      properties := committed_properties (properties v) sel (properties d)\<rparr>) l"
  let ?s = "s\<lparr>block_arrays := block_arrays s @ [sel]\<rparr>"
  let ?s' = "?s\<lparr>blobs := set_doc (BLOBS_COLLECTION D) (blobs ?s) i ?e\<rparr>"
  have at: "blob_at D ?s' = (blob_at D s)(i \<mapsto> ?e)" using blob_at_put [of ?s i ?e] s(3) by simp
  have "committed_as D s0 v sel i ?s'"
    using s(2) key unfolding committed_as_def at
    by (auto simp: quiet_def frame_simps stored_blocks_def total_size_sum committed_properties_def)
  from post [OF this] show ?thesis
    by (simp add: wp_def [of "new_block_array _"] new_block_array_def put_blob_def)
qed

end

lemma stored_blocks_cong: "block_arrays s' = block_arrays s \<Longrightarrow> stored_blocks s' d = stored_blocks s d"
  by (simp add: stored_blocks_def split: option.split)

lemma committed_as_blocks [simp]: "committed_as D s v sel i (s'\<lparr>blocks := x\<rparr>) = committed_as D s v sel i s'"
  by (simp add: committed_as_def stored_blocks_cong [of "s'\<lparr>blocks := x\<rparr>" s'])

lemma current_blocks_None:
  "current_blocks D s a c n bs \<Longrightarrow> \<forall>i d. blob_at D s i = Some d \<longrightarrow> \<not> blob_key a c n [] d \<Longrightarrow> bs = []"
  by (auto simp: current_blocks_def)

lemma current_blocks_Some:
  assumes "current_blocks D s a c n bs" "store_inv D s" "blob_at D s i = Some d" "blob_key a c n [] d"
  shows "bs = stored_blocks s d"
proof -
  from assms(1,3,4) obtain j e where e: "blob_at D s j = Some e" "blob_key a c n [] e" "bs = stored_blocks s e"
    by (auto simp: current_blocks_def)
  then have "same_base d e" using assms(4) by (auto simp: same_base_def blob_key_def blob_path_def)
  then show ?thesis using e store_invD(6) [OF assms(2,3) e(1)] assms(3) by simp
qed

lemma stored_blocks_quiet:
  assumes "quiet D s s'" "core d' = core d"
  shows "stored_blocks s' d' = stored_blocks s d"
  using stored_blocks_cong [OF quiet_fields(4) [OF assms(1)], of d'] core_fields(7) [OF assms(2)]
  by (simp add: stored_blocks_def)

context blob_collections
begin

lemma wp_commitBlockList:
  assumes inv: "store_inv D s" and v: "doc_wf v" "pages_ok v" "isCommitted v" "blob_snapshot v = []"
    and old: "current_blocks D s (accountName v) (containerName v) (blob_name v) old"
  shows "wp (commitBlockList D (at_time t) v bl lac mac) (\<lambda>_ s'. \<exists>i sel. committed_as D s v sel i s' \<and>
      list_all2 (selects (staged_as D s (accountName v) (containerName v) (blob_name v)) (last_named old)) bl sel \<and>
      blocks s' = findAndRemove (BLOCKS_COLLECTION D) (blocks s)
        (block_path (accountName v) (containerName v) (blob_name v))) (\<lambda>_ _. True) s"
  (is "wp _ (\<lambda>_. ?Q) _ _")
  unfolding commitBlockList_def any_blob_def wp_bind
proof (rule wp_lookupI [OF inv], goal_cases)
  case (1 r s1)
  let ?sel = "\<lambda>s cs. select_blocks (blocks_by_name (map PersistencyBlockModel.truncate
     (filter (\<lambda>b. \<not> block_isCommitted b) (map snd (find_simplesort (BLOCKS_COLLECTION D) (blocks s)
       (block_path (accountName v) (containerName v) (blob_name v))))))) (blocks_by_name cs) bl"
  have sel: "list_all2 (selects (staged_as D s (accountName v) (containerName v) (blob_name v)) (last_named cs)) bl sel"
    if "?sel s' cs = Inr sel" "store_inv D s'" "quiet D s s'" for s' cs sel
    using that(1) select_blocks_iff [OF staged_by_name [OF that(2)] blocks_by_name_last]
    by (simp add: staged_quiet [OF that(3)])
  have post: "wp (remove_blocks D (block_path (accountName v) (containerName v) (blob_name v))) (\<lambda>_. ?Q) (\<lambda>_ _. True) s3"
    if "committed_as D s v xs i s3" "blocks s3 = blocks s2" "quiet D s s2" "?sel s2 old = Inr xs" "store_inv D s2"
    for xs i s2 s3
    using that sel [OF that(4,5,3)] by (auto simp: remove_blocks_def quiet_fields)
  show ?case
  proof (cases r)
    case None
    have s1: "s1 = s" and new: "\<forall>i d. blob_at D s i = Some d \<longrightarrow>
        \<not> blob_key (accountName v) (containerName v) (blob_name v) [] d"
      using 1 None v(4) by (simp_all add: found_def default_snapshot_def)
    have "old = []" using current_blocks_None [OF old new] .
    then show ?thesis unfolding None s1
      using v new inv 1 post [of _ _ _ s]
      by (auto simp: staged_blocks_def found_def None s1 split: sum.splits intro!: wp_commit_insert [OF inv])
  next
    case (Some x)
    obtain i d where r: "r = Some (i, d)" using Some by (cases x) auto
    note fd = foundD [OF 1 [unfolded r]]
    from 1 obtain d0 where d0: "blob_at D s i = Some d0" "core d = core d0" by (auto simp: r found_def)
    have key: "blob_key (accountName v) (containerName v) (blob_name v) (blob_snapshot v) d"
      using fd(5) by (simp add: default_snapshot_def)
    then have "blob_key (accountName v) (containerName v) (blob_name v) [] d0"
      using v(4) core_key(1) [OF d0(2)] by simp
    then have old': "old = stored_blocks s d0" by (rule current_blocks_Some [OF old inv d0(1)])
    have st: "stored_blocks s' d = old" if "quiet D s s'" for s'
      using stored_blocks_quiet [OF that d0(2)] old' by simp
    show ?thesis
      using fd quiet_trans [OF fd(2)] key unfolding r
      by (auto simp: staged_blocks_def st split: sum.splits
          intro!: wp_check_write_lease wp_commit_put [where ?s0.0 = s, unfolded wp_bind] post)
  qed
qed simp

end

text \<open>
  C25: Committing a block list. A successful \<open>commitBlockList\<close> leaves one committed blob at the path
  whose blocks are those the entries of the list stand for, in the order of the list: an
  \<open>Uncommitted\<close> entry the staged block of that name, a \<open>Committed\<close> entry the (last) block of that
  name in the blob so far, a \<open>Latest\<close> entry the staged block if there is one and the committed one
  otherwise. The content length is the sum of the sizes, every staged block of the blob is gone, and
  no other blob, block or container is affected.
\<close>

theorem commit_block_list_selects:
  assumes "blob_collections D" "store_inv D s" "doc_wf v" "pages_ok v" "isCommitted v" "blob_key a c n '''' v"
    and "current_blocks D s a c n old"
    and "commitBlockList D (at_time t) v bl lac mac s = (Inr (), s')"
  shows "\<exists>i sel. committed_as D s v sel i s' \<and>
    list_all2 (selects (staged_as D s a c n) (last_named old)) bl sel \<and>
    (\<forall>k. block_at D s' k = (case block_at D s k of None \<Rightarrow> None
       | Some b \<Rightarrow> if block_path a c n b then None else Some b))"
proof -
  have v: "accountName v = a" "containerName v = c" "blob_name v = n" "blob_snapshot v = []"
    using assms(6) by (auto simp: blob_key_def blob_path_def)
  obtain i sel where "committed_as D s v sel i s'"
      "list_all2 (selects (staged_as D s a c n) (last_named old)) bl sel"
    and b: "blocks s' = findAndRemove (BLOCKS_COLLECTION D) (blocks s) (block_path a c n)"
    using wp_result [OF blob_collections.wp_commitBlockList [OF assms(1-5) v(4)] assms(8)] assms(7)
    unfolding v by blast
  moreover have "loki (BLOCKS_COLLECTION D)" using assms(1) by (simp add: blob_collections_def)
  then have "block_at D s' k = (case block_at D s k of None \<Rightarrow> None
       | Some b \<Rightarrow> if block_path a c n b then None else Some b)" for k
    by (simp add: block_at_def b loki.findAndRemove_get)
  ultimately show ?thesis by blast
qed

text \<open>A store with a staged block.\<close>

definition sample_block :: BlockModel where
  "sample_block = \<lparr>block_name = ''AAAA'', block_size = 7,
     block_persistency = \<lparr>chunk_id = ''x'', chunk_offset = 0, chunk_count = 7\<rparr>, block_accountName = ''a'',
     block_containerName = ''c'', block_blobName = ''b'', block_isCommitted = False\<rparr>"

definition staged_store :: "(ContainerModel list_coll, blob_doc list_coll, BlockModel list_coll) blob_store" where
  "staged_store = one_container\<lparr>blocks := [Some sample_block]\<rparr>"

lemma staged_store_inv: "store_inv list_db staged_store"
  by (auto simp: store_inv_def staged_store_def one_container_def empty_store_def container_at_def
      blob_at_def block_at_def list_db_simps container_lease_ok_def doc_lease_def sample_container_def
      lease_wf_def available_lease_def has_container_def container_key_def sample_block_def split: if_splits)

lemmas commit_eval =
  commitBlockList_def only_if_new_def insert_blob_def new_page_array_def new_block_array_def
  insert_doc_blob_def staged_blocks_def remove_blocks_def blocks_by_name_def select_block_def
  toLowerCase_def lower_char_def bind_result_def

theorem commit_block_list_selects_witness:
  "\<exists>i sel. committed_as list_db staged_store (sample_value BlockBlob None None) sel i
      (snd (commitBlockList list_db (at_time 1) (sample_value BlockBlob None None) [(''AAAA'', ''latest'')] None None staged_store)) \<and>
    list_all2 (selects (staged_as list_db staged_store ''a'' ''c'' ''b'') (last_named [])) [(''AAAA'', ''latest'')] sel"
proof -
  let ?v = "sample_value BlockBlob None None"
  let ?m = "commitBlockList list_db (at_time 1) ?v [(''AAAA'', ''latest'')] None None staged_store"
  have "fst ?m = Inr ()"
    by (simp add: commit_eval store_eval staged_store_def sample_value_def sample_block_def
        block_path_def PersistencyBlockModel.defs)
  then have m: "?m = (Inr (), snd ?m)" by (simp add: prod_eq_iff)
  have old: "current_blocks list_db staged_store ''a'' ''c'' ''b'' []"
    by (simp add: current_blocks_def blob_at_def staged_store_def store_eval)
  have key: "blob_key ''a'' ''c'' ''b'' '''' ?v" "isCommitted ?v"
    by (simp_all add: blob_key_def blob_path_def sample_value_def)
  show ?thesis
    using commit_block_list_selects [OF list_db.blob_collections_axioms staged_store_inv sample_value_ok(1)
        sample_value_ok(2) [OF refl] key(2,1) old m] by blast
qed

section \<open>Deleting\<close>

text \<open>The documents of a blob that a successful deletion removes.\<close>

definition deletes :: "string option \<Rightarrow> DeleteSnapshotsOptionType option \<Rightarrow> blob_doc \<Rightarrow> bool" where
  "deletes sn opt d \<longleftrightarrow>
     (if default_snapshot sn \<noteq> '''' then blob_snapshot d = default_snapshot sn
      else opt \<noteq> Some Only \<or> blob_snapshot d \<noteq> '''')"

context blob_collections
begin

lemma one_document:
  assumes "count_docs (BLOBS_COLLECTION D) (blobs s) p \<le> 1"
    and "blob_at D s i = Some d" "p d" "blob_at D s j = Some e" "p e"
  shows "i = j"
proof -
  let ?I = "{i. \<exists>d. blob_at D s i = Some d \<and> p d}"
  have "?I = fst ` set (find_simplesort (BLOBS_COLLECTION D) (blobs s) p)"
    unfolding blob.find_set by (force simp: blob_at_def)
  then have "finite ?I" by simp
  moreover have "card ?I \<le> Suc 0" using assms(1) by (simp add: blob.count_card blob_at_def)
  ultimately show ?thesis using assms(2-5) card_le_Suc0_iff_eq by blast
qed

end

text \<open>Everything is as before, except that the documents with \<open>p\<close> are gone (and leases may have been
  brought up to date).\<close>

definition all_but ::
  "('cc, 'bc, 'kc) blob_db \<Rightarrow> (blob_doc \<Rightarrow> bool) \<Rightarrow> ('cc, 'bc, 'kc) blob_store \<Rightarrow> ('cc, 'bc, 'kc) blob_store \<Rightarrow> bool" where
  "all_but D p s s' \<longleftrightarrow> containers s' = containers s \<and> blocks s' = blocks s \<and>
     page_arrays s' = page_arrays s \<and> block_arrays s' = block_arrays s \<and>
     (\<forall>i. map_option core (blob_at D s' i) =
        (case blob_at D s i of None \<Rightarrow> None | Some d \<Rightarrow> if p d then None else Some (core d)))"

context blob_collections
begin

lemma wp_remove_blobs:
  assumes q: "quiet D s0 s" and p: "\<And>d e. core d = core e \<Longrightarrow> p d = q e" and Q: "\<And>s'. all_but D q s0 s' \<Longrightarrow> Q () s'"
  shows "wp (remove_blobs D p) Q R s"
proof -
  let ?s = "s\<lparr>blobs := findAndRemove (BLOBS_COLLECTION D) (blobs s) p\<rparr>"
  have "map_option core (blob_at D ?s i) =
      (case blob_at D s0 i of None \<Rightarrow> None | Some d \<Rightarrow> if q d then None else Some (core d))" for i
  proof (cases "blob_at D s0 i")
    case None
    then have "blob_at D s i = None"
      using q [unfolded quiet_def, THEN conjunct2, THEN conjunct2, THEN conjunct2, THEN conjunct2, rule_format, of i]
      by simp
    with None show ?thesis by (simp add: blob_at_def blob.findAndRemove_get)
  next
    case (Some d)
    obtain e where "blob_at D s i = Some e" "core e = core d" using quiet_blob_fwd [OF q Some] by blast
    with Some p [of e d] show ?thesis by (simp add: blob_at_def blob.findAndRemove_get)
  qed
  with q have "all_but D q s0 ?s" by (simp add: all_but_def quiet_def)
  then show ?thesis using Q by (simp add: remove_blobs_def)
qed

lemma wp_deleteBlob:
  assumes inv: "store_inv D s"
    and post: "\<And>s'. all_but D (\<lambda>d. blob_path a c n d \<and> deletes sn opt d) s s' \<Longrightarrow>
       (opt = None \<Longrightarrow> default_snapshot sn = [] \<Longrightarrow>
          \<forall>i d. blob_at D s i = Some d \<longrightarrow> blob_path a c n d \<longrightarrow> blob_snapshot d = []) \<Longrightarrow> Q () s'"
  shows "wp (deleteBlob D (at_time t) a c n sn opt lac mac) Q (\<lambda>_ _. True) s"
  unfolding deleteBlob_def any_blob_def wp_bind
proof (intro wp_checkContainerExist wp_writable [OF inv], goal_cases)
  case (1 i d s1)
  note fd = foundD [OF 1(2)]
  have base: "blob_snapshot d = default_snapshot sn" using fd(5) by (simp add: blob_key_def)
  have single: "blob_snapshot e = []"
    if "count_docs (BLOBS_COLLECTION D) (blobs s2) (blob_path a c n) \<le> 1" "quiet D s s2" "blob_at D s2 = blob_at D s1"
      "default_snapshot sn = []" "blob_at D s j = Some e" "blob_path a c n e" for s2 j e
  proof -
    note quiet = that(2,5)
    obtain e' where e': "blob_at D s2 j = Some e'" "core e' = core e" using quiet_blob_fwd [OF quiet] by blast
    have "blob_path a c n e'" using that(6) core_key(2) [OF e'(2)] by simp
    moreover have "blob_at D s2 i = Some d" "blob_path a c n d" using fd(3,5) that(3) by (simp_all add: blob_key_def)
    ultimately have "i = j" using one_document [OF that(1)] e'(1) by blast
    then have "e' = d" using e'(1) fd(3) that(3) by simp
    then show ?thesis using base that(4) core_fields(4) [OF e'(2)] by simp
  qed
  have rem: "wp (remove_blobs D p) Q (\<lambda>_ _. True) s2"
    if q: "quiet D s s2" "blob_at D s2 = blob_at D s1"
      and p: "\<And>d. p d \<longleftrightarrow> blob_path a c n d \<and> deletes sn opt d"
      and cnt: "opt = None \<Longrightarrow> default_snapshot sn = [] \<Longrightarrow>
        count_docs (BLOBS_COLLECTION D) (blobs s2) (blob_path a c n) \<le> 1" for p s2
  proof (rule wp_remove_blobs [OF q(1)])
    show "p d \<longleftrightarrow> blob_path a c n e \<and> deletes sn opt e" if "core d = core e" for d e
      by (simp add: p deletes_def core_key(2) [OF that] core_fields(4) [OF that])
      show "Q () s'" if "all_but D (\<lambda>e. blob_path a c n e \<and> deletes sn opt e) s s'" for s'
      using post [OF that] single [OF _ q] cnt by blast
  qed
  have cmp: "[] < x \<longleftrightarrow> x \<noteq> []" for x :: string by (cases x) simp_all
  have locked: "wp (check_write_lease D lac i d) Q (\<lambda>_ _. True) s1"
    if "\<And>s2. quiet D s s2 \<Longrightarrow> blob_at D s2 = blob_at D s1 \<Longrightarrow> Q (doc_lease d, d) s2" for Q
    using that fd(1,3,4) quiet_trans [OF fd(2)] by (intro wp_check_write_lease) auto
  consider "default_snapshot sn \<noteq> []" | "default_snapshot sn = []" "opt = None"
    | "default_snapshot sn = []" "opt = Some Include" | "default_snapshot sn = []" "opt = Some Only"
    using DeleteSnapshotsOptionType.exhaust by (metis option.exhaust)
  then show ?case
    by cases (auto simp: Let_def base deletes_def blob_key_def cmp intro!: locked rem)
qed simp_all

end

text \<open>
  C26: Deleting. A successful \<open>deleteBlob\<close> removes exactly what the request names: with a snapshot
  time that snapshot; without one the blob and its snapshots (\<open>include\<close>), the snapshots but not the
  blob (\<open>only\<close>), or the blob if it has no snapshots (without the option; the request is refused if
  there are any). No other document, no block and no container changes.
\<close>

theorem delete_blob_exact:
  assumes "blob_collections D" "store_inv D s"
    and "deleteBlob D (at_time t) a c n sn opt lac mac s = (Inr (), s')"
  shows "all_but D (\<lambda>d. blob_path a c n d \<and> deletes sn opt d) s s' \<and>
    (opt = None \<and> default_snapshot sn = '''' \<longrightarrow>
       (\<forall>i d. blob_at D s i = Some d \<longrightarrow> blob_path a c n d \<longrightarrow> blob_snapshot d = ''''))" (is "?P s'")
  using wp_result [OF blob_collections.wp_deleteBlob [OF assms(1,2), where Q = "\<lambda>_ s'. ?P s'"] assms(3)] by blast

theorem delete_blob_exact_witness:
  "all_but list_db (\<lambda>d. blob_path ''a'' ''c'' ''b'' d \<and> deletes None (Some Include) d) leased_store
     (snd (deleteBlob list_db (at_time 1) ''a'' ''c'' ''b'' None (Some Include) (Some \<lparr>cond_leaseId = Some ''id''\<rparr>) None leased_store))"
proof -
  let ?m = "deleteBlob list_db (at_time 1) ''a'' ''c'' ''b'' None (Some Include) (Some \<lparr>cond_leaseId = Some ''id''\<rparr>) None leased_store"
  have "fst ?m = Inr ()"
    by code_simp
  then have "?m = (Inr (), snd ?m)" by (simp add: prod_eq_iff)
  then show ?thesis using delete_blob_exact [OF list_db.blob_collections_axioms leased_store_inv] by blast
qed

section \<open>Copies share their arrays\<close>

definition sample_fresh :: fresh where
  "sample_fresh = \<lparr>newEtag = ''new'', uuid = ''uuid'', newDate = Valid 0\<rparr>"

text \<open>A page blob \<open>b\<close> without pages, its copy \<open>k\<close>, and a page written to \<open>k\<close>.\<close>

definition page_blob_store :: "(ContainerModel list_coll, blob_doc list_coll, BlockModel list_coll) blob_store" where
  "page_blob_store = snd (createBlob list_db (at_time 1) (sample_value PageBlob (Some []) None) None None one_container)"

definition copied_store :: "(ContainerModel list_coll, blob_doc list_coll, BlockModel list_coll) blob_store" where
  "copied_store = snd (startCopyFromURL list_db (at_time 2) sample_fresh
     \<lparr>id_account = ''a'', id_container = ''c'', id_blob = ''b'', id_snapshot = None\<rparr>
     \<lparr>id_account = ''a'', id_container = ''c'', id_blob = ''k'', id_snapshot = None\<rparr>
     ''url'' None None None None None None None page_blob_store)"

definition written_store :: "(ContainerModel list_coll, blob_doc list_coll, BlockModel list_coll) blob_store" where
  "written_store = snd (uploadPages list_db (at_time 3) sample_fresh
     ((sample_value PageBlob None None)\<lparr>blob_name := ''k''\<rparr>) 0 511
     \<lparr>chunk_id = ''x'', chunk_offset = 0, chunk_count = 512\<rparr> None None None copied_store)"

definition pages_of where
  "pages_of blob s = map_sum id snd (fst (getPageRanges list_db (at_time 4) ''a'' ''c'' blob None None None s))"


section \<open>Page writes\<close>

text \<open>The bytes of a stored document.\<close>

definition doc_pages :: "('cc, 'bc, 'kc) blob_store \<Rightarrow> blob_doc \<Rightarrow> int \<Rightarrow> (string \<times> int) option" where
  "doc_pages s d = page_at (case pageRangesInOrder d of None \<Rightarrow> [] | Some a \<Rightarrow> array_at (page_arrays s) a)"

definition write_pages :: "PersistencyPageRange \<Rightarrow> (int \<Rightarrow> (string \<times> int) option) \<Rightarrow> int \<Rightarrow> (string \<times> int) option" where
  "write_pages r f = (\<lambda>p. if rstart r \<le> p \<and> p \<le> rend r then Some (range_byte r p) else f p)"

text \<open>Two documents that refer to the same array of page ranges.\<close>

definition shares_pages :: "blob_doc \<Rightarrow> blob_doc \<Rightarrow> bool" where
  "shares_pages d e \<longleftrightarrow> pageRangesInOrder d \<noteq> None \<and> pageRangesInOrder d = pageRangesInOrder e"

context blob_collections
begin

lemma wp_merge_pages:
  assumes inv: "store_inv D s" and d: "blob_at D s i = Some d" and r: "wf_range r"
    and post: "\<And>s'. store_inv D s' \<Longrightarrow> blob_at D s' = blob_at D s \<Longrightarrow>
      (\<And>e. doc_pages s' e = (if shares_pages d e then write_pages r (doc_pages s e) else doc_pages s e)) \<Longrightarrow> Q () s'"
  shows "wp (change_pages (\<lambda>rs. mergeRange rs r) d) Q R s"
proof (cases "pageRangesInOrder d")
  case None
  moreover obtain rs where "mergeRange [] r = Inr rs" using merge_range_spec [OF wf_ranges_Nil r] by blast
  ultimately show ?thesis using inv post by (simp add: wp_def change_pages_def shares_pages_def)
next
  case (Some a)
  have a: "a < length (page_arrays s)" using store_invD(4) [OF inv d] Some by (simp add: arrays_ok_def)
  obtain rs where rs: "mergeRange (array_at (page_arrays s) a) r = Inr rs" "wf_ranges rs"
    "page_at rs = write_pages r (page_at (array_at (page_arrays s) a))"
    using merge_range_spec [OF wf_array_at [OF store_invD(9) [OF inv]] r] by (auto simp: write_pages_def)
  let ?s = "s\<lparr>page_arrays := (page_arrays s)[a := rs]\<rparr>"
  have "store_inv D ?s"
    using inv rs store_invD(9) [OF inv]
    by (intro inv_page_arrays) (auto simp: list_all_iff dest!: set_update_subset_insert [THEN subsetD])
  moreover have "doc_pages ?s e = (if shares_pages d e then write_pages r (doc_pages s e) else doc_pages s e)" for e
    using a rs(3) Some by (auto simp: doc_pages_def shares_pages_def array_at_def split: option.split)
  ultimately show ?thesis using post [of ?s] Some rs by (simp add: wp_def change_pages_def)
qed

lemma doc_pages_core: "quiet D s s' \<Longrightarrow> core d' = core d \<Longrightarrow> doc_pages s' d' = doc_pages s d"
  using core_fields(6) [of d' d] by (simp add: doc_pages_def quiet_def split: option.split)

lemma wp_uploadPages:
  assumes inv: "store_inv D s" and r: "wf_range \<lparr>rstart = x, rend = y, persistency = ch\<rparr>"
    and post: "\<And>i d s' p. blob_at D s i = Some d \<Longrightarrow>
      blob_key (accountName v) (containerName v) (blob_name v) (blob_snapshot v) d \<Longrightarrow>
      (\<And>j e. blob_at D s j = Some e \<Longrightarrow> \<exists>e'. blob_at D s' j = Some e' \<and>
        doc_pages s' e' = (if shares_pages d e then write_pages \<lparr>rstart = x, rend = y, persistency = ch\<rparr> (doc_pages s e)
          else doc_pages s e)) \<Longrightarrow> Q p s'"
  shows "wp (uploadPages D (at_time t) f v x y ch lac mac smac) Q (\<lambda>_ _. True) s"
  unfolding uploadPages_def wp_bind [of "page_write_target _ _ _ _ _"]
proof (rule wp_page_write_target [OF inv], goal_cases)
  case (1 i d' s1)
  note fd = foundD [OF 1]
  let ?r = "\<lparr>rstart = x, rend = y, persistency = ch\<rparr>"
  from 1 obtain d where d: "blob_at D s i = Some d" "core d' = core d" by (auto simp: found_def)
  have key: "blob_key (accountName v) (containerName v) (blob_name v) (blob_snapshot v) d"
    using fd(5) core_key(1) [OF d(2)] by simp
  have fin: "Q p (s3\<lparr>blobs := set_doc (BLOBS_COLLECTION D) (blobs s3) i
        (touch (at_time t) f (BlobWriteLeaseSyncer_sync d' (doc_lease d')))\<rparr>)"
    if s1: "quiet D s1 s2" and s12: "blob_at D s2 = blob_at D s1" and s3: "blob_at D s3 = blob_at D s2"
      and pages: "\<And>e. doc_pages s3 e = (if shares_pages d' e then write_pages ?r (doc_pages s2 e) else doc_pages s2 e)"
    for s2 s3 p
  proof (rule post [OF d(1) key])
    fix j e assume e: "blob_at D s j = Some e"
    note s2 = quiet_trans [OF fd(2) s1] s12
    let ?d = "touch (at_time t) f (BlobWriteLeaseSyncer_sync d' (doc_lease d'))"
    let ?s = "s3\<lparr>blobs := set_doc (BLOBS_COLLECTION D) (blobs s3) i ?d\<rparr>"
    have at: "blob_at D ?s = (blob_at D s1)(i \<mapsto> ?d)" using blob_at_put fd(3) s2 s3 by simp
    obtain e2 where e2: "blob_at D s2 j = Some e2" "core e2 = core e" using quiet_blob_fwd [OF s2(1) e] by blast
    have sh: "shares_pages d' e2 = shares_pages d e" "doc_pages s2 e2 = doc_pages s e"
      using core_fields(6) [OF d(2)] core_fields(6) [OF e2(2)] doc_pages_core [OF s2(1) e2(2)]
      by (simp_all add: shares_pages_def)
    have same: "doc_pages ?s e' = doc_pages s3 e'" for e' by (simp add: doc_pages_def split: option.split)
    have "doc_pages s3 ?d = doc_pages s3 d'" by (simp add: doc_pages_def frame_simps)
    then show "\<exists>e'. blob_at D ?s j = Some e' \<and>
        doc_pages ?s e' = (if shares_pages d e then write_pages ?r (doc_pages s e) else doc_pages s e)"
      unfolding at same using e2(1) s2(2) fd(3) pages [of e2] sh by (cases "j = i") simp_all
  qed
  show ?case unfolding prod.case wp_if wp_bind
    using fd r
    by (auto simp: store_blob_def put_blob_def intro!: wp_check_write_lease wp_merge_pages [of _ i])
      (rule fin, assumption, simp_all)
qed simp

end


lemma page_blob_store_inv: "store_inv list_db page_blob_store"
proof -
  have "doc_wf (sample_value PageBlob (Some []) None)" "pages_ok (sample_value PageBlob (Some []) None)"
    by (simp_all add: sample_value_ok) (simp add: pages_ok_def sample_value_def)
  from list_db.createBlob_inv [OF one_container_inv this, of 1 None None]
  have "wp (createBlob list_db (at_time 1) (sample_value PageBlob (Some []) None) None None)
      (\<lambda>_. store_inv list_db) (\<lambda>_. store_inv list_db) one_container"
    by (rule wp_mono) (auto simp: unharmed_def)
  then show ?thesis by (simp add: wp_state page_blob_store_def)
qed


end
