(* ===== verification/Extent_Store.thy ===== *)
theory Extent_Store
  imports Loki_Collection Page_Ranges Tag_Query "HOL-Library.Word" "HOL-Library.AList"
begin

text \<open>
  Where the payload of blobs and messages lives: \<open>common/persistence/MemoryExtentStore.ts\<close> (the
  chunk store that all in-memory services share, and the extent store of one service) and
  \<open>common/persistence/LokiExtentMetadataStore.ts\<close>, which records the extents for the garbage
  collector. A stream is modelled by the list of the chunks it delivers.
\<close>

type_synonym bytes = "8 word list"

section \<open>The chunk store\<close>

text \<open>\<open>IMemoryExtentChunk\<close>, \<open>IExtentCategoryChunks\<close> and \<open>MemoryExtentChunkStore\<close>. A JavaScript
  \<open>Map\<close> is an association list in the order of insertion.\<close>

record memory_chunk = IExtentChunk +
  chunk_buffers :: "bytes list"

record chunk_category =
  category_chunks :: "(string \<times> memory_chunk) list"
  category_size :: int

record chunk_store =
  store_limit :: "int option"
  store_categories :: "(string \<times> chunk_category) list"
  store_size :: int

definition new_chunk_store :: "int option \<Rightarrow> chunk_store" where
  "new_chunk_store limit = \<lparr>store_limit = limit, store_categories = [], store_size = 0\<rparr>"

definition chunk_store_clear :: "string \<Rightarrow> chunk_store \<Rightarrow> chunk_store" where
  "chunk_store_clear categoryName s =
     (case map_of (store_categories s) categoryName of
        None \<Rightarrow> s
      | Some category \<Rightarrow>
          s\<lparr>store_size := store_size s - category_size category,
            store_categories := AList.delete categoryName (store_categories s)\<rparr>)"

definition trySet :: "string \<Rightarrow> memory_chunk \<Rightarrow> chunk_store \<Rightarrow> bool \<times> chunk_store" where
  "trySet categoryName chunk s =
     (let category = (case map_of (store_categories s) categoryName of
            None \<Rightarrow> \<lparr>category_chunks = [], category_size = 0\<rparr> | Some c \<Rightarrow> c);
          s1 = s\<lparr>store_categories := AList.update categoryName category (store_categories s)\<rparr>;
          delta = (case map_of (category_chunks category) (chunk_id chunk) of
            None \<Rightarrow> chunk_count chunk | Some old \<Rightarrow> chunk_count chunk - chunk_count old)
      in
      if store_limit s \<noteq> None \<and> store_size s + delta > the (store_limit s) then (False, s1)
      else (True, s1\<lparr>store_categories := AList.update categoryName
              (category\<lparr>category_chunks := AList.update (chunk_id chunk) chunk (category_chunks category),
                category_size := category_size category + delta\<rparr>) (store_categories s1),
             store_size := store_size s + delta\<rparr>))"

definition chunk_store_set :: "string \<Rightarrow> memory_chunk \<Rightarrow> chunk_store \<Rightarrow> unit result \<times> chunk_store" where
  "chunk_store_set categoryName chunk s =
     (case trySet categoryName chunk s of (ok, s') \<Rightarrow> (if ok then Inr () else Inl GenericError, s'))"

definition chunk_store_get :: "string \<Rightarrow> string \<Rightarrow> chunk_store \<Rightarrow> memory_chunk option" where
  "chunk_store_get categoryName i s =
     (case map_of (store_categories s) categoryName of
        None \<Rightarrow> None | Some category \<Rightarrow> map_of (category_chunks category) i)"

definition chunk_store_delete :: "string \<Rightarrow> string \<Rightarrow> chunk_store \<Rightarrow> bool \<times> chunk_store" where
  "chunk_store_delete categoryName i s =
     (case map_of (store_categories s) categoryName of
        None \<Rightarrow> (False, s)
      | Some category \<Rightarrow>
         (case map_of (category_chunks category) i of
            None \<Rightarrow> (False, s)
          | Some old \<Rightarrow>
              let chunks = AList.delete i (category_chunks category);
                  category' = category\<lparr>category_chunks := chunks,
                    category_size := category_size category - chunk_count old\<rparr>
              in (True, s\<lparr>store_size := store_size s - chunk_count old,
                    store_categories := (if chunks = [] then AList.delete categoryName (store_categories s)
                      else AList.update categoryName category' (store_categories s))\<rparr>)))"

text \<open>\<open>if (sizeLimit && sizeLimit < this._totalSize)\<close>: the number 0 is falsy.\<close>

definition setSizeLimit :: "int option \<Rightarrow> chunk_store \<Rightarrow> bool \<times> chunk_store" where
  "setSizeLimit limit s =
     (if limit \<noteq> None \<and> limit \<noteq> Some 0 \<and> the limit < store_size s then (False, s)
      else (True, s\<lparr>store_limit := limit\<rparr>))"

section \<open>Extent metadata\<close>

text \<open>The field \<open>lastModifiedInMS\<close> is the one of the interface \<open>IExtentModel\<close>;
  \<open>updateExtent\<close> and \<open>listExtents\<close> write and read a field of another name.\<close>

record IExtentModel =
  extent_id :: string
  locationId :: string
  extent_path :: string
  extent_size :: int
  lastModifiedInMS :: int

record extent_doc = IExtentModel +
  LastModifyInMS :: "int option"

definition updateExtent ::
  "('c, extent_doc) loki_collection \<Rightarrow> IExtentModel \<Rightarrow> 'c \<Rightarrow> 'c" where
  "updateExtent L extent c =
     (case findOne L c (\<lambda>d. extent_id d = extent_id extent) of
        None \<Rightarrow> insert_doc L c (IExtentModel.extend extent \<lparr>LastModifyInMS = None\<rparr>)
      | Some (i, d) \<Rightarrow> set_doc L c i (d\<lparr>extent_size := extent_size extent,
          LastModifyInMS := Some (lastModifiedInMS extent)\<rparr>))"

text \<open>
  The query of \<open>listExtents\<close>. What \<open>$lt\<close> yields on a document that lacks the field is decided by
  LokiJS: the argument \<open>absent_lt\<close>. The number \<open>$loki\<close> of the document at position \<open>i\<close> is \<open>i + 1\<close>;
  a marker that is not given leaves the condition on \<open>$loki\<close> without effect.
\<close>

definition listExtents_query :: "bool \<Rightarrow> string option \<Rightarrow> int option \<Rightarrow> int option \<Rightarrow> extent_doc \<Rightarrow> bool" where
  "listExtents_query absent_lt i queryTime protectTimeInMs d \<longleftrightarrow>
     (case i of None \<Rightarrow> True | Some x \<Rightarrow> extent_id d = x) \<and>
     (case queryTime of
        None \<Rightarrow> True
      | Some t \<Rightarrow> (case LastModifyInMS d of
          None \<Rightarrow> absent_lt
        | Some m \<Rightarrow> m < t - (case protectTimeInMs of None \<Rightarrow> 0 | Some p \<Rightarrow> p)))"

definition listExtents ::
  "('c, extent_doc) loki_collection \<Rightarrow> bool \<Rightarrow> string option \<Rightarrow> nat option \<Rightarrow> nat option \<Rightarrow>
   int option \<Rightarrow> int option \<Rightarrow> 'c \<Rightarrow> (extent_doc list \<times> nat option) result" where
  "listExtents L absent_lt i maxResults marker queryTime protectTimeInMs c =
     (let m = (case maxResults of None \<Rightarrow> 5000 | Some n \<Rightarrow> n);
          docs = take m (filter (\<lambda>(k, d). case marker of None \<Rightarrow> True | Some n \<Rightarrow> n < Suc k)
            (find_simplesort L c (listExtents_query absent_lt i queryTime protectTimeInMs)))
      in if length docs < m then Inr (map snd docs, None)
         else if docs = [] then Inl TypeError
         else Inr (map snd docs, Some (Suc (fst (last docs)))))"

definition deleteExtent :: "('c, extent_doc) loki_collection \<Rightarrow> string \<Rightarrow> 'c \<Rightarrow> 'c" where
  "deleteExtent L i c = findAndRemove L c (\<lambda>d. extent_id d = i)"

definition getExtentLocationId :: "('c, extent_doc) loki_collection \<Rightarrow> string \<Rightarrow> 'c \<Rightarrow> string result" where
  "getExtentLocationId L i c =
     (case findOne L c (\<lambda>d. extent_id d = i) of None \<Rightarrow> Inl TypeError | Some (_, d) \<Rightarrow> Inr (locationId d))"

section \<open>The extent store\<close>

text \<open>The state of a \<open>MemoryExtentStore\<close>: the shared chunk store and its extent metadata.\<close>

record 'c memory_store =
  ms_chunks :: chunk_store
  ms_extents :: 'c

datatype extent_data = Buffer bytes | ReadableStream "bytes list"

fun data_chunks :: "extent_data \<Rightarrow> bytes list" where
  "data_chunks (Buffer b) = (if length b > 0 then [b] else [])"
| "data_chunks (ReadableStream cs) = filter (\<lambda>c. length c > 0) cs"

definition buffers_length :: "bytes list \<Rightarrow> int" where
  "buffers_length cs = foldl (\<lambda>count chunk. count + int (length chunk)) 0 cs"

definition size_limit_error :: "int option \<Rightarrow> js_error" where
  "size_limit_error limit = StorageError 409 ''MemoryExtentStoreAtSizeLimit''
     (''Cannot add an extent chunk to the in-memory store. Size limit of '' @
      (case limit of None \<Rightarrow> ''undefined'' | Some n \<Rightarrow> show_nat (nat n)) @ '' bytes will be exceeded'')"

text \<open>The identifier that \<open>uuid()\<close> and the time that \<open>Date.now()\<close> return are arguments.\<close>

definition appendExtent ::
  "('c, extent_doc) loki_collection \<Rightarrow> string \<Rightarrow> string \<Rightarrow> int \<Rightarrow> extent_data \<Rightarrow>
   ('c memory_store, IExtentChunk) store_op" where
  "appendExtent L categoryName uuid' now data s =
     (let chunks = data_chunks data;
          count = buffers_length chunks;
          extentChunk = \<lparr>chunk_id = uuid', chunk_offset = 0, chunk_count = count, chunk_buffers = chunks\<rparr>;
          (ok, store) = trySet categoryName extentChunk (ms_chunks s);
          s1 = s\<lparr>ms_chunks := store\<rparr>
      in
      if \<not> ok then (Inl (size_limit_error (store_limit store)), s1)
      else (Inr (IExtentChunk.truncate extentChunk),
        s1\<lparr>ms_extents := updateExtent L
          \<lparr>extent_id = uuid', locationId = uuid', extent_path = uuid', extent_size = count,
            lastModifiedInMS = now\<rparr> (ms_extents s1)\<rparr>))"

text \<open>\<open>ZeroBytesStream\<close>: units of 512 bytes, then the rest.\<close>

function zero_stream :: "nat \<Rightarrow> bytes" where
  "zero_stream leftBytes =
     (if leftBytes = 0 then []
      else if leftBytes \<ge> 512 then replicate 512 0 @ zero_stream (leftBytes - 512)
      else replicate leftBytes 0)"
  by pat_completeness auto
termination
  by (relation "measure id") auto

text \<open>\<open>slice\<close>: negative positions count from the end.\<close>

definition js_slice :: "int \<Rightarrow> int \<Rightarrow> 'a list \<Rightarrow> 'a list" where
  "js_slice a b xs =
     (let n = int (length xs);
          pos = (\<lambda>i. nat (if i < 0 then max (n + i) 0 else min i n))
      in drop (pos a) (take (pos b) xs))"

fun read_loop :: "int \<Rightarrow> int \<Rightarrow> bytes list \<Rightarrow> bytes" where
  "read_loop skip count [] = []"
| "read_loop skip count (chunk # chunks) =
     (if count = 0 then []
      else if skip > 0
      then (if int (length chunk) \<le> skip then read_loop (skip - int (length chunk)) count chunks
            else let slice = js_slice skip (skip + min count (int (length chunk) - skip)) chunk
                 in slice @ read_loop 0 (count - int (length slice)) chunks)
      else if int (length chunk) > count
      then let slice = js_slice 0 count chunk in slice @ read_loop skip (count - int (length slice)) chunks
      else chunk @ read_loop skip (count - int (length chunk)) chunks)"

definition readExtent :: "string \<Rightarrow> IExtentChunk option \<Rightarrow> chunk_store \<Rightarrow> bytes result" where
  "readExtent categoryName extentChunk s =
     (case extentChunk of
        None \<Rightarrow> Inr (zero_stream 0)
      | Some c \<Rightarrow>
          if chunk_count c = 0 then Inr (zero_stream 0)
          else if chunk_id c = ZERO_EXTENT_ID then Inr (zero_stream (nat (chunk_count c)))
          else (case chunk_store_get categoryName (chunk_id c) s of
                  None \<Rightarrow> Inl GenericError
                | Some m \<Rightarrow> Inr (read_loop (chunk_offset c) (chunk_count c) (chunk_buffers m))))"

text \<open>The loop of \<open>readExtents\<close>; \<open>limit\<close> is the exclusive end position, \<open>None\<close> for \<open>Infinity\<close>. It
  returns the streams and the accumulated offset.\<close>

definition below_end :: "int option \<Rightarrow> int \<Rightarrow> bool" where
  "below_end limit x = (case limit of None \<Rightarrow> True | Some e \<Rightarrow> x < e)"

fun readExtents_loop ::
  "string \<Rightarrow> chunk_store \<Rightarrow> int \<Rightarrow> int option \<Rightarrow> int \<Rightarrow> IExtentChunk list \<Rightarrow> (bytes list \<times> int) result" where
  "readExtents_loop categoryName s start limit accumulatedOffset [] = Inr ([], accumulatedOffset)"
| "readExtents_loop categoryName s start limit accumulatedOffset (chunk # chunks) =
     (let nextOffset = accumulatedOffset + chunk_count chunk in
      if nextOffset \<le> start then readExtents_loop categoryName s start limit nextOffset chunks
      else if \<not> below_end limit accumulatedOffset then Inr ([], accumulatedOffset)
      else
       let chunkStart = (if start > accumulatedOffset
             then chunk_offset chunk + start - accumulatedOffset else chunk_offset chunk);
           chunkEnd = (case limit of
               None \<Rightarrow> chunk_offset chunk + chunk_count chunk
             | Some e \<Rightarrow> if e \<le> nextOffset
                 then chunk_offset chunk + chunk_count chunk - (nextOffset - e)
                 else chunk_offset chunk + chunk_count chunk)
       in bind_result (readExtent categoryName (Some (chunk\<lparr>chunk_offset := chunkStart,
             chunk_count := chunkEnd - chunkStart\<rparr>)) s) (\<lambda>stream.
          bind_result (readExtents_loop categoryName s start limit nextOffset chunks) (\<lambda>(streams, acc).
          Inr (stream # streams, acc))))"

definition readExtents ::
  "string \<Rightarrow> IExtentChunk list \<Rightarrow> int \<Rightarrow> int option \<Rightarrow> chunk_store \<Rightarrow> bytes result" where
  "readExtents categoryName extentChunkArray offset count s =
     (if count = Some 0 then Inr (zero_stream 0)
      else
       let limit = map_option (\<lambda>n. offset + n) count in
       bind_result (readExtents_loop categoryName s offset limit 0 extentChunkArray) (\<lambda>(streams, acc).
       if limit \<noteq> None \<and> below_end limit acc then Inl RangeError
       else Inr (concat streams)))"

fun deleteExtents ::
  "('c, extent_doc) loki_collection \<Rightarrow> string \<Rightarrow> string list \<Rightarrow> 'c memory_store \<Rightarrow> nat \<times> 'c memory_store" where
  "deleteExtents L categoryName [] s = (0, s)"
| "deleteExtents L categoryName (i # is) s =
     (let s1 = (case chunk_store_get categoryName i (ms_chunks s) of
            None \<Rightarrow> s
          | Some _ \<Rightarrow> s\<lparr>ms_chunks := snd (chunk_store_delete categoryName i (ms_chunks s))\<rparr>);
          s2 = s1\<lparr>ms_extents := deleteExtent L i (ms_extents s1)\<rparr>;
          (n, s3) = deleteExtents L categoryName is s2
      in (Suc n, s3))"

section \<open>The accounting of the chunk store\<close>

definition chunk_sizes :: "('k \<times> memory_chunk) list \<Rightarrow> int" where
  "chunk_sizes cs = sum_list (map (chunk_count \<circ> snd) cs)"

definition category_ok :: "chunk_category \<Rightarrow> bool" where
  "category_ok c \<longleftrightarrow> distinct (map fst (category_chunks c)) \<and> category_size c = chunk_sizes (category_chunks c) \<and>
     (\<forall>(i, m) \<in> set (category_chunks c). 0 \<le> chunk_count m)"

definition chunk_store_ok :: "chunk_store \<Rightarrow> bool" where
  "chunk_store_ok s \<longleftrightarrow> distinct (map fst (store_categories s)) \<and>
     (\<forall>(n, c) \<in> set (store_categories s). category_ok c) \<and>
     store_size s = sum_list (map (category_size \<circ> snd) (store_categories s)) \<and>
     (case store_limit s of None \<Rightarrow> True | Some l \<Rightarrow> store_size s \<le> l)"

datatype chunk_op =
    OpTrySet string memory_chunk | OpDelete string string | OpClear string | OpSetSizeLimit "int option"

fun chunk_exec :: "chunk_op \<Rightarrow> chunk_store \<Rightarrow> chunk_store" where
  "chunk_exec (OpTrySet n c) s = snd (trySet n c s)"
| "chunk_exec (OpDelete n i) s = snd (chunk_store_delete n i s)"
| "chunk_exec (OpClear n) s = chunk_store_clear n s"
| "chunk_exec (OpSetSizeLimit l) s = snd (setSizeLimit l s)"

fun sensible_op :: "chunk_op \<Rightarrow> bool" where
  "sensible_op (OpTrySet n c) = (0 \<le> chunk_count c)"
| "sensible_op (OpSetSizeLimit l) = (l \<noteq> Some 0)"
| "sensible_op _ = True"

definition chunk_run :: "int option \<Rightarrow> chunk_op list \<Rightarrow> chunk_store" where
  "chunk_run limit ops = fold chunk_exec ops (new_chunk_store limit)"

lemma alist_sum_update:
  fixes f :: "'v \<Rightarrow> int"
  assumes "distinct (map fst xs)"
  shows "sum_list (map (f \<circ> snd) (AList.update k v xs)) =
    sum_list (map (f \<circ> snd) xs) + f v - (case map_of xs k of None \<Rightarrow> 0 | Some w \<Rightarrow> f w)"
  using assms by (induction xs) (auto simp: map_of_eq_None_iff image_iff split: option.splits)

lemma alist_sum_delete:
  fixes f :: "'v \<Rightarrow> int"
  assumes "distinct (map fst xs)"
  shows "sum_list (map (f \<circ> snd) (AList.delete k xs)) =
    sum_list (map (f \<circ> snd) xs) - (case map_of xs k of None \<Rightarrow> 0 | Some w \<Rightarrow> f w)"
  using assms
proof (induction xs)
  case (Cons x xs)
  show ?case
  proof (cases "fst x = k")
    case True
    then have "k \<notin> fst ` set xs" using Cons.prems by auto
    then have "AList.delete k xs = xs" by (simp add: delete_id)
    with True show ?thesis by (cases x) simp
  next
    case False
    with Cons show ?thesis by (cases x) auto
  qed
qed simp

lemma alist_update_set: "x \<in> set (AList.update k v xs) \<Longrightarrow> x = (k, v) \<or> x \<in> set xs"
  by (induction xs) (auto split: if_splits)

lemma category_ok_lookup:
  assumes "chunk_store_ok s" "map_of (store_categories s) n = Some c"
  shows "category_ok c"
  using assms map_of_SomeD by (fastforce simp: chunk_store_ok_def)

lemma alist_delete_set: "x \<in> set (AList.delete k xs) \<Longrightarrow> x \<in> set xs"
  by (induction xs) (auto split: if_splits)

lemma category_size_nonneg: "category_ok c \<Longrightarrow> 0 \<le> category_size c"
  by (fastforce simp: category_ok_def chunk_sizes_def intro!: sum_list_nonneg)

lemma trySet_category_ok:
  assumes "category_ok c" "0 \<le> chunk_count m"
  shows "category_ok (c\<lparr>category_chunks := AList.update (chunk_id m) m (category_chunks c),
    category_size := category_size c + (case map_of (category_chunks c) (chunk_id m) of
      None \<Rightarrow> chunk_count m | Some old \<Rightarrow> chunk_count m - chunk_count old)\<rparr>)"
  using assms
  by (auto simp: category_ok_def chunk_sizes_def distinct_update alist_sum_update
      dest!: alist_update_set split: option.splits)

lemma trySet_ok:
  assumes ok: "chunk_store_ok s" and pos: "0 \<le> chunk_count c"
  shows "chunk_store_ok (snd (trySet n c s))"
proof -
  let ?e = "\<lparr>category_chunks = [], category_size = 0\<rparr>"
  let ?c = "case map_of (store_categories s) n of None \<Rightarrow> ?e | Some c \<Rightarrow> c"
  let ?cs = "AList.update n ?c (store_categories s)"
  let ?d = "case map_of (category_chunks ?c) (chunk_id c) of None \<Rightarrow> chunk_count c | Some old \<Rightarrow> chunk_count c - chunk_count old"
  let ?c' = "?c\<lparr>category_chunks := AList.update (chunk_id c) c (category_chunks ?c), category_size := category_size ?c + ?d\<rparr>"
  have c: "category_ok ?c"
    using category_ok_lookup [OF ok] by (auto simp: category_ok_def chunk_sizes_def split: option.splits)
  then have c': "category_ok ?c'" using pos by (rule trySet_category_ok)
  have dist: "distinct (map fst ?cs)" using ok by (simp add: chunk_store_ok_def distinct_update)
  have sum: "sum_list (map (category_size \<circ> snd) ?cs) = store_size s"
    using ok by (auto simp: chunk_store_ok_def alist_sum_update split: option.splits)
  have lk: "map_of ?cs n = Some ?c" by (simp add: update_conv')
  have sum': "sum_list (map (category_size \<circ> snd) (AList.update n ?c' ?cs)) = store_size s + ?d"
    using alist_sum_update [OF dist, of category_size n ?c'] sum lk by simp
  have all: "\<forall>(m, d) \<in> set ?cs. category_ok d"
    using ok c by (auto simp: chunk_store_ok_def dest!: alist_update_set)
  have all': "\<forall>(m, d) \<in> set (AList.update n ?c' ?cs). category_ok d"
  proof (clarify)
    fix m d assume "(m, d) \<in> set (AList.update n ?c' ?cs)"
    then show "category_ok d" using alist_update_set [of "(m, d)" n ?c' ?cs] all c' by auto
  qed
  show ?thesis
    using ok dist all all' sum sum' distinct_update [OF dist, of n ?c']
    unfolding trySet_def Let_def chunk_store_ok_def
    by (simp split: option.splits if_splits)
qed


lemma delete_category_ok:
  assumes "category_ok c" "map_of (category_chunks c) i = Some m"
  shows "category_ok (c\<lparr>category_chunks := AList.delete i (category_chunks c),
    category_size := category_size c - chunk_count m\<rparr>)"
  using assms
  by (auto simp: category_ok_def chunk_sizes_def alist_sum_delete distinct_delete dest!: alist_delete_set)

lemma delete_ok:
  assumes ok: "chunk_store_ok s"
  shows "chunk_store_ok (snd (chunk_store_delete n i s))"
proof (cases "map_of (store_categories s) n")
  case None
  then show ?thesis using ok by (simp add: chunk_store_delete_def)
next
  case cat: (Some c)
  note c = category_ok_lookup [OF ok cat]
  have dist: "distinct (map fst (store_categories s))" using ok by (simp add: chunk_store_ok_def)
  show ?thesis
  proof (cases "map_of (category_chunks c) i")
    case None
    with cat ok show ?thesis by (simp add: chunk_store_delete_def)
  next
    case m: (Some m)
    let ?ch = "AList.delete i (category_chunks c)"
    let ?c' = "c\<lparr>category_chunks := ?ch, category_size := category_size c - chunk_count m\<rparr>"
    note c' = delete_category_ok [OF c m]
    have pos: "0 \<le> chunk_count m" using c map_of_SomeD [OF m] by (auto simp: category_ok_def)
    have empty: "category_size c = chunk_count m" if "?ch = []"
      using c' that by (simp add: category_ok_def chunk_sizes_def)
    have s': "snd (chunk_store_delete n i s) = s\<lparr>store_size := store_size s - chunk_count m, store_categories :=
        (if ?ch = [] then AList.delete n (store_categories s) else AList.update n ?c' (store_categories s))\<rparr>"
      using m cat by (simp add: chunk_store_delete_def Let_def)
    have d: "\<forall>(k, d) \<in> set (AList.delete n (store_categories s)). category_ok d"
      using ok by (auto simp: chunk_store_ok_def dest!: alist_delete_set)
    have u: "\<forall>(k, d) \<in> set (AList.update n ?c' (store_categories s)). category_ok d"
    proof clarify
      fix k d assume "(k, d) \<in> set (AList.update n ?c' (store_categories s))"
      from alist_update_set [OF this] show "category_ok d" using ok c' by (auto simp: chunk_store_ok_def)
    qed
    show ?thesis
      unfolding s' using ok pos d u cat empty
      by (auto simp: chunk_store_ok_def distinct_update distinct_delete alist_sum_update alist_sum_delete
        split: option.splits)
  qed
qed

lemma clear_ok:
  assumes ok: "chunk_store_ok s"
  shows "chunk_store_ok (chunk_store_clear n s)"
proof (cases "map_of (store_categories s) n")
  case (Some c)
  have "0 \<le> category_size c" by (rule category_size_nonneg [OF category_ok_lookup [OF ok Some]])
  moreover have "\<forall>(k, d) \<in> set (AList.delete n (store_categories s)). category_ok d"
    using ok by (auto simp: chunk_store_ok_def dest!: alist_delete_set)
  ultimately show ?thesis
    using ok Some by (auto simp: chunk_store_clear_def chunk_store_ok_def distinct_delete alist_sum_delete
        split: option.splits)
qed (use ok in \<open>simp add: chunk_store_clear_def\<close>)

lemma setSizeLimit_ok: "chunk_store_ok s \<Longrightarrow> l \<noteq> Some 0 \<Longrightarrow> chunk_store_ok (snd (setSizeLimit l s))"
  by (auto simp: setSizeLimit_def chunk_store_ok_def split: option.splits)

lemma exec_ok: "chunk_store_ok s \<Longrightarrow> sensible_op x \<Longrightarrow> chunk_store_ok (chunk_exec x s)"
  by (cases x) (simp_all add: trySet_ok delete_ok clear_ok setSizeLimit_ok)

lemma new_chunk_store_ok: "(\<forall>l. limit = Some l \<longrightarrow> 0 \<le> l) \<Longrightarrow> chunk_store_ok (new_chunk_store limit)"
  by (simp add: chunk_store_ok_def new_chunk_store_def split: option.splits)


section \<open>Reading\<close>

lemma js_slice_nonneg:
  "0 \<le> a \<Longrightarrow> 0 \<le> b \<Longrightarrow> js_slice a b xs = drop (nat a) (take (nat b) xs)"
  by (auto simp: js_slice_def Let_def min_def)

lemma read_loop_concat:
  "0 \<le> skip \<Longrightarrow> 0 \<le> count \<Longrightarrow>
     read_loop skip count chunks = take (nat count) (drop (nat skip) (concat chunks))"
proof (induction skip count chunks rule: read_loop.induct)
  case IH: (2 skip count chunk chunks)
  consider "count = 0" | "0 < count" "0 < skip" "int (length chunk) \<le> skip"
    | "0 < count" "0 < skip" "skip < int (length chunk)"
    | "0 < count" "skip = 0" "int (length chunk) > count" | "0 < count" "skip = 0" "int (length chunk) \<le> count"
    using IH.prems by linarith
  then show ?case
  proof cases
    case 3
    have pos: "0 \<le> skip + min count (int (length chunk) - skip)" using 3 by linarith
    let ?sl = "js_slice skip (skip + min count (int (length chunk) - skip)) chunk"
    have sl: "?sl = take (nat count) (drop (nat skip) chunk)"
      using 3 js_slice_nonneg [OF _ pos, of skip chunk]
      by (auto simp: drop_take min_def nat_diff_distrib nat_add_distrib)
    have len: "length ?sl = min (nat count) (length chunk - nat skip)" by (simp add: sl)
    have "0 \<le> count - int (length ?sl)" using 3 len by linarith
    then have "read_loop 0 (count - int (length ?sl)) chunks = take (nat (count - int (length ?sl))) (concat chunks)"
      using IH(2) 3 by (simp add: Let_def)
    moreover have "nat (count - int (length ?sl)) = nat count - (length chunk - nat skip)" using 3 len by linarith
    moreover have "nat skip - length chunk = 0" using 3 by simp
    ultimately show ?thesis using 3 sl by (simp add: Let_def)
  next
    case 4
    have sl: "js_slice 0 count chunk = take (nat count) chunk" using 4 by (simp add: js_slice_nonneg)
    have "count - int (length (take (nat count) chunk)) = 0" using 4 by simp
    moreover have "read_loop 0 0 chunks = []" by (cases chunks) simp_all
    moreover have "nat count - length chunk = 0" using 4 by simp
    ultimately show ?thesis using 4 sl by (simp add: Let_def)
  next
    case 5
    then have "read_loop 0 (count - int (length chunk)) chunks = take (nat (count - int (length chunk))) (concat chunks)"
      using IH(4) by simp
    then show ?thesis using 5 by (simp add: nat_diff_distrib)
  next
    case 2
    then have "read_loop (skip - int (length chunk)) count chunks =
        take (nat count) (drop (nat (skip - int (length chunk))) (concat chunks))"
      using IH by simp
    then show ?thesis using 2 by (simp add: nat_diff_distrib)
  qed simp
qed simp

declare zero_stream.simps [simp del]

lemma zero_stream_eq: "zero_stream n = replicate n 0"
proof (induction n rule: zero_stream.induct)
  case (1 n)
  then show ?case
    by (subst zero_stream.simps) (auto simp flip: replicate_add)
qed

text \<open>The bytes that a chunk denotes, and the chunks that the store holds in full.\<close>

definition chunk_bytes :: "string \<Rightarrow> chunk_store \<Rightarrow> IExtentChunk \<Rightarrow> bytes" where
  "chunk_bytes n s c =
     (if chunk_id c = ZERO_EXTENT_ID then replicate (nat (chunk_count c)) 0
      else case chunk_store_get n (chunk_id c) s of
        None \<Rightarrow> [] | Some m \<Rightarrow> take (nat (chunk_count c)) (drop (nat (chunk_offset c)) (concat (chunk_buffers m))))"

definition chunk_stored :: "string \<Rightarrow> chunk_store \<Rightarrow> IExtentChunk \<Rightarrow> bool" where
  "chunk_stored n s c \<longleftrightarrow> 0 \<le> chunk_count c \<and> 0 \<le> chunk_offset c \<and>
     (chunk_id c = ZERO_EXTENT_ID \<or>
      (case chunk_store_get n (chunk_id c) s of
         None \<Rightarrow> False
       | Some m \<Rightarrow> nat (chunk_offset c) + nat (chunk_count c) \<le> length (concat (chunk_buffers m))))"

lemma chunk_bytes_length: "chunk_stored n s c \<Longrightarrow> length (chunk_bytes n s c) = nat (chunk_count c)"
  by (auto simp: chunk_bytes_def chunk_stored_def split: option.splits)

lemma readExtent_bytes:
  "chunk_stored n s c \<Longrightarrow> readExtent n (Some c) s = Inr (chunk_bytes n s c)"
  by (auto simp: readExtent_def chunk_bytes_def chunk_stored_def zero_stream_eq read_loop_concat split: option.splits)

lemma readExtent_part:
  assumes c: "chunk_stored n s c" and "0 \<le> a" "a \<le> b" "b \<le> chunk_count c"
  shows "readExtent n (Some (c\<lparr>chunk_offset := chunk_offset c + a, chunk_count := b - a\<rparr>)) s =
    Inr (drop (nat a) (take (nat b) (chunk_bytes n s c)))"
proof -
  let ?c = "c\<lparr>chunk_offset := chunk_offset c + a, chunk_count := b - a\<rparr>"
  have st: "chunk_stored n s ?c" using assms by (auto simp: chunk_stored_def split: option.splits)
  have o: "0 \<le> chunk_offset c" using c by (simp add: chunk_stored_def)
  have "chunk_bytes n s ?c = drop (nat a) (take (nat b) (chunk_bytes n s c))"
    using assms o
    by (auto simp: chunk_bytes_def min_def nat_diff_distrib nat_add_distrib drop_take add.commute split: option.splits)
  then show ?thesis using readExtent_bytes [OF st] by simp
qed

text \<open>What the loop delivers: the part of the payloads between \<open>start\<close> and the end position.\<close>

definition upto_end :: "int option \<Rightarrow> int \<Rightarrow> 'a list \<Rightarrow> 'a list" where
  "upto_end limit acc xs = (case limit of None \<Rightarrow> xs | Some e \<Rightarrow> take (nat (e - acc)) xs)"

lemma upto_end_append:
  "int (length xs) = k \<Longrightarrow> upto_end limit acc (xs @ ys) = upto_end limit acc xs @ upto_end limit (acc + k) ys"
  by (auto simp: upto_end_def intro!: arg_cong2 [where f = take] split: option.splits)

lemma readExtents_loop_bytes:
  assumes "\<forall>c \<in> set chunks. chunk_stored n s c" and "\<forall>e. limit = Some e \<longrightarrow> start < e"
  shows "\<exists>streams acc'. readExtents_loop n s start limit acc chunks = Inr (streams, acc') \<and>
    concat streams = drop (nat (start - acc)) (upto_end limit acc (concat (map (chunk_bytes n s) chunks))) \<and>
    (below_end limit acc' \<longleftrightarrow> below_end limit (acc + sum_list (map chunk_count chunks)))"
  using assms
proof (induction chunks arbitrary: acc)
  case (Cons c chunks)
  let ?next = "acc + chunk_count c"
  let ?B = "chunk_bytes n s c" and ?X = "concat (map (chunk_bytes n s) chunks)"
  have st: "chunk_stored n s c" and pos: "0 \<le> chunk_count c"
    and rest: "0 \<le> sum_list (map chunk_count chunks)"
    using Cons.prems by (auto simp: chunk_stored_def intro!: sum_list_nonneg)
  have len: "int (length ?B) = chunk_count c" using st pos by (simp add: chunk_bytes_length)
  note app = upto_end_append [OF len, of limit acc ?X]
  obtain streams acc' where
    loop: "readExtents_loop n s start limit ?next chunks = Inr (streams, acc')"
    and streams: "concat streams = drop (nat (start - ?next)) (upto_end limit ?next ?X)"
    and acc': "below_end limit acc' \<longleftrightarrow> below_end limit (?next + sum_list (map chunk_count chunks))"
    using Cons.IH [of ?next] Cons.prems by auto
  consider "?next \<le> start" | "?next > start" "\<not> below_end limit acc" | "?next > start" "below_end limit acc"
    by linarith
  then show ?case
  proof cases
    case 1
    then have "drop (nat (start - acc)) (upto_end limit acc ?B) = []"
      using len by (auto simp: upto_end_def split: option.splits)
    moreover have "upto_end limit acc ?B = ?B"
      using 1 len Cons.prems(2) by (auto simp: upto_end_def split: option.splits)
    moreover have "nat (start - acc) - length ?B = nat (start - ?next)" using 1 len by linarith
    ultimately show ?thesis using 1 loop streams acc' app by (simp add: Let_def add.assoc)
  next
    case 2
    then have "upto_end limit acc (?B @ ?X) = []" by (auto simp: upto_end_def below_end_def split: option.splits)
    moreover have "\<not> below_end limit (acc + (chunk_count c + sum_list (map chunk_count chunks)))"
      using 2 pos rest by (auto simp: below_end_def split: option.splits)
    ultimately show ?thesis using 2 by (simp add: Let_def)
  next
    case 3
    let ?a = "max 0 (start - acc)"
    let ?b = "case limit of None \<Rightarrow> chunk_count c | Some e \<Rightarrow> min (chunk_count c) (e - acc)"
    have ab: "0 \<le> ?a" "?a \<le> ?b" "?b \<le> chunk_count c"
      using 3 pos Cons.prems(2) by (auto simp: below_end_def split: option.splits)
    have part: "readExtent n (Some (c\<lparr>chunk_offset := chunk_offset c + ?a, chunk_count := ?b - ?a\<rparr>)) s =
        Inr (drop (nat (start - acc)) (upto_end limit acc ?B))"
      using readExtent_part [OF st ab] len by (auto simp: upto_end_def min_def max_def split: option.splits)
    have step: "readExtents_loop n s start limit acc (c # chunks) =
        Inr (drop (nat (start - acc)) (upto_end limit acc ?B) # streams, acc')"
      using 3 loop part
      by (auto simp: Let_def bind_result_def min_def max_def algebra_simps split: option.splits if_splits)
    have "nat (start - acc) - length (upto_end limit acc ?B) = nat (start - ?next) \<or> upto_end limit ?next ?X = []"
      using 3 len Cons.prems(2) by (auto simp: upto_end_def split: option.splits)
    then have "drop (nat (start - acc) - length (upto_end limit acc ?B)) (upto_end limit ?next ?X) =
        drop (nat (start - ?next)) (upto_end limit ?next ?X)" by auto
    then show ?thesis using step streams acc' app by (simp add: add.assoc)
  qed
qed (auto simp: upto_end_def below_end_def split: option.splits)

text \<open>
  C30: \<open>readExtents\<close> on chunks that the store holds in full returns exactly the \<open>count\<close> bytes at
  \<open>offset\<close> of the concatenated payloads, wherever chunk boundaries fall, and throws the
  \<open>RangeError\<close> if and only if the payloads end before \<open>offset + count\<close>; without a count it returns
  everything from \<open>offset\<close> on.
\<close>

theorem readExtents_spec:
  assumes "\<forall>c \<in> set chunks. chunk_stored n s c" and "0 \<le> offset" and "\<forall>k. count = Some k \<longrightarrow> 0 \<le> k"
  shows "readExtents n chunks offset count s =
    (let payload = concat (map (chunk_bytes n s) chunks) in
     case count of
       None \<Rightarrow> Inr (drop (nat offset) payload)
     | Some k \<Rightarrow> if k = 0 then Inr []
         else if offset + k \<le> int (length payload) then Inr (take (nat k) (drop (nat offset) payload))
         else Inl RangeError)"
proof (cases "count = Some 0")
  case False
  let ?limit = "map_option (\<lambda>k. offset + k) count"
  have lim: "\<forall>e. ?limit = Some e \<longrightarrow> offset < e" using assms(3) False by force
  obtain streams acc where loop: "readExtents_loop n s offset ?limit 0 chunks = Inr (streams, acc)"
    and streams: "concat streams = drop (nat offset) (upto_end ?limit 0 (concat (map (chunk_bytes n s) chunks)))"
    and acc: "below_end ?limit acc \<longleftrightarrow> below_end ?limit (sum_list (map chunk_count chunks))"
    using readExtents_loop_bytes [OF assms(1) lim, of 0] by auto
  have "sum_list (map chunk_count chunks) = int (length (concat (map (chunk_bytes n s) chunks)))"
    using assms(1)
  proof (induction chunks)
    case (Cons c cs)
    then have "chunk_count c = int (length (chunk_bytes n s c))"
      by (simp add: chunk_bytes_length) (simp add: chunk_stored_def)
    with Cons show ?case by simp
  qed simp
  then show ?thesis using loop streams acc False assms(2,3)
    by (auto simp: readExtents_def upto_end_def below_end_def Let_def drop_take nat_add_distrib
        simp del: length_concat split: option.splits)
qed (simp add: readExtents_def zero_stream_eq)

section \<open>Writing and reading back\<close>

lemma trySet_get:
  "fst (trySet n c s) \<Longrightarrow> chunk_store_get m i (snd (trySet n c s)) =
     (if m = n \<and> i = chunk_id c then Some c else chunk_store_get m i s)"
  by (auto simp: trySet_def chunk_store_get_def Let_def update_conv' split: option.splits if_splits)

lemma buffers_length_eq: "buffers_length cs = int (length (concat cs))"
proof -
  have "foldl (\<lambda>count chunk. count + int (length chunk)) a cs = a + int (length (concat cs))" for a
    by (induction cs arbitrary: a) simp_all
  then show ?thesis by (simp add: buffers_length_def)
qed

lemma appendExtent_ok:
  assumes "appendExtent L n i now data s = (Inr c, s')"
  shows "c = \<lparr>chunk_id = i, chunk_offset = 0, chunk_count = int (length (concat (data_chunks data)))\<rparr>"
    and "chunk_store_get m j (ms_chunks s') =
      (if m = n \<and> j = i then Some \<lparr>chunk_id = i, chunk_offset = 0,
         chunk_count = int (length (concat (data_chunks data))), chunk_buffers = data_chunks data\<rparr>
       else chunk_store_get m j (ms_chunks s))"
proof -
  let ?x = "\<lparr>chunk_id = i, chunk_offset = 0, chunk_count = buffers_length (data_chunks data),
    chunk_buffers = data_chunks data\<rparr>"
  have set: "fst (trySet n ?x (ms_chunks s))" "ms_chunks s' = snd (trySet n ?x (ms_chunks s))"
    and c: "c = IExtentChunk.truncate ?x"
    using assms by (auto simp: appendExtent_def Let_def split: prod.splits if_splits)
  from c show "c = \<lparr>chunk_id = i, chunk_offset = 0, chunk_count = int (length (concat (data_chunks data)))\<rparr>"
    by (simp add: IExtentChunk.truncate_def buffers_length_eq)
  show "chunk_store_get m j (ms_chunks s') =
      (if m = n \<and> j = i then Some \<lparr>chunk_id = i, chunk_offset = 0,
         chunk_count = int (length (concat (data_chunks data))), chunk_buffers = data_chunks data\<rparr>
       else chunk_store_get m j (ms_chunks s))"
    unfolding set(2) trySet_get [OF set(1)] by (simp add: buffers_length_eq)
qed

lemma appendExtent_error:
  assumes "appendExtent L n i now data s = (Inl e, s')"
  shows "chunk_store_get m j (ms_chunks s') = chunk_store_get m j (ms_chunks s)"
    and "ms_extents s' = ms_extents s" and "e = size_limit_error (store_limit (ms_chunks s))"
  using assms
  by (auto simp: appendExtent_def Let_def chunk_store_get_def update_conv' trySet_def
      split: prod.splits if_splits option.splits)

text \<open>
  What the services expect of an extent store (the interface \<open>IExtentStore\<close>): the chunk that
  \<open>appendExtent\<close> returns reads back as the data, and neither a successful nor a refused append
  changes what the chunks of other extents read as. The extent identifier is the one drawn from
  \<open>uuid\<close>.
\<close>

record 's IExtentStore =
  append_extent :: "string \<Rightarrow> int \<Rightarrow> extent_data \<Rightarrow> ('s, IExtentChunk) store_op"
  read_extent :: "IExtentChunk option \<Rightarrow> 's \<Rightarrow> bytes result"

definition MemoryExtentStore :: "('c, extent_doc) loki_collection \<Rightarrow> string \<Rightarrow> 'c memory_store IExtentStore" where
  "MemoryExtentStore L categoryName =
     \<lparr>append_extent = appendExtent L categoryName,
      read_extent = (\<lambda>chunk s. readExtent categoryName chunk (ms_chunks s))\<rparr>"

locale extent_store =
  fixes E :: "'s IExtentStore"
  assumes append_id: "append_extent E i now data s = (Inr c, s') \<Longrightarrow> chunk_id c = i"
    and read_append: "append_extent E i now data s = (Inr c, s') \<Longrightarrow> i \<noteq> ZERO_EXTENT_ID \<Longrightarrow>
      read_extent E (Some c) s' = Inr (concat (data_chunks data))"
    and read_other: "append_extent E i now data s = (r, s') \<Longrightarrow> chunk_id c \<noteq> i \<Longrightarrow>
      read_extent E (Some c) s' = read_extent E (Some c) s"

lemma readExtent_cong:
  "chunk_store_get n (chunk_id c) s = chunk_store_get n (chunk_id c) s' \<Longrightarrow>
     readExtent n (Some c) s = readExtent n (Some c) s'"
  by (simp add: readExtent_def)

interpretation memory_extents: extent_store "MemoryExtentStore L categoryName"
proof
  fix i now data and s s' :: "'a memory_store" and c r
  assume "append_extent (MemoryExtentStore L categoryName) i now data s = (Inr c, s')"
  then have a: "appendExtent L categoryName i now data s = (Inr c, s')" by (simp add: MemoryExtentStore_def)
  note ok = appendExtent_ok [OF a]
  show "chunk_id c = i" by (simp add: ok(1))
  assume "i \<noteq> ZERO_EXTENT_ID"
  then show "read_extent (MemoryExtentStore L categoryName) (Some c) s' = Inr (concat (data_chunks data))"
    by (simp add: MemoryExtentStore_def readExtent_def ok read_loop_concat zero_stream_eq)
next
  fix i now data and s s' :: "'a memory_store" and c :: IExtentChunk and r
  assume "append_extent (MemoryExtentStore L categoryName) i now data s = (r, s')" and "chunk_id c \<noteq> i"
  then show "read_extent (MemoryExtentStore L categoryName) (Some c) s' =
      read_extent (MemoryExtentStore L categoryName) (Some c) s"
    by (cases r) (auto simp: MemoryExtentStore_def appendExtent_ok appendExtent_error intro!: readExtent_cong)
qed

text \<open>
  C31: Data written to the in-memory extent store reads back unchanged, chunk boundaries of the
  request stream and empty chunks notwithstanding, and every other extent, of this service or of
  one that shares the chunk store, reads as before; a refused write (only when the limit would be
  exceeded) leaves every extent and the extent metadata as they were.
\<close>

theorem append_read_roundtrip:
  assumes "i \<noteq> ZERO_EXTENT_ID" and "appendExtent L n i now data s = (r, s')"
  shows "(case r of
      Inl e \<Rightarrow> e = size_limit_error (store_limit (ms_chunks s)) \<and> ms_extents s' = ms_extents s \<and>
        (\<forall>m c. readExtent m (Some c) (ms_chunks s') = readExtent m (Some c) (ms_chunks s))
    | Inr chunk \<Rightarrow> readExtent n (Some chunk) (ms_chunks s') =
          Inr (case data of Buffer b \<Rightarrow> b | ReadableStream cs \<Rightarrow> concat cs) \<and>
        (\<forall>m c. (m, chunk_id c) \<noteq> (n, i) \<longrightarrow>
          readExtent m (Some c) (ms_chunks s') = readExtent m (Some c) (ms_chunks s)))"
proof (cases r)
  case (Inl e)
  then show ?thesis using assms(2) appendExtent_error [of L n i now data s e s'] by (auto intro: readExtent_cong)
next
  case (Inr chunk)
  have a: "appendExtent L n i now data s = (Inr chunk, s')" using assms(2) Inr by simp
  have other: "readExtent m (Some c) (ms_chunks s') = readExtent m (Some c) (ms_chunks s)"
    if "(m, chunk_id c) \<noteq> (n, i)" for m c
    by (rule readExtent_cong) (use that in \<open>auto simp: appendExtent_ok(2) [OF a]\<close>)
  have flt: "concat (filter (\<lambda>c. c \<noteq> []) cs) = concat cs" for cs :: "bytes list"
    by (induction cs) auto
  have "readExtent n (Some chunk) (ms_chunks s') = Inr (concat (data_chunks data))"
    using memory_extents.read_append [of L n i now data s chunk s'] a assms(1) by (simp add: MemoryExtentStore_def)
  also have "concat (data_chunks data) = (case data of Buffer b \<Rightarrow> b | ReadableStream cs \<Rightarrow> concat cs)"
    by (cases data) (simp_all add: flt)
  finally show ?thesis using Inr other by simp
qed

theorem append_read_roundtrip_witness:
  "(case appendExtent list_collection ''blob'' ''e1'' 5 (ReadableStream [[1, 2], [], [3]])
        \<lparr>ms_chunks = new_chunk_store (Some 3), ms_extents = []\<rparr> of (r, s') \<Rightarrow>
      r = Inr \<lparr>chunk_id = ''e1'', chunk_offset = 0, chunk_count = 3\<rparr> \<and>
      readExtent ''blob'' (Some \<lparr>chunk_id = ''e1'', chunk_offset = 0, chunk_count = 3\<rparr>) (ms_chunks s') = Inr [1, 2, 3])"
proof -
  let ?s = "\<lparr>ms_chunks = new_chunk_store (Some 3), ms_extents = []\<rparr> :: extent_doc list_coll memory_store"
  obtain r s' where a: "appendExtent list_collection ''blob'' ''e1'' 5 (ReadableStream [[1, 2], [], [3]]) ?s = (r, s')"
    by fastforce
  moreover have "fst (appendExtent list_collection ''blob'' ''e1'' 5 (ReadableStream [[1, 2], [], [3]]) ?s) =
      Inr \<lparr>chunk_id = ''e1'', chunk_offset = 0, chunk_count = 3\<rparr>"
    by code_simp
  ultimately show ?thesis
    using append_read_roundtrip [OF _ a] by (simp add: ZERO_EXTENT_ID_def)
qed


theorem readExtents_spec_witness:
  "readExtents ''blob'' [\<lparr>chunk_id = ZERO_EXTENT_ID, chunk_offset = 0, chunk_count = 2\<rparr>] 1 (Some 1)
     (new_chunk_store None) = Inr [0] \<and>
   readExtents ''blob'' [\<lparr>chunk_id = ZERO_EXTENT_ID, chunk_offset = 0, chunk_count = 2\<rparr>] 1 (Some 2)
     (new_chunk_store None) = Inl RangeError"
  using readExtents_spec [of "[\<lparr>chunk_id = ZERO_EXTENT_ID, chunk_offset = 0, chunk_count = 2\<rparr>]" "''blob''" "new_chunk_store None" 1 "Some 1"]
    readExtents_spec [of "[\<lparr>chunk_id = ZERO_EXTENT_ID, chunk_offset = 0, chunk_count = 2\<rparr>]" "''blob''" "new_chunk_store None" 1 "Some 2"]
  by (simp add: chunk_stored_def chunk_bytes_def numeral_2_eq_2)

section \<open>The time stamp of an extent\<close>

lemma list_find_snoc:
  "list_find (c @ [Some d]) p = list_find c p @ (if p d then [(length c, d)] else [])"
  by (simp add: list_find_def enumerate_append_eq)

text \<open>
  C32: The time of a new extent never reaches the garbage collector: \<open>updateExtent\<close> inserts it under
  the name \<open>lastModifiedInMS\<close>, \<open>listExtents\<close> compares a field called \<open>LastModifyInMS\<close>. Whatever
  LokiJS answers for a missing field, listing the extents older than a given time gives the same
  result for two insertions that differ only in the time, so the protection time of the collector
  has no effect on extents that were written once.
\<close>

theorem new_extent_time_ignored:
  assumes "findOne list_collection c (\<lambda>d. extent_id d = extent_id x) = None"
  shows "map_sum id (\<lambda>(ds, m). (map extent_id ds, m))
      (listExtents list_collection absent_lt i maxResults marker queryTime protectTime
        (updateExtent list_collection (x\<lparr>lastModifiedInMS := t1\<rparr>) c)) =
    map_sum id (\<lambda>(ds, m). (map extent_id ds, m))
      (listExtents list_collection absent_lt i maxResults marker queryTime protectTime
        (updateExtent list_collection (x\<lparr>lastModifiedInMS := t2\<rparr>) c))"
proof -
  define doc where "doc t = IExtentModel.extend (x\<lparr>lastModifiedInMS := t\<rparr>) \<lparr>LastModifyInMS = None\<rparr>" for t
  let ?q = "listExtents_query absent_lt i queryTime protectTime"
  have upd: "updateExtent list_collection (x\<lparr>lastModifiedInMS := t\<rparr>) c = c @ [Some (doc t)]" for t
    using assms by (simp add: updateExtent_def doc_def list_collection_def)
  have q: "?q (doc t1) = ?q (doc t2)"
    by (simp add: listExtents_query_def doc_def IExtentModel.extend_def split: option.splits)
  have ids: "extent_id (doc t1) = extent_id (doc t2)" by (simp add: doc_def IExtentModel.extend_def)
  define f where "f = (\<lambda>(k :: nat, d :: extent_doc). (k, extent_id d))"
  define docs where "docs t = filter (\<lambda>(k, d). case marker of None \<Rightarrow> True | Some n \<Rightarrow> n < Suc k)
    (list_find (c @ [Some (doc t)]) ?q)" for t
  have eq: "map f (docs t1) = map f (docs t2)"
    using q ids by (simp add: docs_def list_find_snoc f_def)
  have take: "map f (take n (docs t1)) = map f (take n (docs t2))" for n using eq by (simp flip: take_map)
  have "map_sum id (\<lambda>(ds, m). (map extent_id ds, m))
      (listExtents list_collection absent_lt i maxResults marker queryTime protectTime (c @ [Some (doc t)])) =
    (let m = (case maxResults of None \<Rightarrow> 5000 | Some n \<Rightarrow> n); ks = map f (take m (docs t)) in
     if length ks < m then Inr (map snd ks, None) else if ks = [] then Inl TypeError
     else Inr (map snd ks, Some (Suc (fst (last ks)))))" for t
    unfolding listExtents_def docs_def Let_def
    by (auto simp: list_collection_def f_def last_map split: prod.splits)
  note shape = this
  show ?thesis unfolding upd shape take by (rule refl)
qed

theorem new_extent_time_ignored_witness:
  "map_sum id (\<lambda>(ds, m). (map extent_id ds, m))
      (listExtents list_collection True None None None (Some 100) (Some 60)
        (updateExtent list_collection \<lparr>extent_id = ''e'', locationId = ''l'', extent_path = ''p'', extent_size = 1,
          lastModifiedInMS = 99\<rparr> [])) = Inr ([''e''], None)"
proof -
  let ?x = "\<lparr>extent_id = ''e'', locationId = ''l'', extent_path = ''p'', extent_size = 1, lastModifiedInMS = 0\<rparr>"
  have "findOne list_collection ([] :: extent_doc list_coll) (\<lambda>d. extent_id d = extent_id ?x) = None"
    by (simp add: list_collection_simps)
  from new_extent_time_ignored [OF this, of True None None None "Some 100" "Some 60" 99 0]
  show ?thesis
    by (simp add: listExtents_def updateExtent_def list_collection_simps listExtents_query_def IExtentModel.extend_def)
qed

end
