(* ===== verification/Queue_Store.thy ===== *)
theory Queue_Store
  imports Blob_Model Extent_Store
begin

text \<open>
  \<open>queue/persistence/LokiQueueMetadataStore.ts\<close>: the queues and messages of the queue service and
  every operation on them. Dates are milliseconds since the epoch; the results of \<open>new Date()\<close> are
  arguments. A JavaScript object with arbitrary keys (metadata) is the list of its entries.
\<close>

section \<open>Errors\<close>

text \<open>From \<open>queue/errors/StorageErrorFactory.ts\<close>.\<close>

definition getQueueNotFound :: js_error where
  "getQueueNotFound = StorageError 404 ''QueueNotFound'' ''The specified queue does not exist.''"

definition getQueueAlreadyExists :: js_error where
  "getQueueAlreadyExists = StorageError 409 ''QueueAlreadyExists'' ''The specified queue already exists.''"

definition getMessageNotFound :: js_error where
  "getMessageNotFound = StorageError 404 ''MessageNotFound'' ''The specified message does not exist.''"

definition getPopReceiptMismatch :: js_error where
  "getPopReceiptMismatch = StorageError 400 ''PopReceiptMismatch''
     ''The specified pop receipt did not match the pop receipt for a dequeued message.''"

lemmas queue_error_defs = getQueueNotFound_def getQueueAlreadyExists_def getMessageNotFound_def
  getPopReceiptMismatch_def

section \<open>Documents\<close>

record CorsRule =
  allowedOrigins :: string
  allowedMethods :: string
  allowedHeaders :: "string option"
  exposedHeaders :: "string option"
  maxAgeInSeconds :: int

record RetentionPolicy =
  retention_enabled :: bool
  retention_days :: "int option"

record Logging =
  logging_version :: string
  logging_deleteProperty :: bool
  logging_read :: bool
  logging_write :: bool
  logging_retentionPolicy :: RetentionPolicy

record Metrics =
  metrics_version :: "string option"
  metrics_enabled :: bool
  metrics_includeAPIs :: "bool option"
  metrics_retentionPolicy :: "RetentionPolicy option"

record ServicePropertiesModel =
  sp_accountName :: string
  sp_logging :: "Logging option"
  sp_hourMetrics :: "Metrics option"
  sp_minuteMetrics :: "Metrics option"
  sp_cors :: "CorsRule list option"

type_synonym queue_metadata = "(string \<times> string) list"

record QueueModel =
  q_accountName :: string
  q_name :: string
  q_metadata :: "queue_metadata option"
  q_queueAcl :: "SignedIdentifier list option"

record MessageUpdateProperties =
  msg_accountName :: string
  queueName :: string
  messageId :: string
  popReceipt :: string
  timeNextVisible :: int

record MessageModel = MessageUpdateProperties +
  insertionTime :: int
  expirationTime :: int
  dequeueCount :: int
  msg_persistency :: IExtentChunk

section \<open>State\<close>

record ('sc, 'qc, 'mc) queue_db =
  SERVICES_COLLECTION :: "('sc, ServicePropertiesModel) loki_collection"
  QUEUES_COLLECTION :: "('qc, QueueModel) loki_collection"
  MESSAGES_COLLECTION :: "('mc, MessageModel) loki_collection"

record ('sc, 'qc, 'mc) queue_store =
  services :: 'sc
  queues :: 'qc
  messages :: 'mc

definition queue_key :: "string \<Rightarrow> string \<Rightarrow> QueueModel \<Rightarrow> bool" where
  "queue_key account queue q \<longleftrightarrow> q_accountName q = account \<and> q_name q = queue"

definition in_queue :: "string \<Rightarrow> string \<Rightarrow> MessageModel \<Rightarrow> bool" where
  "in_queue account queue m \<longleftrightarrow> msg_accountName m = account \<and> queueName m = queue"

definition message_key :: "string \<Rightarrow> string \<Rightarrow> string \<Rightarrow> MessageModel \<Rightarrow> bool" where
  "message_key account queue i m \<longleftrightarrow> in_queue account queue m \<and> messageId m = i"

definition find_queue where
  "find_queue D account queue = read_op (\<lambda>s. findOne (QUEUES_COLLECTION D) (queues s) (queue_key account queue))"

definition find_message where
  "find_message D account queue i =
     read_op (\<lambda>s. findOne (MESSAGES_COLLECTION D) (messages s) (message_key account queue i))"

definition put_queue where
  "put_queue D i q = update_op (\<lambda>s. s\<lparr>queues := set_doc (QUEUES_COLLECTION D) (queues s) i q\<rparr>)"

definition put_message where
  "put_message D i m = update_op (\<lambda>s. s\<lparr>messages := set_doc (MESSAGES_COLLECTION D) (messages s) i m\<rparr>)"

definition remove_messages where
  "remove_messages D p = update_op (\<lambda>s. s\<lparr>messages := findAndRemove (MESSAGES_COLLECTION D) (messages s) p\<rparr>)"

section \<open>Service properties\<close>

definition updateServiceProperties ::
  "('sc, 'qc, 'mc) queue_db \<Rightarrow> ServicePropertiesModel \<Rightarrow> (('sc, 'qc, 'mc) queue_store, unit) store_op" where
  "updateServiceProperties D u =
     bind_op (read_op (\<lambda>s. findOne (SERVICES_COLLECTION D) (services s) (\<lambda>d. sp_accountName d = sp_accountName u)))
     (\<lambda>found. update_op (\<lambda>s. s\<lparr>services := (case found of
         Some (i, doc) \<Rightarrow> set_doc (SERVICES_COLLECTION D) (services s) i
           (doc\<lparr>sp_cors := (if sp_cors u = None then sp_cors doc else sp_cors u),
             sp_hourMetrics := (if sp_hourMetrics u = None then sp_hourMetrics doc else sp_hourMetrics u),
             sp_logging := (if sp_logging u = None then sp_logging doc else sp_logging u),
             sp_minuteMetrics := (if sp_minuteMetrics u = None then sp_minuteMetrics doc else sp_minuteMetrics u)\<rparr>)
       | None \<Rightarrow> insert_doc (SERVICES_COLLECTION D) (services s) u)\<rparr>))"

definition getServiceProperties ::
  "('sc, 'qc, 'mc) queue_db \<Rightarrow> string \<Rightarrow> (('sc, 'qc, 'mc) queue_store, (nat \<times> ServicePropertiesModel) option) store_op" where
  "getServiceProperties D account =
     read_op (\<lambda>s. findOne (SERVICES_COLLECTION D) (services s) (\<lambda>d. sp_accountName d = account))"

section \<open>Queues\<close>

text \<open>\<open>escapeRegex\<close> makes the regular expression \<open>^prefix\<close> match exactly the names that start with
  the prefix. The marker is a number or \<open>NaN\<close> (\<open>None\<close>), for which LokiJS decides the comparison
  (the argument \<open>nan_gt\<close>); the number \<open>$loki\<close> of the document at position \<open>i\<close> is \<open>i + 1\<close>.\<close>

definition queue_query :: "string \<Rightarrow> string \<Rightarrow> QueueModel \<Rightarrow> bool" where
  "queue_query account prefix q \<longleftrightarrow>
     (if prefix = '''' then True else startsWith (q_name q) prefix) \<and> q_accountName q = account"

definition queueCopy :: "QueueModel \<Rightarrow> QueueModel" where
  "queueCopy q = \<lparr>q_accountName = q_accountName q, q_name = q_name q,
     q_metadata = q_metadata q, q_queueAcl = q_queueAcl q\<rparr>"

definition listQueues ::
  "('sc, 'qc, 'mc) queue_db \<Rightarrow> bool \<Rightarrow> string \<Rightarrow> string \<Rightarrow> nat \<Rightarrow> int option \<Rightarrow>
   (('sc, 'qc, 'mc) queue_store, QueueModel list \<times> int option) store_op" where
  "listQueues D nan_gt account prefix maxResults marker =
     read_op (\<lambda>s.
       let found = filter (\<lambda>(i, q). case marker of Some n \<Rightarrow> n < int (Suc i) | None \<Rightarrow> nan_gt)
             (find_simplesort (QUEUES_COLLECTION D) (queues s) (queue_query account prefix));
           docs = take (maxResults + 1) (sort_key (q_name \<circ> snd) found);
           qs = map (queueCopy \<circ> snd) (take maxResults docs)
       in if length docs \<le> maxResults then (qs, None)
          else (qs, Some (int (Suc (fst (last docs))) - 1)))"

definition getQueue ::
  "('sc, 'qc, 'mc) queue_db \<Rightarrow> string \<Rightarrow> string \<Rightarrow> (('sc, 'qc, 'mc) queue_store, QueueModel) store_op" where
  "getQueue D account queue =
     bind_op (find_queue D account queue) (\<lambda>found.
     case found of None \<Rightarrow> throw getQueueNotFound | Some (_, doc) \<Rightarrow> return doc)"

text \<open>The comparison of the metadata of an existing queue with those of the request: the name map
  keeps the last name of each lower-case spelling.\<close>

definition name_map :: "queue_metadata \<Rightarrow> string \<Rightarrow> string option" where
  "name_map queueMeta = map_of (rev (map (\<lambda>(item, _). (toLowerCase item, item)) queueMeta))"

definition same_metadata :: "queue_metadata \<Rightarrow> queue_metadata \<Rightarrow> bool" where
  "same_metadata queueMeta docMeta \<longleftrightarrow>
     list_all (\<lambda>(item, v). case name_map queueMeta (toLowerCase item) of
         None \<Rightarrow> False
       | Some queueMetaName \<Rightarrow> Some v = map_of queueMeta queueMetaName) docMeta"

definition createQueue ::
  "('sc, 'qc, 'mc) queue_db \<Rightarrow> QueueModel \<Rightarrow> (('sc, 'qc, 'mc) queue_store, nat) store_op" where
  "createQueue D queue =
     bind_op (find_queue D (q_accountName queue) (q_name queue)) (\<lambda>found.
     case found of
       Some (_, doc) \<Rightarrow>
         (case q_metadata queue of
            None \<Rightarrow> (if q_metadata doc \<noteq> None then throw getQueueAlreadyExists else return 204)
          | Some queueMeta \<Rightarrow>
             (case q_metadata doc of
                None \<Rightarrow> throw getQueueAlreadyExists
              | Some docMeta \<Rightarrow>
                  if length queueMeta \<noteq> length docMeta then throw getQueueAlreadyExists
                  else if same_metadata queueMeta docMeta then return 204
                  else throw getQueueAlreadyExists))
     | None \<Rightarrow>
         bind_op (update_op (\<lambda>s. s\<lparr>queues := insert_doc (QUEUES_COLLECTION D) (queues s) queue\<rparr>)) (\<lambda>_.
         return 201))"

definition deleteQueue ::
  "('sc, 'qc, 'mc) queue_db \<Rightarrow> string \<Rightarrow> string \<Rightarrow> (('sc, 'qc, 'mc) queue_store, unit) store_op" where
  "deleteQueue D account queue =
     bind_op (find_queue D account queue) (\<lambda>found.
     case found of
       None \<Rightarrow> throw getQueueNotFound
     | Some (i, _) \<Rightarrow>
         bind_op (update_op (\<lambda>s. s\<lparr>queues := remove_doc (QUEUES_COLLECTION D) (queues s) i\<rparr>)) (\<lambda>_.
         remove_messages D (in_queue account queue)))"

definition setQueueACL ::
  "('sc, 'qc, 'mc) queue_db \<Rightarrow> string \<Rightarrow> string \<Rightarrow> SignedIdentifier list option \<Rightarrow>
   (('sc, 'qc, 'mc) queue_store, unit) store_op" where
  "setQueueACL D account queue queueACL =
     bind_op (find_queue D account queue) (\<lambda>found.
     case found of
       None \<Rightarrow> throw getQueueNotFound
     | Some (i, doc) \<Rightarrow> put_queue D i (doc\<lparr>q_queueAcl := queueACL\<rparr>))"

definition setQueueMetadata ::
  "('sc, 'qc, 'mc) queue_db \<Rightarrow> string \<Rightarrow> string \<Rightarrow> queue_metadata option \<Rightarrow>
   (('sc, 'qc, 'mc) queue_store, unit) store_op" where
  "setQueueMetadata D account queue metadata =
     bind_op (find_queue D account queue) (\<lambda>found.
     case found of
       None \<Rightarrow> throw getQueueNotFound
     | Some (i, doc) \<Rightarrow> put_queue D i (doc\<lparr>q_metadata := metadata\<rparr>))"

section \<open>Messages\<close>

definition checkQueueExist ::
  "('sc, 'qc, 'mc) queue_db \<Rightarrow> string \<Rightarrow> string \<Rightarrow> (('sc, 'qc, 'mc) queue_store, unit) store_op" where
  "checkQueueExist D account queue =
     bind_op (find_queue D account queue) (\<lambda>found.
     case found of None \<Rightarrow> throw getQueueNotFound | Some _ \<Rightarrow> return ())"

definition getMessagesCount ::
  "('sc, 'qc, 'mc) queue_db \<Rightarrow> string \<Rightarrow> string \<Rightarrow> (('sc, 'qc, 'mc) queue_store, nat) store_op" where
  "getMessagesCount D account queue =
     bind_op (find_queue D account queue) (\<lambda>found.
     case found of
       None \<Rightarrow> throw getQueueNotFound
     | Some _ \<Rightarrow> read_op (\<lambda>s. count_docs (MESSAGES_COLLECTION D) (messages s) (in_queue account queue)))"

definition messageCopy :: "MessageModel \<Rightarrow> MessageModel" where
  "messageCopy m = \<lparr>msg_accountName = msg_accountName m, queueName = queueName m, messageId = messageId m,
     popReceipt = popReceipt m, timeNextVisible = timeNextVisible m, insertionTime = insertionTime m,
     expirationTime = expirationTime m, dequeueCount = dequeueCount m,
     msg_persistency = \<lparr>chunk_id = chunk_id (msg_persistency m),
       chunk_offset = chunk_offset (msg_persistency m), chunk_count = chunk_count (msg_persistency m)\<rparr>\<rparr>"

definition insertMessage ::
  "('sc, 'qc, 'mc) queue_db \<Rightarrow> MessageModel \<Rightarrow> (('sc, 'qc, 'mc) queue_store, unit) store_op" where
  "insertMessage D message =
     bind_op (checkQueueExist D (msg_accountName message) (queueName message)) (\<lambda>_.
     update_op (\<lambda>s. s\<lparr>messages := insert_doc (MESSAGES_COLLECTION D) (messages s) (messageCopy message)\<rparr>))"

definition clearExpiredMessages ::
  "('sc, 'qc, 'mc) queue_db \<Rightarrow> int \<Rightarrow> string \<Rightarrow> string \<Rightarrow> (('sc, 'qc, 'mc) queue_store, unit) store_op" where
  "clearExpiredMessages D now account queue =
     bind_op (checkQueueExist D account queue) (\<lambda>_.
     remove_messages D (\<lambda>m. in_queue account queue m \<and> expirationTime m \<le> now))"

text \<open>\<open>find(query).compoundsort([timeNextVisible, $loki]).limit(n)\<close>: sorting is stable on the
  documents in the order of \<open>$loki\<close>.\<close>

definition visible_messages ::
  "('sc, 'qc, 'mc) queue_db \<Rightarrow> string \<Rightarrow> string \<Rightarrow> int \<Rightarrow> nat \<Rightarrow> ('sc, 'qc, 'mc) queue_store \<Rightarrow>
   (nat \<times> MessageModel) list" where
  "visible_messages D account queue queryTime n s =
     take n (sort_key (timeNextVisible \<circ> snd)
       (find_simplesort (MESSAGES_COLLECTION D) (messages s)
         (\<lambda>m. in_queue account queue m \<and> timeNextVisible m \<le> queryTime)))"

definition peekMessages ::
  "('sc, 'qc, 'mc) queue_db \<Rightarrow> int \<Rightarrow> string \<Rightarrow> string \<Rightarrow> int option \<Rightarrow> int option \<Rightarrow>
   (('sc, 'qc, 'mc) queue_store, MessageModel list) store_op" where
  "peekMessages D now account queue numOfMessages queryDate =
     bind_op (checkQueueExist D account queue) (\<lambda>_.
     bind_op (clearExpiredMessages D now account queue) (\<lambda>_.
     let queryTime = (case queryDate of Some d \<Rightarrow> d | None \<Rightarrow> now);
         n = (case numOfMessages of None \<Rightarrow> 1 | Some k \<Rightarrow> k)
     in bind_op (read_op (visible_messages D account queue queryTime (nat n))) (\<lambda>docs.
        return (map (messageCopy \<circ> snd) docs))))"

fun put_messages where
  "put_messages D [] = return ()"
| "put_messages D ((i, m) # ms) = bind_op (put_message D i m) (\<lambda>_. put_messages D ms)"

definition getMessages ::
  "('sc, 'qc, 'mc) queue_db \<Rightarrow> int \<Rightarrow> string \<Rightarrow> string \<Rightarrow> int \<Rightarrow> string \<Rightarrow> int option \<Rightarrow> int option \<Rightarrow>
   (('sc, 'qc, 'mc) queue_store, MessageModel list) store_op" where
  "getMessages D now account queue timeNextVisible' popReceipt' numOfMessages queryDate =
     bind_op (checkQueueExist D account queue) (\<lambda>_.
     bind_op (clearExpiredMessages D now account queue) (\<lambda>_.
     let queryTime = (case queryDate of Some d \<Rightarrow> d | None \<Rightarrow> now);
         n = (case numOfMessages of None \<Rightarrow> 1 | Some k \<Rightarrow> if k < 1 then 1 else k)
     in bind_op (read_op (visible_messages D account queue queryTime (nat n))) (\<lambda>docs.
        let docs' = map (\<lambda>(i, m). (i, m\<lparr>timeNextVisible := timeNextVisible', popReceipt := popReceipt',
              dequeueCount := dequeueCount m + 1\<rparr>)) docs
        in bind_op (put_messages D docs') (\<lambda>_. return (map (messageCopy \<circ> snd) docs')))))"

definition deleteMessage ::
  "('sc, 'qc, 'mc) queue_db \<Rightarrow> int \<Rightarrow> string \<Rightarrow> string \<Rightarrow> string \<Rightarrow> string \<Rightarrow>
   (('sc, 'qc, 'mc) queue_store, unit) store_op" where
  "deleteMessage D now account queue i validatingPopReceipt =
     bind_op (checkQueueExist D account queue) (\<lambda>_.
     bind_op (clearExpiredMessages D now account queue) (\<lambda>_.
     bind_op (find_message D account queue i) (\<lambda>found.
     case found of
       None \<Rightarrow> throw getMessageNotFound
     | Some (k, doc) \<Rightarrow>
         if popReceipt doc \<noteq> validatingPopReceipt then throw getPopReceiptMismatch
         else update_op (\<lambda>s. s\<lparr>messages := remove_doc (MESSAGES_COLLECTION D) (messages s) k\<rparr>))))"

definition updateMessage ::
  "('sc, 'qc, 'mc) queue_db \<Rightarrow> int \<Rightarrow> MessageUpdateProperties \<Rightarrow> IExtentChunk option \<Rightarrow> string \<Rightarrow>
   (('sc, 'qc, 'mc) queue_store, unit) store_op" where
  "updateMessage D now message persistency' validatingPopReceipt =
     bind_op (checkQueueExist D (msg_accountName message) (queueName message)) (\<lambda>_.
     bind_op (clearExpiredMessages D now (msg_accountName message) (queueName message)) (\<lambda>_.
     bind_op (find_message D (msg_accountName message) (queueName message) (messageId message)) (\<lambda>found.
     case found of
       None \<Rightarrow> throw getMessageNotFound
     | Some (k, doc) \<Rightarrow>
         if popReceipt doc \<noteq> validatingPopReceipt then throw getPopReceiptMismatch
         else put_message D k (doc\<lparr>popReceipt := popReceipt message,
           timeNextVisible := timeNextVisible message,
           msg_persistency := (case persistency' of None \<Rightarrow> msg_persistency doc | Some c \<Rightarrow> c)\<rparr>))))"

definition clearMessages ::
  "('sc, 'qc, 'mc) queue_db \<Rightarrow> string \<Rightarrow> string \<Rightarrow> (('sc, 'qc, 'mc) queue_store, unit) store_op" where
  "clearMessages D account queue =
     bind_op (checkQueueExist D account queue) (\<lambda>_. remove_messages D (in_queue account queue))"

definition listMessages ::
  "('sc, 'qc, 'mc) queue_db \<Rightarrow> nat option \<Rightarrow> nat option \<Rightarrow>
   (('sc, 'qc, 'mc) queue_store, MessageModel list \<times> nat option) store_op" where
  "listMessages D maxResults marker =
     (let m = (case maxResults of None \<Rightarrow> 5000 | Some n \<Rightarrow> n) in
      bind_op (read_op (\<lambda>s. take m (filter (\<lambda>(i, _). case marker of None \<Rightarrow> True | Some k \<Rightarrow> k < Suc i)
        (find_simplesort (MESSAGES_COLLECTION D) (messages s) (\<lambda>_. True))))) (\<lambda>docs.
      if length docs < m then return (map snd docs, None)
      else if docs = [] then throw TypeError
      else return (map snd docs, Some (Suc (fst (last docs))))))"

end
