(* ===== verification/Queue_Properties.thy ===== *)
theory Queue_Properties
  imports Queue_Store
begin

text \<open>
  What the queue metadata store guarantees: the invariant of the store, which messages a dequeue
  hands out, that they stay hidden until their time, and who may delete or update a message.
  Proved for every database whose collections follow the laws of LokiJS.
\<close>

section \<open>Views of the store\<close>

definition queue_at :: "('sc, 'qc, 'mc) queue_db \<Rightarrow> ('sc, 'qc, 'mc) queue_store \<Rightarrow> nat \<Rightarrow> QueueModel option" where
  "queue_at D s = get_doc (QUEUES_COLLECTION D) (queues s)"

definition message_at :: "('sc, 'qc, 'mc) queue_db \<Rightarrow> ('sc, 'qc, 'mc) queue_store \<Rightarrow> nat \<Rightarrow> MessageModel option" where
  "message_at D s = get_doc (MESSAGES_COLLECTION D) (messages s)"

definition has_queue :: "('sc, 'qc, 'mc) queue_db \<Rightarrow> ('sc, 'qc, 'mc) queue_store \<Rightarrow> string \<Rightarrow> string \<Rightarrow> bool" where
  "has_queue D s account queue \<longleftrightarrow> (\<exists>i q. queue_at D s i = Some q \<and> queue_key account queue q)"

definition queue_inv :: "('sc, 'qc, 'mc) queue_db \<Rightarrow> ('sc, 'qc, 'mc) queue_store \<Rightarrow> bool" where
  "queue_inv D s \<longleftrightarrow>
     (\<forall>i j p q. queue_at D s i = Some p \<longrightarrow> queue_at D s j = Some q \<longrightarrow>
        queue_key (q_accountName p) (q_name p) q \<longrightarrow> i = j) \<and>
     (\<forall>i m. message_at D s i = Some m \<longrightarrow> has_queue D s (msg_accountName m) (queueName m)) \<and>
     (\<forall>i j m k. message_at D s i = Some m \<longrightarrow> message_at D s j = Some k \<longrightarrow>
        message_key (msg_accountName m) (queueName m) (messageId m) k \<longrightarrow> i = j)"

text \<open>A message that is not expired at a time, and its state after a dequeue.\<close>

definition keep_live :: "string \<Rightarrow> string \<Rightarrow> int \<Rightarrow> MessageModel option \<Rightarrow> MessageModel option" where
  "keep_live a q now x =
     (case x of None \<Rightarrow> None | Some m \<Rightarrow> if in_queue a q m \<and> expirationTime m \<le> now then None else Some m)"

definition live_message ::
  "('sc, 'qc, 'mc) queue_db \<Rightarrow> string \<Rightarrow> string \<Rightarrow> int \<Rightarrow> int \<Rightarrow> ('sc, 'qc, 'mc) queue_store \<Rightarrow>
   nat \<times> MessageModel \<Rightarrow> bool" where
  "live_message D a q now queryTime s = (\<lambda>(i, m).
     message_at D s i = Some m \<and> in_queue a q m \<and> now < expirationTime m \<and> timeNextVisible m \<le> queryTime)"

definition dequeued :: "int \<Rightarrow> string \<Rightarrow> MessageModel \<Rightarrow> MessageModel" where
  "dequeued t receipt m = m\<lparr>timeNextVisible := t, popReceipt := receipt, dequeueCount := dequeueCount m + 1\<rparr>"

definition before :: "nat \<times> MessageModel \<Rightarrow> nat \<times> MessageModel \<Rightarrow> bool" where
  "before x y \<longleftrightarrow> timeNextVisible (snd x) < timeNextVisible (snd y) \<or>
     (timeNextVisible (snd x) = timeNextVisible (snd y) \<and> fst x < fst y)"

section \<open>Requests\<close>

datatype queue_request =
    CreateQueue QueueModel
  | DeleteQueue string string
  | SetQueueACL string string "SignedIdentifier list option"
  | SetQueueMetadata string string "queue_metadata option"
  | InsertMessage MessageModel
  | PeekMessages int string string int int
  | GetMessages int string string int string int int
  | DeleteMessage int string string string string
  | UpdateMessage int MessageUpdateProperties "IExtentChunk option" string
  | ClearMessages string string
  | UpdateServiceProperties ServicePropertiesModel

text \<open>Executing a request returns the messages it hands out.\<close>

fun exec_request ::
  "('sc, 'qc, 'mc) queue_db \<Rightarrow> queue_request \<Rightarrow> (('sc, 'qc, 'mc) queue_store, MessageModel list) store_op" where
  "exec_request D (CreateQueue q) = bind_op (createQueue D q) (\<lambda>_. return [])"
| "exec_request D (DeleteQueue a q) = bind_op (deleteQueue D a q) (\<lambda>_. return [])"
| "exec_request D (SetQueueACL a q acl) = bind_op (setQueueACL D a q acl) (\<lambda>_. return [])"
| "exec_request D (SetQueueMetadata a q md) = bind_op (setQueueMetadata D a q md) (\<lambda>_. return [])"
| "exec_request D (InsertMessage m) = bind_op (insertMessage D m) (\<lambda>_. return [])"
| "exec_request D (PeekMessages now a q n qt) = peekMessages D now a q (Some n) (Some qt)"
| "exec_request D (GetMessages now a q t r n qt) = getMessages D now a q t r (Some n) (Some qt)"
| "exec_request D (DeleteMessage now a q i r) = bind_op (deleteMessage D now a q i r) (\<lambda>_. return [])"
| "exec_request D (UpdateMessage now m c r) = bind_op (updateMessage D now m c r) (\<lambda>_. return [])"
| "exec_request D (ClearMessages a q) = bind_op (clearMessages D a q) (\<lambda>_. return [])"
| "exec_request D (UpdateServiceProperties u) = bind_op (updateServiceProperties D u) (\<lambda>_. return [])"

fun run_requests ::
  "('sc, 'qc, 'mc) queue_db \<Rightarrow> queue_request list \<Rightarrow> ('sc, 'qc, 'mc) queue_store \<Rightarrow>
   MessageModel list result list \<times> ('sc, 'qc, 'mc) queue_store" where
  "run_requests D [] s = ([], s)"
| "run_requests D (r # rs) s =
     (case exec_request D r s of (out, s1) \<Rightarrow> case run_requests D rs s1 of (outs, s2) \<Rightarrow> (out # outs, s2))"

text \<open>The identifier of an inserted message is new, as those of \<open>uuid()\<close> are.\<close>

definition fresh_request ::
  "('sc, 'qc, 'mc) queue_db \<Rightarrow> queue_request \<Rightarrow> ('sc, 'qc, 'mc) queue_store \<Rightarrow> bool" where
  "fresh_request D r s \<longleftrightarrow>
     (\<forall>m i k. r = InsertMessage m \<longrightarrow> message_at D s i = Some k \<longrightarrow> messageId k \<noteq> messageId m)"

fun fresh_run ::
  "('sc, 'qc, 'mc) queue_db \<Rightarrow> queue_request list \<Rightarrow> ('sc, 'qc, 'mc) queue_store \<Rightarrow> bool" where
  "fresh_run D [] s = True"
| "fresh_run D (r # rs) s = (fresh_request D r s \<and> fresh_run D rs (snd (exec_request D r s)))"

section \<open>The order of messages\<close>

lemma insort_key_sorted_wrt:
  fixes f :: "'a \<Rightarrow> 'b::linorder" and g :: "'a \<Rightarrow> 'c::linorder"
  assumes "sorted_wrt (\<lambda>x y. f x < f y \<or> f x = f y \<and> g x < g y) ys" "\<forall>y \<in> set ys. g x < g y"
  shows "sorted_wrt (\<lambda>x y. f x < f y \<or> f x = f y \<and> g x < g y) (insort_key f x ys)"
  using assms by (induction ys) (auto simp: set_insort_key dest: order.strict_trans)

lemma sort_key_sorted_wrt:
  fixes f :: "'a \<Rightarrow> 'b::linorder" and g :: "'a \<Rightarrow> 'c::linorder"
  assumes "sorted_wrt (\<lambda>x y. g x < g y) xs"
  shows "sorted_wrt (\<lambda>x y. f x < f y \<or> f x = f y \<and> g x < g y) (sort_key f xs)"
  using assms by (induction xs) (auto intro: insort_key_sorted_wrt)

lemma sorted_wrt_take_drop:
  "sorted_wrt R xs \<Longrightarrow> x \<in> set (take n xs) \<Longrightarrow> y \<in> set (drop n xs) \<Longrightarrow> R x y"
  by (metis append_take_drop_id sorted_wrt_append)

lemma before_irrefl: "\<not> before x x"
  by (simp add: before_def)

section \<open>Effects of the operations\<close>

locale queue_collections =
  fixes D :: "('sc, 'qc, 'mc) queue_db"
  assumes services_loki: "loki (SERVICES_COLLECTION D)"
    and queues_loki: "loki (QUEUES_COLLECTION D)"
    and messages_loki: "loki (MESSAGES_COLLECTION D)"

sublocale queue_collections \<subseteq> qs: loki "QUEUES_COLLECTION D"
  by (rule queues_loki)

sublocale queue_collections \<subseteq> ms: loki "MESSAGES_COLLECTION D"
  by (rule messages_loki)

definition list_queue_db ::
  "(ServicePropertiesModel list_coll, QueueModel list_coll, MessageModel list_coll) queue_db" where
  "list_queue_db = \<lparr>SERVICES_COLLECTION = list_collection, QUEUES_COLLECTION = list_collection,
     MESSAGES_COLLECTION = list_collection\<rparr>"

definition empty_queue_store ::
  "(ServicePropertiesModel list_coll, QueueModel list_coll, MessageModel list_coll) queue_store" where
  "empty_queue_store = \<lparr>services = [], queues = [], messages = []\<rparr>"

interpretation list_queues: queue_collections list_queue_db
  by (rule queue_collections.intro) (simp_all add: list_queue_db_def list_coll.loki_axioms)

lemma view_simps [simp]:
  "queue_at D (s\<lparr>messages := x\<rparr>) = queue_at D s" "queue_at D (s\<lparr>services := y\<rparr>) = queue_at D s"
  "message_at D (s\<lparr>queues := z\<rparr>) = message_at D s" "message_at D (s\<lparr>services := y\<rparr>) = message_at D s"
  by (simp_all add: queue_at_def message_at_def)

lemma has_queue_simps [simp]:
  "has_queue D (s\<lparr>messages := x\<rparr>) = has_queue D s" "has_queue D (s\<lparr>services := y\<rparr>) = has_queue D s"
  by (simp_all add: has_queue_def fun_eq_iff)

context queue_collections
begin

lemma find_queue_None_iff:
  "findOne (QUEUES_COLLECTION D) (queues s) (queue_key a q) = None \<longleftrightarrow> \<not> has_queue D s a q"
  using qs.findOne_None qs.findOne_Some unfolding has_queue_def queue_at_def
  by (metis option.exhaust prod.exhaust)

lemma wp_find_queue:
  assumes "\<not> has_queue D s a q \<Longrightarrow> Q None s"
    and "\<And>i x. queue_at D s i = Some x \<Longrightarrow> queue_key a q x \<Longrightarrow> has_queue D s a q \<Longrightarrow> Q (Some (i, x)) s"
  shows "wp (find_queue D a q) Q R s"
  unfolding find_queue_def
  by (rule qs.wp_findOne) (use assms in \<open>auto simp: has_queue_def queue_at_def\<close>)

lemma wp_checkQueueExist:
  assumes "has_queue D s a q \<Longrightarrow> Q () s" and "\<not> has_queue D s a q \<Longrightarrow> R getQueueNotFound s"
  shows "wp (checkQueueExist D a q) Q R s"
  unfolding checkQueueExist_def wp_bind by (rule wp_find_queue) (use assms in auto)

lemma messages_removed:
  "message_at D (s\<lparr>messages := findAndRemove (MESSAGES_COLLECTION D) (messages s) p\<rparr>) i =
     (case message_at D s i of None \<Rightarrow> None | Some m \<Rightarrow> if p m then None else Some m)"
  by (simp add: message_at_def ms.findAndRemove_get)

text \<open>After the check and the removal of expired messages.\<close>

lemma wp_clearExpired:
  assumes "\<not> has_queue D s a q \<Longrightarrow> R getQueueNotFound s"
    and "\<And>s1. has_queue D s a q \<Longrightarrow> queues s1 = queues s \<Longrightarrow>
      message_at D s1 = (\<lambda>i. keep_live a q now (message_at D s i)) \<Longrightarrow> Q () s1"
  shows "wp (checkQueueExist D a q) (\<lambda>_. wp (clearExpiredMessages D now a q) Q R) R s"
  unfolding clearExpiredMessages_def wp_bind
proof (intro wp_checkQueueExist)
  assume has: "has_queue D s a q"
  let ?s1 = "s\<lparr>messages := findAndRemove (MESSAGES_COLLECTION D) (messages s)
    (\<lambda>m. in_queue a q m \<and> expirationTime m \<le> now)\<rparr>"
  have "message_at D ?s1 = (\<lambda>i. keep_live a q now (message_at D s i))"
    by (rule ext) (simp add: messages_removed keep_live_def)
  with assms(2) [of ?s1] has show "wp (remove_messages D (\<lambda>m. in_queue a q m \<and> expirationTime m \<le> now)) Q R s"
    by (simp add: remove_messages_def)
qed (use assms in auto)

lemma has_queue_cong: "queues s' = queues s \<Longrightarrow> has_queue D s' = has_queue D s"
  by (simp add: has_queue_def queue_at_def fun_eq_iff)

end

lemma before_sort_key:
  "sorted_wrt (\<lambda>x y. fst x < fst y) xs \<Longrightarrow> sorted_wrt before (sort_key (timeNextVisible \<circ> snd) xs)"
  using sort_key_sorted_wrt [of fst xs "timeNextVisible \<circ> snd"] unfolding before_def [abs_def] comp_def .

context queue_collections
begin

text \<open>The documents that a dequeue or a peek selects.\<close>

lemma visible_messages_spec:
  assumes s1: "message_at D s1 = (\<lambda>i. keep_live a q now (message_at D s i))"
    and "docs = visible_messages D a q queryTime n s1"
  shows "sorted_wrt before docs" and "\<forall>x \<in> set docs. live_message D a q now queryTime s x"
    and "length docs = min n (card {x. live_message D a q now queryTime s x})"
    and "\<forall>x y. x \<in> set docs \<longrightarrow> live_message D a q now queryTime s y \<longrightarrow> y \<in> set docs \<or> before x y"
proof -
  let ?p = "\<lambda>m. in_queue a q m \<and> timeNextVisible m \<le> queryTime"
  let ?f = "find_simplesort (MESSAGES_COLLECTION D) (messages s1) ?p"
  let ?s = "sort_key (timeNextVisible \<circ> snd) ?f"
  have set: "set ?f = {x. live_message D a q now queryTime s x}"
    using fun_cong [OF s1]
    by (auto simp: ms.find_set live_message_def keep_live_def message_at_def split: option.splits if_splits)
  have num: "sorted_wrt (\<lambda>x y. fst x < fst y) ?f"
    using ms.find_sorted [of "messages s1" ?p] by (simp add: sorted_wrt_map)
  have "distinct (map fst ?f)" using ms.find_sorted strict_sorted_iff by blast
  then have dist: "distinct ?f" by (simp add: distinct_map)
  note srt = before_sort_key [OF num]
  have docs: "docs = take n ?s" by (simp add: assms(2) visible_messages_def)
  show "sorted_wrt before docs" unfolding docs by (rule sorted_wrt_take [OF srt])
  show "\<forall>x \<in> set docs. live_message D a q now queryTime s x"
    using set_take_subset [of n ?s] set unfolding docs by auto
  show "length docs = min n (card {x. live_message D a q now queryTime s x})"
    using distinct_card [OF dist] set by (simp add: docs)
  show "\<forall>x y. x \<in> set docs \<longrightarrow> live_message D a q now queryTime s y \<longrightarrow> y \<in> set docs \<or> before x y"
  proof (intro allI impI)
    fix x y assume x: "x \<in> set docs" and "live_message D a q now queryTime s y"
    then have "y \<in> set ?s" using set by simp
    then have "y \<in> set docs \<or> y \<in> set (drop n ?s)"
      unfolding docs by (metis Un_iff append_take_drop_id set_append)
    then show "y \<in> set docs \<or> before x y" using sorted_wrt_take_drop [OF srt] x unfolding docs by blast
  qed
qed

lemma wp_put_messages:
  assumes "\<forall>(i, m) \<in> set docs. message_at D s i \<noteq> None" and "distinct (map fst docs)"
    and "\<And>s1. queues s1 = queues s \<Longrightarrow> message_at D s1 = (\<lambda>i. case map_of docs i of
      Some m \<Rightarrow> Some m | None \<Rightarrow> message_at D s i) \<Longrightarrow> Q () s1"
  shows "wp (put_messages D docs) Q R s"
  using assms
proof (induction docs arbitrary: s)
  case Nil
  then show ?case by simp
next
  case (Cons x docs)
  obtain i m where x: "x = (i, m)" by fastforce
  let ?s = "s\<lparr>messages := set_doc (MESSAGES_COLLECTION D) (messages s) i m\<rparr>"
  have at: "message_at D ?s = (message_at D s)(i \<mapsto> m)"
    using Cons.prems(1) by (simp add: x message_at_def ms.set_get)
  have "wp (put_messages D docs) Q R ?s"
  proof (rule Cons.IH)
    show "\<forall>(j, k) \<in> set docs. message_at D ?s j \<noteq> None" using Cons.prems(1) unfolding at by auto
    show "distinct (map fst docs)" using Cons.prems(2) by simp
    fix s1 assume q: "queues s1 = queues ?s"
      and m: "message_at D s1 = (\<lambda>j. case map_of docs j of Some k \<Rightarrow> Some k | None \<Rightarrow> message_at D ?s j)"
    have "i \<notin> fst ` set docs" using Cons.prems(2) x by simp
    then have "map_of docs i = None" by (simp add: map_of_eq_None_iff)
    then have "message_at D s1 = (\<lambda>j. case map_of (x # docs) j of Some k \<Rightarrow> Some k | None \<Rightarrow> message_at D s j)"
      unfolding m at by (auto simp: x split: option.splits)
    then show "Q () s1" using Cons.prems(3) q by simp
  qed
  then show ?case by (simp add: x put_message_def)
qed

lemma wp_getMessages:
  assumes none: "\<not> has_queue D s a q \<Longrightarrow> R getQueueNotFound s"
    and ok: "\<And>docs s1. has_queue D s a q \<Longrightarrow> queues s1 = queues s \<Longrightarrow>
      message_at D s1 = (\<lambda>i. case map_of docs i of Some m \<Rightarrow> Some (dequeued t r m)
        | None \<Rightarrow> keep_live a q now (message_at D s i)) \<Longrightarrow>
      sorted_wrt before docs \<Longrightarrow> \<forall>x \<in> set docs. live_message D a q now qt s x \<Longrightarrow>
      length docs = min (nat (max 1 n)) (card {x. live_message D a q now qt s x}) \<Longrightarrow>
      \<forall>x y. x \<in> set docs \<longrightarrow> live_message D a q now qt s y \<longrightarrow> y \<in> set docs \<or> before x y \<Longrightarrow>
      Q (map (messageCopy \<circ> dequeued t r \<circ> snd) docs) s1"
  shows "wp (getMessages D now a q t r (Some n) (Some qt)) Q R s"
  unfolding getMessages_def wp_bind
proof (rule wp_clearExpired, goal_cases)
  case (2 s1)
  note s1 = 2(3)
  let ?n = "nat (max 1 n)"
  define docs where "docs = visible_messages D a q qt ?n s1"
  let ?upd = "\<lambda>(i, m). (i, m\<lparr>timeNextVisible := t, popReceipt := r, dequeueCount := dequeueCount m + 1\<rparr>)"
  note spec = visible_messages_spec [OF s1 docs_def]
  have upd: "map ?upd docs = map (\<lambda>(i, m). (i, dequeued t r m)) docs" by (simp add: dequeued_def)
  have num: "nat (if n < 1 then 1 else n) = ?n" by (auto simp: max_def)
  have dist: "distinct (map fst docs)"
  proof -
    let ?p = "\<lambda>m. in_queue a q m \<and> timeNextVisible m \<le> qt"
    let ?f = "find_simplesort (MESSAGES_COLLECTION D) (messages s1) ?p"
    have "distinct (map fst ?f)" using ms.find_sorted strict_sorted_iff by blast
    then have "distinct (map fst (sort_key (timeNextVisible \<circ> snd) ?f))"
      by (metis (no_types, lifting) distinct_map distinct_sort set_sort)
    then show ?thesis by (simp add: docs_def visible_messages_def flip: take_map)
  qed
  have "wp (put_messages D (map ?upd docs)) (\<lambda>_. Q (map (messageCopy \<circ> snd) (map ?upd docs))) R s1"
  proof (rule wp_put_messages)
    show "\<forall>(i, m) \<in> set (map ?upd docs). message_at D s1 i \<noteq> None"
      using spec(2) unfolding s1 by (auto simp: live_message_def keep_live_def)
    show "distinct (map fst (map ?upd docs))" using dist by (simp add: comp_def case_prod_unfold)
    fix s2 assume q: "queues s2 = queues s1"
      and m: "message_at D s2 = (\<lambda>i. case map_of (map ?upd docs) i of Some m \<Rightarrow> Some m | None \<Rightarrow> message_at D s1 i)"
    have "message_at D s2 = (\<lambda>i. case map_of docs i of Some m \<Rightarrow> Some (dequeued t r m)
        | None \<Rightarrow> keep_live a q now (message_at D s i))"
      unfolding m s1 upd by (auto simp: map_of_map option.case_eq_if fun_eq_iff)
    from ok [OF 2(1) _ this spec] q 2(2)
    show "Q (map (messageCopy \<circ> snd) (map ?upd docs)) s2" by (simp add: dequeued_def comp_def case_prod_unfold)
  qed
  then show ?case
    unfolding Let_def by (simp add: num flip: docs_def)
qed (rule none)

lemma wp_peekMessages:
  assumes none: "\<not> has_queue D s a q \<Longrightarrow> R getQueueNotFound s"
    and ok: "\<And>docs s1. has_queue D s a q \<Longrightarrow> queues s1 = queues s \<Longrightarrow>
      message_at D s1 = (\<lambda>i. keep_live a q now (message_at D s i)) \<Longrightarrow>
      \<forall>x \<in> set docs. live_message D a q now qt s x \<Longrightarrow> Q (map (messageCopy \<circ> snd) docs) s1"
  shows "wp (peekMessages D now a q n (Some qt)) Q R s"
  unfolding peekMessages_def wp_bind
proof (rule wp_clearExpired, goal_cases)
  case (2 s1)
  from ok [OF 2 visible_messages_spec(2) [OF 2(3) refl]] show ?case by (simp add: Let_def)
qed (rule none)

lemma find_message_cases:
  assumes s1: "message_at D s1 = (\<lambda>i. keep_live a q now (message_at D s i))"
    and some: "\<And>k m. message_at D s k = Some m \<Longrightarrow> message_key a q i m \<Longrightarrow> now < expirationTime m \<Longrightarrow>
      message_at D s1 k = Some m \<Longrightarrow> Q (Some (k, m)) s1"
    and none: "\<forall>k m. message_at D s k = Some m \<longrightarrow> message_key a q i m \<longrightarrow> expirationTime m \<le> now \<Longrightarrow> Q None s1"
  shows "wp (find_message D a q i) Q R s1"
  unfolding find_message_def
proof (rule ms.wp_findOne)
  fix k m assume get: "get_doc (MESSAGES_COLLECTION D) (messages s1) k = Some m" and key: "message_key a q i m"
  have at: "message_at D s1 k = Some m" using get by (simp add: message_at_def)
  then have "message_at D s k = Some m \<and> \<not> (in_queue a q m \<and> expirationTime m \<le> now)"
    unfolding s1 by (auto simp: keep_live_def split: option.splits if_splits)
  then show "Q (Some (k, m)) s1" using some [of k m] key at by (simp add: message_key_def)
next
  assume no: "\<forall>k m. get_doc (MESSAGES_COLLECTION D) (messages s1) k = Some m \<longrightarrow> \<not> message_key a q i m"
  show "Q None s1"
  proof (rule none, intro allI impI)
    fix k m assume m: "message_at D s k = Some m" "message_key a q i m"
    show "expirationTime m \<le> now"
    proof (rule ccontr)
      assume "\<not> expirationTime m \<le> now"
      then have "message_at D s1 k = Some m" unfolding s1 by (simp add: keep_live_def m)
      then show False using no m(2) by (simp add: message_at_def)
    qed
  qed
qed

end

section \<open>The invariant\<close>

text \<open>Messages keep their identity: the documents of the second view are, up to the fields that
  may change, documents of the first.\<close>

definition same_id :: "MessageModel \<Rightarrow> MessageModel \<Rightarrow> bool" where
  "same_id m k \<longleftrightarrow> msg_accountName m = msg_accountName k \<and> queueName m = queueName k \<and> messageId m = messageId k"

lemma same_id_simps [simp]:
  "same_id m m" "same_id (dequeued t r m) m"
  "same_id (m\<lparr>popReceipt := r, timeNextVisible := t, msg_persistency := c\<rparr>) m"
  by (simp_all add: same_id_def dequeued_def)

lemma keep_live_Some: "keep_live a q now x = Some m \<Longrightarrow> x = Some m"
  by (auto simp: keep_live_def split: option.splits if_splits)

lemma queue_inv_sub:
  assumes inv: "queue_inv D s" and q: "queues s1 = queues s"
    and sub: "\<And>i m. message_at D s1 i = Some m \<Longrightarrow> \<exists>k. message_at D s i = Some k \<and> same_id m k"
  shows "queue_inv D s1"
proof -
  have qa: "queue_at D s1 = queue_at D s" by (simp add: queue_at_def q)
  have hq: "has_queue D s1 = has_queue D s" by (simp add: has_queue_def qa fun_eq_iff)
  have msgs: "has_queue D s (msg_accountName m) (queueName m)" if "message_at D s1 i = Some m" for i m
    using sub [OF that] inv by (auto simp: same_id_def queue_inv_def)
  have uniq: "i = j" if at: "message_at D s1 i = Some m" "message_at D s1 j = Some k"
      "message_key (msg_accountName m) (queueName m) (messageId m) k" for i j m k
  proof -
    obtain m' k' where "message_at D s i = Some m'" "same_id m m'" "message_at D s j = Some k'" "same_id k k'"
      using sub at(1,2) by blast
    moreover from this have "message_key (msg_accountName m') (queueName m') (messageId m') k'"
      using at(3) by (simp add: same_id_def message_key_def in_queue_def)
    ultimately show ?thesis using inv by (auto simp: queue_inv_def)
  qed
  show ?thesis
    unfolding queue_inv_def qa hq using msgs uniq inv by (simp add: queue_inv_def)
qed

lemma queue_invD:
  assumes "queue_inv D s"
  shows "message_at D s i = Some m \<Longrightarrow> has_queue D s (msg_accountName m) (queueName m)"
    and "message_at D s i = Some m \<Longrightarrow> message_at D s j = Some k \<Longrightarrow> message_key a q x m \<Longrightarrow> message_key a q x k \<Longrightarrow> i = j"
  using assms by (auto simp: queue_inv_def message_key_def in_queue_def)

context queue_collections
begin

lemma getMessages_inv:
  assumes "queue_inv D s"
  shows "wp (getMessages D now a q t r (Some n) (Some qt)) (\<lambda>_. queue_inv D) (\<lambda>_ s1. s1 = s) s"
proof (rule wp_getMessages, goal_cases)
  case (2 docs s1)
  show ?case
  proof (rule queue_inv_sub [OF assms 2(2)])
    fix i m assume m: "message_at D s1 i = Some m"
    show "\<exists>k. message_at D s i = Some k \<and> same_id m k"
    proof (cases "map_of docs i")
      case None
      then have "message_at D s i = Some m" using m keep_live_Some by (simp add: 2(3))
      then show ?thesis by simp
    next
      case (Some k)
      then have "live_message D a q now qt s (i, k)" using 2(5) map_of_SomeD by fast
      then show ?thesis using Some m by (simp add: live_message_def 2(3)) (metis same_id_simps(2))
    qed
  qed
qed simp

lemma clear_inv:
  assumes "queue_inv D s" "queues s1 = queues s" "message_at D s1 = (\<lambda>i. keep_live a q now (message_at D s i))"
  shows "queue_inv D s1"
proof (rule queue_inv_sub [OF assms(1,2)])
  fix i m assume "message_at D s1 i = Some m"
  then have "message_at D s i = Some m" by (simp add: assms(3) keep_live_Some)
  then show "\<exists>k. message_at D s i = Some k \<and> same_id m k" by simp
qed

lemma peekMessages_inv:
  assumes "queue_inv D s"
  shows "wp (peekMessages D now a q n (Some qt)) (\<lambda>_. queue_inv D) (\<lambda>_ s1. s1 = s) s"
  by (rule wp_peekMessages) (simp_all add: clear_inv [OF assms])

lemma deleteMessage_inv:
  assumes inv: "queue_inv D s"
  shows "wp (deleteMessage D now a q i r) (\<lambda>_. queue_inv D) (\<lambda>_. queue_inv D) s"
  unfolding deleteMessage_def wp_bind
proof (rule wp_clearExpired, goal_cases)
  case (2 s1)
  note inv1 = clear_inv [OF inv 2(2,3)]
  show ?case
  proof (rule find_message_cases [OF 2(3)], goal_cases)
    case (1 k m)
    have "queue_inv D (s1\<lparr>messages := remove_doc (MESSAGES_COLLECTION D) (messages s1) k\<rparr>)"
      by (rule queue_inv_sub [OF inv1]) (auto simp: message_at_def ms.remove_get intro: same_id_simps split: if_splits)
    then show ?case using inv1 by simp
  qed (use inv1 in simp)
qed (rule inv)

lemma updateMessage_inv:
  assumes inv: "queue_inv D s"
  shows "wp (updateMessage D now u c r) (\<lambda>_. queue_inv D) (\<lambda>_. queue_inv D) s"
  unfolding updateMessage_def wp_bind
proof (rule wp_clearExpired, goal_cases)
  case (2 s1)
  note inv1 = clear_inv [OF inv 2(2,3)]
  show ?case
  proof (rule find_message_cases [OF 2(3)], goal_cases)
    case (1 k m)
    have put: "message_at D (s1\<lparr>messages := set_doc (MESSAGES_COLLECTION D) (messages s1) k x\<rparr>) = (message_at D s1)(k \<mapsto> x)" for x
      using 1(4) by (simp add: message_at_def ms.set_get)
    have "queue_inv D (s1\<lparr>messages := set_doc (MESSAGES_COLLECTION D) (messages s1) k x\<rparr>)" if "same_id x m" for x
    proof (rule queue_inv_sub [OF inv1])
      fix i y assume "message_at D (s1\<lparr>messages := set_doc (MESSAGES_COLLECTION D) (messages s1) k x\<rparr>) i = Some y"
      then show "\<exists>z. message_at D s1 i = Some z \<and> same_id y z"
        unfolding put using that 1(4) by (auto intro: same_id_simps split: if_splits)
    qed simp
    then show ?case using inv1 by (simp add: put_message_def)
  qed (use inv1 in simp)
qed (rule inv)

lemma clearMessages_inv:
  assumes inv: "queue_inv D s"
  shows "wp (clearMessages D a q) (\<lambda>_. queue_inv D) (\<lambda>_ s1. s1 = s) s"
  unfolding clearMessages_def wp_bind
  by (rule wp_checkQueueExist)
    (auto simp: remove_messages_def messages_removed intro!: queue_inv_sub [OF inv] intro: same_id_simps
      split: option.splits if_splits)

lemma insertMessage_inv:
  assumes inv: "queue_inv D s" and new: "\<forall>i k. message_at D s i = Some k \<longrightarrow> messageId k \<noteq> messageId m"
  shows "wp (insertMessage D m) (\<lambda>_. queue_inv D) (\<lambda>_ s1. s1 = s) s"
  unfolding insertMessage_def wp_bind
proof (rule wp_checkQueueExist)
  assume has: "has_queue D s (msg_accountName m) (queueName m)"
  obtain i where "get_doc (MESSAGES_COLLECTION D) (insert_doc (MESSAGES_COLLECTION D) (messages s) (messageCopy m)) =
      (get_doc (MESSAGES_COLLECTION D) (messages s))(i \<mapsto> messageCopy m)"
    by (rule ms.insert_getE)
  then have i: "message_at D (s\<lparr>messages := insert_doc (MESSAGES_COLLECTION D) (messages s) (messageCopy m)\<rparr>) =
      (message_at D s)(i \<mapsto> messageCopy m)" by (simp add: message_at_def)
  have "queue_inv D (s\<lparr>messages := insert_doc (MESSAGES_COLLECTION D) (messages s) (messageCopy m)\<rparr>)"
    using inv new has
    by (simp add: queue_inv_def i) (metis (no_types, lifting) message_key_def messageCopy_def MessageUpdateProperties.select_convs(1-3) in_queue_def)
  then show "wp (update_op (\<lambda>s. s\<lparr>messages := insert_doc (MESSAGES_COLLECTION D) (messages s) (messageCopy m)\<rparr>))
      (\<lambda>_. queue_inv D) (\<lambda>_ s1. s1 = s) s" by simp
qed simp

lemma setQueue_inv:
  assumes inv: "queue_inv D s" and q: "queue_at D s i = Some x" "q_accountName y = q_accountName x" "q_name y = q_name x"
  shows "queue_inv D (s\<lparr>queues := set_doc (QUEUES_COLLECTION D) (queues s) i y\<rparr>)"
proof -
  have at: "queue_at D (s\<lparr>queues := set_doc (QUEUES_COLLECTION D) (queues s) i y\<rparr>) = (queue_at D s)(i \<mapsto> y)"
    using q(1) by (simp add: queue_at_def qs.set_get)
  have key: "queue_key a n y = queue_key a n x" for a n using q by (simp add: queue_key_def)
  have has: "has_queue D (s\<lparr>queues := set_doc (QUEUES_COLLECTION D) (queues s) i y\<rparr>) a n" if "has_queue D s a n" for a n
    using that q(1) key unfolding has_queue_def at by (metis fun_upd_other fun_upd_same option.inject)
  show ?thesis
    using inv q key has unfolding queue_inv_def at by (auto simp: queue_key_def split: if_splits)
qed

lemma queue_updates_inv:
  assumes "queue_inv D s"
  shows "wp (setQueueACL D a q acl) (\<lambda>_. queue_inv D) (\<lambda>_ s1. s1 = s) s"
    "wp (setQueueMetadata D a q md) (\<lambda>_. queue_inv D) (\<lambda>_ s1. s1 = s) s"
  unfolding setQueueACL_def setQueueMetadata_def wp_bind
  by (rule wp_find_queue; simp add: put_queue_def setQueue_inv [OF assms])+

lemma createQueue_inv:
  assumes inv: "queue_inv D s"
  shows "wp (createQueue D x) (\<lambda>_. queue_inv D) (\<lambda>_ s1. s1 = s) s"
  unfolding createQueue_def wp_bind
proof (rule wp_find_queue, goal_cases)
  case 1
  let ?s = "s\<lparr>queues := insert_doc (QUEUES_COLLECTION D) (queues s) x\<rparr>"
  obtain i where "get_doc (QUEUES_COLLECTION D) (insert_doc (QUEUES_COLLECTION D) (queues s) x) =
      (get_doc (QUEUES_COLLECTION D) (queues s))(i \<mapsto> x)" "get_doc (QUEUES_COLLECTION D) (queues s) i = None"
    by (rule qs.insert_getE)
  then have i: "queue_at D ?s = (queue_at D s)(i \<mapsto> x)" and new: "queue_at D s i = None"
    by (simp_all add: queue_at_def)
  have has: "has_queue D ?s a n" if "has_queue D s a n" for a n
    using that new unfolding has_queue_def i by (metis fun_upd_other option.distinct(1))
  have other: "\<not> queue_key (q_accountName x) (q_name x) y" if "queue_at D s j = Some y" for j y
    using 1 that by (auto simp: has_queue_def)
  have "queue_inv D ?s"
    unfolding queue_inv_def i
  proof (intro conjI allI impI)
    show "j = k" if "((queue_at D s)(i \<mapsto> x)) j = Some y" "((queue_at D s)(i \<mapsto> x)) k = Some z"
      "queue_key (q_accountName y) (q_name y) z" for j k y z
    proof (cases "j = i \<or> k = i")
      case True
      then show ?thesis
        using that other [of k z] other [of j y] by (auto simp: queue_key_def split: if_splits)
    next
      case False
      then show ?thesis using that inv by (auto simp: queue_inv_def)
    qed
    show "has_queue D ?s (msg_accountName m) (queueName m)" if "message_at D ?s j = Some m" for j m
      using that inv by (intro has) (simp add: queue_inv_def)
    show "j = k" if "message_at D ?s j = Some m" "message_at D ?s k = Some m'"
      "message_key (msg_accountName m) (queueName m) (messageId m) m'" for j k m m'
      using that inv by (simp add: queue_inv_def)
  qed
  then show ?case by simp
qed (use inv in \<open>auto split: option.splits\<close>)

lemma deleteQueue_inv:
  assumes inv: "queue_inv D s"
  shows "wp (deleteQueue D a q) (\<lambda>_. queue_inv D) (\<lambda>_ s1. s1 = s) s"
  unfolding deleteQueue_def wp_bind
proof (rule wp_find_queue, goal_cases)
  case (2 i x)
  let ?s1 = "s\<lparr>queues := remove_doc (QUEUES_COLLECTION D) (queues s) i\<rparr>"
  let ?s = "?s1\<lparr>messages := findAndRemove (MESSAGES_COLLECTION D) (messages ?s1) (in_queue a q)\<rparr>"
  have qa: "queue_at D ?s = (queue_at D s)(i := None)" by (simp add: queue_at_def qs.remove_get)
  have ma: "message_at D s j = Some m \<and> \<not> in_queue a q m" if "message_at D ?s j = Some m" for j m
    using that unfolding messages_removed by (auto split: option.splits if_splits)
  have has: "has_queue D ?s b n" if "has_queue D s b n" "\<not> (b = a \<and> n = q)" for b n
    using that 2 unfolding has_queue_def qa by (metis fun_upd_other option.inject queue_key_def)
  have "queue_inv D ?s"
    unfolding queue_inv_def
  proof (intro conjI allI impI)
    show "j = k" if "message_at D ?s j = Some m" "message_at D ?s k = Some m'"
      "message_key (msg_accountName m) (queueName m) (messageId m) m'" for j k m m'
      using ma [OF that(1)] ma [OF that(2)] that(3) inv by (auto simp: queue_inv_def)
    show "has_queue D ?s (msg_accountName m) (queueName m)" if "message_at D ?s j = Some m" for j m
      using ma [OF that] queue_invD(1) [OF inv] by (intro has) (auto simp: in_queue_def)
    show "j = k" if "queue_at D ?s j = Some y" "queue_at D ?s k = Some z" "queue_key (q_accountName y) (q_name y) z" for j k y z
      using that inv unfolding qa by (auto simp: queue_inv_def split: if_splits)
  qed
  then show ?case by (simp add: remove_messages_def)
qed simp

end

context queue_collections
begin

lemma updateServiceProperties_same:
  "wp (updateServiceProperties D u) (\<lambda>_ s1. queues s1 = queues s \<and> messages s1 = messages s) (\<lambda>_ _. False) s"
  by (simp add: updateServiceProperties_def)

lemma queue_inv_cong:
  "queues s1 = queues s \<and> messages s1 = messages s \<Longrightarrow> queue_inv D s \<Longrightarrow> queue_inv D s1"
  by (rule queue_inv_sub) (auto simp: message_at_def intro: same_id_simps)

lemma exec_request_inv:
  assumes inv: "queue_inv D s" and new: "fresh_request D r s"
  shows "queue_inv D (snd (exec_request D r s))"
proof -
  have keep: "wp m (\<lambda>_. queue_inv D) (\<lambda>_. queue_inv D) s" if "wp m (\<lambda>_. queue_inv D) (\<lambda>_ s1. s1 = s) s"
    for m :: "(('sc, 'qc, 'mc) queue_store, 'z) store_op"
    by (rule wp_mono [OF that]) (use inv in auto)
  have "wp (exec_request D r) (\<lambda>_. queue_inv D) (\<lambda>_. queue_inv D) s"
  proof (cases r)
    case (InsertMessage m)
    then have "wp (insertMessage D m) (\<lambda>_. queue_inv D) (\<lambda>_ s1. s1 = s) s"
      using new by (intro insertMessage_inv [OF inv]) (auto simp: fresh_request_def)
    then show ?thesis using InsertMessage by (simp add: keep)
  next
    case (UpdateServiceProperties u)
    then show ?thesis
      using wp_mono [OF updateServiceProperties_same queue_inv_cong [OF _ inv]] by simp
  qed (simp_all add: keep createQueue_inv deleteQueue_inv queue_updates_inv peekMessages_inv
      getMessages_inv deleteMessage_inv updateMessage_inv clearMessages_inv inv)
  then show ?thesis by (simp add: wp_state)
qed

lemma run_requests_inv:
  "queue_inv D s \<Longrightarrow> fresh_run D rs s \<Longrightarrow> queue_inv D (snd (run_requests D rs s))"
  by (induction rs arbitrary: s) (simp_all add: exec_request_inv split: prod.splits, metis exec_request_inv snd_conv)

end

text \<open>
  C33: Whatever requests a queue store has served since it was empty, successful or not: no two queues
  have the same account and name, every message belongs to a queue that exists, and no two messages
  of a queue have the same identifier (given that new identifiers are not in use).
\<close>

theorem queue_store_invariant:
  assumes "queue_collections D" and "\<And>i. queue_at D s0 i = None" "\<And>i. message_at D s0 i = None"
    and "fresh_run D rs s0"
  shows "queue_inv D (snd (run_requests D rs s0))"
  by (rule queue_collections.run_requests_inv [OF assms(1) _ assms(4)]) (simp add: queue_inv_def assms(2,3))

definition sample_queue :: QueueModel where
  "sample_queue = \<lparr>q_accountName = ''acc'', q_name = ''work'', q_metadata = None, q_queueAcl = None\<rparr>"

definition sample_message :: "string \<Rightarrow> int \<Rightarrow> MessageModel" where
  "sample_message i t = \<lparr>msg_accountName = ''acc'', queueName = ''work'', messageId = i, popReceipt = ''p0'',
     timeNextVisible = t, insertionTime = t, expirationTime = t + 604800000, dequeueCount = 0,
     msg_persistency = \<lparr>chunk_id = ''e'', chunk_offset = 0, chunk_count = 0\<rparr>\<rparr>"

lemmas list_queue_simps = list_queue_db_def empty_queue_store_def list_collection_simps

theorem queue_store_invariant_witness:
  "queue_inv list_queue_db (snd (run_requests list_queue_db
     [CreateQueue sample_queue, InsertMessage (sample_message ''m1'' 5), InsertMessage (sample_message ''m2'' 3)]
     empty_queue_store))"
  by (rule queue_store_invariant [OF list_queues.queue_collections_axioms])
    (simp_all add: queue_at_def message_at_def list_queue_simps fresh_request_def createQueue_def insertMessage_def
      find_queue_def checkQueueExist_def op_defs sample_queue_def sample_message_def queue_key_def messageCopy_def
      nth_Cons split: nat.splits)

section \<open>Dequeuing\<close>

text \<open>What a dequeue takes, and the store after it.\<close>

definition earliest ::
  "('sc, 'qc, 'mc) queue_db \<Rightarrow> string \<Rightarrow> string \<Rightarrow> int \<Rightarrow> int \<Rightarrow> int \<Rightarrow> ('sc, 'qc, 'mc) queue_store \<Rightarrow>
   (nat \<times> MessageModel) list \<Rightarrow> bool" where
  "earliest D a q now qt n s docs \<longleftrightarrow> sorted_wrt before docs \<and>
     (\<forall>x \<in> set docs. live_message D a q now qt s x) \<and>
     length docs = min (nat (max 1 n)) (card {x. live_message D a q now qt s x}) \<and>
     (\<forall>x y. x \<in> set docs \<longrightarrow> live_message D a q now qt s y \<longrightarrow> y \<in> set docs \<or> before x y)"

definition after_dequeue ::
  "('sc, 'qc, 'mc) queue_db \<Rightarrow> string \<Rightarrow> string \<Rightarrow> int \<Rightarrow> int \<Rightarrow> string \<Rightarrow> (nat \<times> MessageModel) list \<Rightarrow>
   ('sc, 'qc, 'mc) queue_store \<Rightarrow> nat \<Rightarrow> MessageModel option" where
  "after_dequeue D a q now t r docs s = (\<lambda>i. case map_of docs i of
     Some m \<Rightarrow> Some (dequeued t r m) | None \<Rightarrow> keep_live a q now (message_at D s i))"

context queue_collections
begin

lemma wp_getMessages_earliest:
  "wp (getMessages D now a q t r (Some n) (Some qt))
     (\<lambda>res s1. has_queue D s a q \<and> (\<exists>docs. res = map (messageCopy \<circ> dequeued t r \<circ> snd) docs \<and>
        earliest D a q now qt n s docs \<and> queues s1 = queues s \<and>
        message_at D s1 = after_dequeue D a q now t r docs s))
     (\<lambda>e s1. \<not> has_queue D s a q \<and> e = getQueueNotFound \<and> s1 = s) s"
  unfolding earliest_def after_dequeue_def by (rule wp_getMessages) blast+

lemma getMessages_earliest:
  "if has_queue D s a q then
     \<exists>docs s1. getMessages D now a q t r (Some n) (Some qt) s = (Inr (map (messageCopy \<circ> dequeued t r \<circ> snd) docs), s1) \<and>
       earliest D a q now qt n s docs \<and> message_at D s1 = after_dequeue D a q now t r docs s
   else getMessages D now a q t r (Some n) (Some qt) s = (Inl getQueueNotFound, s)"
  using wp_getMessages_earliest [of now a q t r n qt s] unfolding wp_def by (auto split: prod.splits sum.splits)

end

text \<open>
  C34: A dequeue hands out the messages that are due first: among the messages of the queue that are
  not expired and visible at the time of the request, the first \<open>n\<close> in the order of the time at which
  they became visible and then of their insertion, and all of them if there are fewer. Exactly these
  are marked (new visibility time, new pop receipt, count plus one), the expired messages of the queue
  are removed, and every other message is left as it was. A queue that does not exist is reported.
\<close>

theorem dequeue_earliest_visible:
  assumes "queue_collections D"
  shows "if has_queue D s a q then
      \<exists>docs s1. getMessages D now a q t r (Some n) (Some qt) s = (Inr (map (messageCopy \<circ> dequeued t r \<circ> snd) docs), s1) \<and>
        earliest D a q now qt n s docs \<and> message_at D s1 = after_dequeue D a q now t r docs s
    else getMessages D now a q t r (Some n) (Some qt) s = (Inl getQueueNotFound, s)"
  using assms by (rule queue_collections.getMessages_earliest)

definition sample_store ::
  "(ServicePropertiesModel list_coll, QueueModel list_coll, MessageModel list_coll) queue_store" where
  "sample_store = snd (run_requests list_queue_db
     [CreateQueue sample_queue, InsertMessage (sample_message ''m1'' 5), InsertMessage (sample_message ''m2'' 3),
      InsertMessage (sample_message ''m3'' 900)] empty_queue_store)"

lemma sample_store_value:
  "sample_store = \<lparr>services = [], queues = [Some sample_queue], messages = [Some (sample_message ''m1'' 5),
     Some (sample_message ''m2'' 3), Some (sample_message ''m3'' 900)]\<rparr>"
  by code_simp

theorem dequeue_earliest_visible_witness:
  "\<exists>docs s1. getMessages list_queue_db 10 ''acc'' ''work'' 40 ''p1'' (Some 2) (Some 10) sample_store =
       (Inr (map (messageCopy \<circ> dequeued 40 ''p1'' \<circ> snd) docs), s1) \<and>
     earliest list_queue_db ''acc'' ''work'' 10 10 2 sample_store docs \<and>
     message_at list_queue_db s1 = after_dequeue list_queue_db ''acc'' ''work'' 10 40 ''p1'' docs sample_store"
proof -
  have "has_queue list_queue_db sample_store ''acc'' ''work''"
    by (auto simp: has_queue_def queue_at_def sample_store_value list_queue_simps sample_queue_def queue_key_def
        intro: exI [of _ 0])
  then show ?thesis
    using dequeue_earliest_visible [OF list_queues.queue_collections_axioms, of sample_store "''acc''" "''work''" 10 40 "''p1''" 2 10]
    by simp
qed

text \<open>
  A run of requests leaves a dequeued message alone if it looks at its queue only at times before the
  message becomes visible again, updates the message only with another pop receipt, and inserts no
  message with its identifier.
\<close>

fun leaves_alone :: "string \<Rightarrow> string \<Rightarrow> string \<Rightarrow> string \<Rightarrow> int \<Rightarrow> queue_request \<Rightarrow> bool" where
  "leaves_alone a q i r t (GetMessages now a' q' t' r' n qt) = (a' = a \<and> q' = q \<longrightarrow> qt < t)"
| "leaves_alone a q i r t (PeekMessages now a' q' n qt) = (a' = a \<and> q' = q \<longrightarrow> qt < t)"
| "leaves_alone a q i r t (UpdateMessage now u c r') =
     (msg_accountName u = a \<and> queueName u = q \<and> messageId u = i \<longrightarrow> r' \<noteq> r)"
| "leaves_alone a q i r t (InsertMessage m) = (\<not> message_key a q i m)"
| "leaves_alone a q i r t _ = True"

definition held ::
  "('sc, 'qc, 'mc) queue_db \<Rightarrow> string \<Rightarrow> string \<Rightarrow> string \<Rightarrow> string \<Rightarrow> int \<Rightarrow> ('sc, 'qc, 'mc) queue_store \<Rightarrow> bool" where
  "held D a q i r t s \<longleftrightarrow> (\<forall>k m. message_at D s k = Some m \<longrightarrow> message_key a q i m \<longrightarrow>
     t \<le> timeNextVisible m \<and> popReceipt m = r)"

lemma held_sub:
  assumes "held D a q i r t s"
    and "\<And>k m. message_at D s1 k = Some m \<Longrightarrow> message_key a q i m \<Longrightarrow> \<exists>j. message_at D s j = Some m"
  shows "held D a q i r t s1"
  using assms unfolding held_def by blast

lemma message_key_copy [simp]:
  "message_key a q i (messageCopy m) = message_key a q i m"
  "message_key a q i (dequeued t r m) = message_key a q i m"
  by (simp_all add: message_key_def in_queue_def messageCopy_def dequeued_def)

definition hidden ::
  "('sc, 'qc, 'mc) queue_db \<Rightarrow> string \<Rightarrow> string \<Rightarrow> string \<Rightarrow> string \<Rightarrow> int \<Rightarrow> MessageModel list \<Rightarrow>
   ('sc, 'qc, 'mc) queue_store \<Rightarrow> bool" where
  "hidden D a q i r t out s \<longleftrightarrow> held D a q i r t s \<and> (\<forall>m \<in> set out. \<not> message_key a q i m)"

context queue_collections
begin

lemma held_keep_live:
  "held D a q i r t s \<Longrightarrow> message_at D s1 = (\<lambda>k. keep_live a' q' now (message_at D s k)) \<Longrightarrow> held D a q i r t s1"
  by (erule held_sub) (auto dest: keep_live_Some)

lemma live_not_held:
  assumes "held D a q i r t s" "live_message D a' q' now qt s x" "a' = a \<and> q' = q \<longrightarrow> qt < t"
  shows "\<not> message_key a q i (snd x)"
  using assms by (fastforce simp: held_def live_message_def message_key_def in_queue_def)

lemma hidden_getMessages:
  assumes held: "held D a q i r t s" and time: "a' = a \<and> q' = q \<longrightarrow> qt < t"
  shows "wp (getMessages D now a' q' t' r' (Some n) (Some qt)) (hidden D a q i r t) (\<lambda>_. held D a q i r t) s"
proof (rule wp_getMessages, goal_cases)
  case (2 docs s1)
  have none: "\<not> message_key a q i (snd x)" if "x \<in> set docs" for x
    using live_not_held [OF held _ time] 2(5) that by blast
  have "held D a q i r t s1"
  proof (rule held_sub [OF held])
    fix k m assume m: "message_at D s1 k = Some m" and key: "message_key a q i m"
    have "map_of docs k = None"
      using m key none [of "(k, the (map_of docs k))"] map_of_SomeD [of docs k]
      by (cases "map_of docs k") (auto simp: 2(3))
    then show "\<exists>j. message_at D s j = Some m"
      using m keep_live_Some [of a' q' now "message_at D s k" m] by (auto simp: 2(3))
  qed
  then show ?case using none by (auto simp: hidden_def)
qed (use held in simp)

lemma hidden_peekMessages:
  assumes held: "held D a q i r t s" and time: "a' = a \<and> q' = q \<longrightarrow> qt < t"
  shows "wp (peekMessages D now a' q' n (Some qt)) (hidden D a q i r t) (\<lambda>_. held D a q i r t) s"
proof (rule wp_peekMessages, goal_cases)
  case (2 docs s1)
  then show ?case using live_not_held [OF held _ time] held_keep_live [OF held] by (fastforce simp: hidden_def)
qed (use held in simp)

lemma held_deleteMessage:
  assumes held: "held D a q i r t s"
  shows "wp (deleteMessage D now a' q' i' r') (\<lambda>_. held D a q i r t) (\<lambda>_. held D a q i r t) s"
  unfolding deleteMessage_def wp_bind
proof (rule wp_clearExpired, goal_cases)
  case (2 s1)
  note h1 = held_keep_live [OF held 2(3)]
  show ?case
  proof (rule find_message_cases [OF 2(3)], goal_cases)
    case (1 k m)
    have "held D a q i r t (s1\<lparr>messages := remove_doc (MESSAGES_COLLECTION D) (messages s1) k\<rparr>)"
      by (rule held_sub [OF h1]) (auto simp: message_at_def ms.remove_get split: if_splits)
    then show ?case using h1 by simp
  qed (use h1 in simp)
qed (rule held)

lemma held_updateMessage:
  assumes held: "held D a q i r t s"
    and other: "msg_accountName u = a \<and> queueName u = q \<and> messageId u = i \<longrightarrow> r' \<noteq> r"
  shows "wp (updateMessage D now u c r') (\<lambda>_. held D a q i r t) (\<lambda>_. held D a q i r t) s"
  unfolding updateMessage_def wp_bind
proof (rule wp_clearExpired, goal_cases)
  case (2 s1)
  note h1 = held_keep_live [OF held 2(3)]
  show ?case
  proof (rule find_message_cases [OF 2(3)], goal_cases)
    case (1 k m)
    let ?m = "m\<lparr>popReceipt := popReceipt u, timeNextVisible := timeNextVisible u,
      msg_persistency := (case c of None \<Rightarrow> msg_persistency m | Some x \<Rightarrow> x)\<rparr>"
    let ?s2 = "s1\<lparr>messages := set_doc (MESSAGES_COLLECTION D) (messages s1) k ?m\<rparr>"
    have at: "message_at D ?s2 = (message_at D s1)(k \<mapsto> ?m)" using 1(4) by (simp add: message_at_def ms.set_get)
    have "held D a q i r t ?s2" if "popReceipt m = r'"
    proof (rule held_sub [OF h1])
      fix j x assume x: "message_at D ?s2 j = Some x" and key: "message_key a q i x"
      have "j \<noteq> k"
      proof
        assume "j = k"
        then have "x = ?m" using x at by simp
        then have "message_key a q i m" using key by (simp add: message_key_def in_queue_def)
        then show False using h1 1(2,4) other that by (fastforce simp: held_def message_key_def in_queue_def)
      qed
      then show "\<exists>j. message_at D s1 j = Some x" using x at by auto
    qed
    then show ?case using h1 by (simp add: put_message_def)
  qed (use h1 in simp)
qed (rule held)

lemma held_removed: "held D a q i r t s \<Longrightarrow>
    held D a q i r t (s\<lparr>messages := findAndRemove (MESSAGES_COLLECTION D) (messages s) p\<rparr>)"
  by (erule held_sub) (auto simp: messages_removed split: option.splits if_splits)

lemma held_cong: "messages s1 = messages s \<Longrightarrow> held D a q i r t s \<Longrightarrow> held D a q i r t s1"
  by (simp add: held_def message_at_def)

lemma held_insertMessage:
  assumes held: "held D a q i r t s" and new: "\<not> message_key a q i m"
  shows "wp (insertMessage D m) (\<lambda>_. held D a q i r t) (\<lambda>_. held D a q i r t) s"
  unfolding insertMessage_def wp_bind
proof (rule wp_checkQueueExist)
  let ?s = "s\<lparr>messages := insert_doc (MESSAGES_COLLECTION D) (messages s) (messageCopy m)\<rparr>"
  obtain k where "get_doc (MESSAGES_COLLECTION D) (insert_doc (MESSAGES_COLLECTION D) (messages s) (messageCopy m)) =
      (get_doc (MESSAGES_COLLECTION D) (messages s))(k \<mapsto> messageCopy m)"
    by (rule ms.insert_getE)
  then have k: "message_at D ?s = (message_at D s)(k \<mapsto> messageCopy m)" by (simp add: message_at_def)
  have "held D a q i r t ?s"
    by (rule held_sub [OF held]) (use new in \<open>auto simp: k split: if_splits\<close>)
  then show "wp (update_op (\<lambda>s. s\<lparr>messages := insert_doc (MESSAGES_COLLECTION D) (messages s) (messageCopy m)\<rparr>))
      (\<lambda>_. held D a q i r t) (\<lambda>_. held D a q i r t) s" by simp
qed (rule held)

lemma exec_request_hidden:
  assumes held: "held D a q i r t s" and "leaves_alone a q i r t req"
  shows "wp (exec_request D req) (hidden D a q i r t) (\<lambda>_. held D a q i r t) s"
proof -
  have out: "wp m (\<lambda>_. hidden D a q i r t []) (\<lambda>_. held D a q i r t) s"
    if "wp m (\<lambda>_. held D a q i r t) (\<lambda>_. held D a q i r t) s" for m :: "(('sc, 'qc, 'mc) queue_store, 'z) store_op"
    using that by (simp add: hidden_def [abs_def])
  have queues: "held D a q i r t (s\<lparr>queues := x\<rparr>)" "held D a q i r t (s\<lparr>services := y\<rparr>)" for x y
    using held by (simp_all add: held_def)
  show ?thesis
  proof (cases req)
    case (CreateQueue x)
    have "wp (createQueue D x) (\<lambda>_. held D a q i r t) (\<lambda>_. held D a q i r t) s"
      unfolding createQueue_def wp_bind
      by (rule wp_find_queue) (use held queues in \<open>auto split: option.splits\<close>)
    then show ?thesis using CreateQueue out by simp
  next
    case (DeleteQueue a' q')
    have "wp (deleteQueue D a' q') (\<lambda>_. held D a q i r t) (\<lambda>_. held D a q i r t) s"
      unfolding deleteQueue_def wp_bind
      by (rule wp_find_queue) (use held held_removed [OF queues(1)] in \<open>auto simp: remove_messages_def\<close>)
    then show ?thesis using DeleteQueue out by simp
  next
    case (SetQueueACL a' q' acl)
    have "wp (setQueueACL D a' q' acl) (\<lambda>_. held D a q i r t) (\<lambda>_. held D a q i r t) s"
      unfolding setQueueACL_def wp_bind
      by (rule wp_find_queue) (use held queues in \<open>auto simp: put_queue_def\<close>)
    then show ?thesis using SetQueueACL out by simp
  next
    case (SetQueueMetadata a' q' md)
    have "wp (setQueueMetadata D a' q' md) (\<lambda>_. held D a q i r t) (\<lambda>_. held D a q i r t) s"
      unfolding setQueueMetadata_def wp_bind
      by (rule wp_find_queue) (use held queues in \<open>auto simp: put_queue_def\<close>)
    then show ?thesis using SetQueueMetadata out by simp
  next
    case (ClearMessages a' q')
    have "wp (clearMessages D a' q') (\<lambda>_. held D a q i r t) (\<lambda>_. held D a q i r t) s"
      unfolding clearMessages_def wp_bind
      by (rule wp_checkQueueExist) (use held held_removed in \<open>auto simp: remove_messages_def\<close>)
    then show ?thesis using ClearMessages out by simp
  next
    case (UpdateServiceProperties u)
    have "wp (updateServiceProperties D u) (\<lambda>_. held D a q i r t) (\<lambda>_. held D a q i r t) s"
      by (simp add: updateServiceProperties_def queues)
    then show ?thesis using UpdateServiceProperties out by simp
  next
    case (GetMessages now a' q' t' r' n qt)
    then show ?thesis using hidden_getMessages [OF held] assms(2) by simp
  next
    case (PeekMessages now a' q' n qt)
    then show ?thesis using hidden_peekMessages [OF held] assms(2) by simp
  next
    case (DeleteMessage now a' q' i' r')
    then show ?thesis using out [OF held_deleteMessage [OF held]] by simp
  next
    case (UpdateMessage now u c r')
    then show ?thesis using out [OF held_updateMessage [OF held]] assms(2) by simp
  next
    case (InsertMessage m)
    then show ?thesis using out [OF held_insertMessage [OF held]] assms(2) by simp
  qed
qed

lemma run_requests_hidden:
  assumes "held D a q i r t s" and "\<forall>req \<in> set reqs. leaves_alone a q i r t req"
  shows "\<forall>out m. Inr out \<in> set (fst (run_requests D reqs s)) \<longrightarrow> m \<in> set out \<longrightarrow> \<not> message_key a q i m"
  using assms
proof (induction reqs arbitrary: s)
  case (Cons req reqs)
  have step: "wp (exec_request D req) (hidden D a q i r t) (\<lambda>_. held D a q i r t) s"
    using Cons.prems by (intro exec_request_hidden) auto
  obtain res s1 where e: "exec_request D req s = (res, s1)" by fastforce
  then have "held D a q i r t s1" "\<And>out m. res = Inr out \<Longrightarrow> m \<in> set out \<Longrightarrow> \<not> message_key a q i m"
    using step by (auto simp: wp_def hidden_def split: sum.splits)
  then show ?case using Cons.IH [of s1] Cons.prems(2) e by (auto split: prod.splits)
qed simp

lemma dequeue_held:
  assumes inv: "queue_inv D s" and get: "getMessages D now a q t r (Some n) (Some qt) s = (Inr res, s1)"
    and m: "m \<in> set res"
  shows "held D a q (messageId m) r t s1"
proof -
  obtain docs where res: "res = map (messageCopy \<circ> dequeued t r \<circ> snd) docs"
    and docs: "earliest D a q now qt n s docs" and s1: "message_at D s1 = after_dequeue D a q now t r docs s"
    using wp_getMessages_earliest [of now a q t r n qt s] get by (auto simp: wp_def)
  obtain i d where d: "(i, d) \<in> set docs" and md: "m = messageCopy (dequeued t r d)" using m res by force
  have live: "message_at D s i = Some d" "in_queue a q d"
    using docs d by (auto simp: earliest_def live_message_def)
  have id: "messageId m = messageId d" by (simp add: md messageCopy_def dequeued_def)
  show ?thesis unfolding held_def id
  proof (intro allI impI)
    fix k x assume x: "message_at D s1 k = Some x" and key: "message_key a q (messageId d) x"
    show "t \<le> timeNextVisible x \<and> popReceipt x = r"
    proof (cases "map_of docs k")
      case None
      then have "message_at D s k = Some x" using x keep_live_Some by (simp add: s1 after_dequeue_def)
      then have "k = i" using queue_invD(2) [OF inv _ live(1) key] live(2) by (simp add: message_key_def)
      then show ?thesis using None imageI [OF d, of fst] by (simp add: map_of_eq_None_iff)
    next
      case (Some y)
      then show ?thesis using x by (auto simp: s1 after_dequeue_def dequeued_def)
    qed
  qed
qed

lemma dequeued_hidden:
  assumes "queue_inv D s" "getMessages D now a q t r (Some n) (Some qt) s = (Inr res, s1)" "m \<in> set res"
    "\<forall>req \<in> set reqs. leaves_alone a q (messageId m) r t req"
    "Inr out \<in> set (fst (run_requests D reqs s1))" "k \<in> set out"
  shows "\<not> message_key a q (messageId m) k"
  using run_requests_hidden [OF dequeue_held [OF assms(1-3)] assms(4)] assms(5,6) by blast

end

text \<open>
  C35: A dequeued message is handed out to nobody else until its new visibility time: in every later
  run of requests, whatever it creates, deletes, updates or clears, no dequeue and no peek that looks
  at the queue before that time returns the message, as long as it is not updated with the pop receipt
  that the dequeue returned.
\<close>

theorem dequeued_message_is_hidden:
  assumes "queue_collections D" and "queue_inv D s"
    and "getMessages D now a q t r (Some n) (Some qt) s = (Inr res, s1)" and "m \<in> set res"
    and "\<forall>req \<in> set reqs. leaves_alone a q (messageId m) r t req"
    and "Inr out \<in> set (fst (run_requests D reqs s1))" and "k \<in> set out"
  shows "\<not> message_key a q (messageId m) k"
  using assms by (rule queue_collections.dequeued_hidden)

lemma sample_store_inv: "queue_inv list_queue_db sample_store"
  by (auto simp: queue_inv_def sample_store_value queue_at_def message_at_def list_queue_simps has_queue_def
      sample_queue_def queue_key_def sample_message_def message_key_def nth_Cons split: nat.splits intro: exI [of _ 0])

theorem dequeued_message_is_hidden_witness:
  "{k. message_key ''acc'' ''work'' ''m2'' k} \<inter>
     set (projr (fst (run_requests list_queue_db [GetMessages 30 ''acc'' ''work'' 60 ''p2'' 32 30]
       (snd (getMessages list_queue_db 10 ''acc'' ''work'' 40 ''p1'' (Some 1) (Some 10) sample_store))) ! 0)) = {}"
proof -
  let ?g = "getMessages list_queue_db 10 ''acc'' ''work'' 40 ''p1'' (Some 1) (Some 10) sample_store"
  let ?outs = "fst (run_requests list_queue_db [GetMessages 30 ''acc'' ''work'' 60 ''p2'' 32 30] (snd ?g))"
  have g: "?g = (Inr [dequeued 40 ''p1'' (sample_message ''m2'' 3)], snd ?g)" by code_simp
  have out: "Inr (projr (?outs ! 0)) \<in> set ?outs" by code_simp
  have "\<not> message_key ''acc'' ''work'' (messageId (dequeued 40 ''p1'' (sample_message ''m2'' 3))) k"
    if "k \<in> set (projr (?outs ! 0))" for k
    by (rule dequeued_message_is_hidden [OF list_queues.queue_collections_axioms sample_store_inv g _ _ out that])
      (simp_all add: sample_message_def dequeued_def)
  then show ?thesis by (auto simp: sample_message_def dequeued_def)
qed

section \<open>Pop receipts\<close>

definition the_message ::
  "('sc, 'qc, 'mc) queue_db \<Rightarrow> int \<Rightarrow> string \<Rightarrow> string \<Rightarrow> string \<Rightarrow> ('sc, 'qc, 'mc) queue_store \<Rightarrow>
   nat \<Rightarrow> MessageModel \<Rightarrow> bool" where
  "the_message D now a q i s k m \<longleftrightarrow>
     message_at D s k = Some m \<and> message_key a q i m \<and> now < expirationTime m"

definition refused_message where
  "refused_message D now a q i r s e \<longleftrightarrow>
     \<not> has_queue D s a q \<and> e = getQueueNotFound \<or>
     has_queue D s a q \<and> (\<forall>k m. \<not> the_message D now a q i s k m) \<and> e = getMessageNotFound \<or>
     has_queue D s a q \<and> (\<exists>k m. the_message D now a q i s k m \<and> popReceipt m \<noteq> r) \<and> e = getPopReceiptMismatch"

context queue_collections
begin

lemma live_messages: "message_at D s k = Some m \<Longrightarrow> keep_live a q now (message_at D s k) = Some m \<or>
    (in_queue a q m \<and> expirationTime m \<le> now)"
  by (simp add: keep_live_def)

lemma wp_deleteMessage:
  "wp (deleteMessage D now a q i r)
     (\<lambda>_ s1. has_queue D s a q \<and> (\<exists>k m. the_message D now a q i s k m \<and> popReceipt m = r \<and>
        message_at D s1 = (\<lambda>j. keep_live a q now (message_at D s j))(k := None)))
     (\<lambda>e _. refused_message D now a q i r s e) s"
  unfolding deleteMessage_def wp_bind
proof (rule wp_clearExpired, goal_cases)
  case (2 s1)
  show ?case
  proof (rule find_message_cases [OF 2(3)], goal_cases)
    case (1 k m)
    then have m: "the_message D now a q i s k m" by (simp add: the_message_def)
    have "message_at D (s1\<lparr>messages := remove_doc (MESSAGES_COLLECTION D) (messages s1) k\<rparr>) = (message_at D s1)(k := None)"
      by (simp add: message_at_def ms.remove_get)
    with m 2 show ?case by (auto simp: refused_message_def)
  next
    case 2
    then have "\<forall>k m. \<not> the_message D now a q i s k m" by (fastforce simp: the_message_def)
    then show ?case using \<open>has_queue D s a q\<close> by (simp add: refused_message_def)
  qed
qed (simp add: refused_message_def)

lemma wp_updateMessage:
  "wp (updateMessage D now u c r)
     (\<lambda>_ s1. has_queue D s (msg_accountName u) (queueName u) \<and>
        (\<exists>k m. the_message D now (msg_accountName u) (queueName u) (messageId u) s k m \<and> popReceipt m = r \<and>
        message_at D s1 = (\<lambda>j. keep_live (msg_accountName u) (queueName u) now (message_at D s j))
          (k \<mapsto> m\<lparr>popReceipt := popReceipt u, timeNextVisible := timeNextVisible u,
            msg_persistency := (case c of None \<Rightarrow> msg_persistency m | Some x \<Rightarrow> x)\<rparr>)))
     (\<lambda>e _. refused_message D now (msg_accountName u) (queueName u) (messageId u) r s e) s"
  unfolding updateMessage_def wp_bind
proof (rule wp_clearExpired, goal_cases)
  case (2 s1)
  show ?case
  proof (rule find_message_cases [OF 2(3)], goal_cases)
    case (1 k m)
    then have m: "the_message D now (msg_accountName u) (queueName u) (messageId u) s k m" by (simp add: the_message_def)
    have "message_at D (s1\<lparr>messages := set_doc (MESSAGES_COLLECTION D) (messages s1) k x\<rparr>) = (message_at D s1)(k \<mapsto> x)" for x
      using 1(4) by (simp add: message_at_def ms.set_get)
    with m 2 show ?case by (auto simp: refused_message_def put_message_def)
  next
    case 2
    then have "\<forall>k m. \<not> the_message D now (msg_accountName u) (queueName u) (messageId u) s k m"
      by (fastforce simp: the_message_def)
    then show ?case using \<open>has_queue D s _ _\<close> by (simp add: refused_message_def)
  qed
qed (simp add: refused_message_def)

lemma deleteMessage_result:
  "case deleteMessage D now a q i r s of
     (Inr _, s1) \<Rightarrow> has_queue D s a q \<and> (\<exists>k m. the_message D now a q i s k m \<and> popReceipt m = r \<and>
        message_at D s1 = (\<lambda>j. keep_live a q now (message_at D s j))(k := None))
   | (Inl e, _) \<Rightarrow> refused_message D now a q i r s e"
  using wp_deleteMessage [of now a q i r s] by (simp add: wp_def split: prod.splits sum.splits)

end

text \<open>
  C36: A message is deleted only with its current pop receipt: \<open>deleteMessage\<close> removes exactly the one
  message it names (beside the expired messages of the queue) if the message exists, is not expired and
  the receipt matches; otherwise it answers, in this order, that the queue does not exist, that the
  message does not exist or is expired, or that the receipt does not match.
\<close>

theorem delete_needs_pop_receipt:
  assumes "queue_collections D"
  shows "case deleteMessage D now a q i r s of
     (Inr _, s1) \<Rightarrow> has_queue D s a q \<and> (\<exists>k m. the_message D now a q i s k m \<and> popReceipt m = r \<and>
        message_at D s1 = (\<lambda>j. keep_live a q now (message_at D s j))(k := None))
   | (Inl e, _) \<Rightarrow> refused_message D now a q i r s e"
  using assms by (rule queue_collections.deleteMessage_result)

theorem delete_needs_pop_receipt_witness:
  "refused_message list_queue_db 10 ''acc'' ''work'' ''m1'' ''stale'' sample_store
     (projl (fst (deleteMessage list_queue_db 10 ''acc'' ''work'' ''m1'' ''stale'' sample_store)))"
proof -
  have "deleteMessage list_queue_db 10 ''acc'' ''work'' ''m1'' ''stale'' sample_store =
      (Inl getPopReceiptMismatch, sample_store)" by code_simp
  with delete_needs_pop_receipt [OF list_queues.queue_collections_axioms, of 10 "''acc''" "''work''" "''m1''" "''stale''" sample_store]
  show ?thesis by simp
qed

section \<open>Creating and listing queues\<close>

text \<open>Metadata names are header names: two entries of an object do not differ in case only.\<close>

definition names_distinct :: "queue_metadata \<Rightarrow> bool" where
  "names_distinct md \<longleftrightarrow> distinct (map (toLowerCase \<circ> fst) md)"

definition lower_names :: "queue_metadata \<Rightarrow> (string \<times> string) set" where
  "lower_names md = (\<lambda>(k, v). (toLowerCase k, v)) ` set md"

lemma name_map_distinct:
  assumes "names_distinct md"
  shows "name_map md l = Some k \<longleftrightarrow> l = toLowerCase k \<and> k \<in> fst ` set md"
proof -
  have "distinct (map fst (rev (map (\<lambda>(item, _). (toLowerCase item, item)) md)))"
    using assms by (simp add: names_distinct_def comp_def case_prod_unfold flip: rev_map)
  then have "name_map md l = Some k \<longleftrightarrow> (l, k) \<in> set (map (\<lambda>(item, _). (toLowerCase item, item)) md)"
    unfolding name_map_def by (simp add: map_of_eq_Some_iff)
  then show ?thesis by (force simp: image_iff)
qed

lemma same_metadata_iff:
  assumes q: "names_distinct qm" and d: "names_distinct dm" and "length qm = length dm"
  shows "same_metadata qm dm \<longleftrightarrow> lower_names qm = lower_names dm"
proof -
  have dk: "distinct (map fst md)" if "names_distinct md" for md
    using that unfolding names_distinct_def by (metis distinct_map map_map)
  have sub: "same_metadata qm dm \<longleftrightarrow> lower_names dm \<subseteq> lower_names qm"
  proof -
    have "(case name_map qm (toLowerCase item) of None \<Rightarrow> False | Some k \<Rightarrow> Some v = map_of qm k) \<longleftrightarrow>
        (toLowerCase item, v) \<in> lower_names qm" for item v
    proof -
      have abs: "(k \<in> fst ` set qm \<and> (k, v) \<in> set qm) = ((k, v) \<in> set qm)" for k by force
      have "(case name_map qm (toLowerCase item) of None \<Rightarrow> False | Some k \<Rightarrow> Some v = map_of qm k) \<longleftrightarrow>
          (\<exists>k. name_map qm (toLowerCase item) = Some k \<and> map_of qm k = Some v)" by (auto split: option.splits)
      also have "\<dots> \<longleftrightarrow> (\<exists>k. toLowerCase item = toLowerCase k \<and> (k, v) \<in> set qm)"
        using dk [OF q] abs by (simp add: name_map_distinct [OF q] map_of_eq_Some_iff)
      also have "\<dots> \<longleftrightarrow> (toLowerCase item, v) \<in> lower_names qm" by (force simp: lower_names_def)
      finally show ?thesis .
    qed
    then show ?thesis by (force simp: same_metadata_def list_all_iff lower_names_def [of dm])
  qed
  have card: "card (lower_names md) = length md" if "names_distinct md" for md
  proof -
    have "map (toLowerCase \<circ> fst) md = map fst (map (\<lambda>(k, v). (toLowerCase k, v)) md)" by auto
    then have "distinct (map (\<lambda>(k, v). (toLowerCase k, v)) md)"
      using that distinct_map unfolding names_distinct_def by metis
    then show ?thesis using distinct_card unfolding lower_names_def by (metis length_map list.set_map)
  qed
  have "finite (lower_names qm)" by (simp add: lower_names_def)
  then show ?thesis
    using sub card [OF q] card [OF d] assms(3) card_subset_eq [of "lower_names qm" "lower_names dm"] by auto
qed

definition same_queue_metadata :: "queue_metadata option \<Rightarrow> queue_metadata option \<Rightarrow> bool" where
  "same_queue_metadata x y \<longleftrightarrow> (case (x, y) of (None, None) \<Rightarrow> True
     | (Some m, Some n) \<Rightarrow> length m = length n \<and> lower_names m = lower_names n | _ \<Rightarrow> False)"

definition distinct_names_opt :: "queue_metadata option \<Rightarrow> bool" where
  "distinct_names_opt x \<longleftrightarrow> (case x of None \<Rightarrow> True | Some m \<Rightarrow> names_distinct m)"

context queue_collections
begin

lemma createQueue_existing:
  assumes inv: "queue_inv D s" and doc: "queue_at D s i = Some doc" "queue_key (q_accountName x) (q_name x) doc"
    and names: "distinct_names_opt (q_metadata doc)" "distinct_names_opt (q_metadata x)"
  shows "createQueue D x s =
    (if same_queue_metadata (q_metadata x) (q_metadata doc) then Inr 204 else Inl getQueueAlreadyExists, s)"
proof -
  obtain j d where found: "findOne (QUEUES_COLLECTION D) (queues s) (queue_key (q_accountName x) (q_name x)) = Some (j, d)"
    using doc find_queue_None_iff [of s "q_accountName x" "q_name x"] by (auto simp: has_queue_def)
  then have "queue_at D s j = Some d" "queue_key (q_accountName x) (q_name x) d"
    using qs.findOne_Some by (auto simp: queue_at_def)
  with doc inv have "d = doc" unfolding queue_inv_def queue_key_def by (metis option.inject)
  with found show ?thesis using names
    by (auto simp: createQueue_def find_queue_def op_defs same_queue_metadata_def distinct_names_opt_def
        same_metadata_iff split: option.splits)
qed

lemma createQueue_new:
  "\<not> has_queue D s (q_accountName x) (q_name x) \<Longrightarrow>
     createQueue D x s = (Inr 201, s\<lparr>queues := insert_doc (QUEUES_COLLECTION D) (queues s) x\<rparr>)"
  using find_queue_None_iff [of s "q_accountName x" "q_name x"] by (simp add: createQueue_def find_queue_def op_defs)

lemma createQueue_result:
  assumes "queue_inv D s"
    and "\<forall>i doc. queue_at D s i = Some doc \<longrightarrow> distinct_names_opt (q_metadata doc)" "distinct_names_opt (q_metadata x)"
  shows "if has_queue D s (q_accountName x) (q_name x) then
      \<exists>i doc. queue_at D s i = Some doc \<and> queue_key (q_accountName x) (q_name x) doc \<and>
        createQueue D x s = (if same_queue_metadata (q_metadata x) (q_metadata doc) then Inr 204
          else Inl getQueueAlreadyExists, s)
    else createQueue D x s = (Inr 201, s\<lparr>queues := insert_doc (QUEUES_COLLECTION D) (queues s) x\<rparr>)"
proof (cases "has_queue D s (q_accountName x) (q_name x)")
  case True
  then obtain i doc where "queue_at D s i = Some doc" "queue_key (q_accountName x) (q_name x) doc"
    by (auto simp: has_queue_def)
  with True show ?thesis using createQueue_existing [OF assms(1)] assms(2,3) by auto
qed (simp add: createQueue_new)

end

text \<open>
  C37: Creating a queue is idempotent: a new queue is stored (201); if a queue of that name exists,
  nothing changes, and the answer is 204 exactly when its metadata are those of the request, the names
  compared without regard to case, and the error \<open>QueueAlreadyExists\<close> otherwise.
\<close>

theorem create_queue_idempotent:
  assumes "queue_collections D" and "queue_inv D s"
    and "\<forall>i doc. queue_at D s i = Some doc \<longrightarrow> distinct_names_opt (q_metadata doc)" and "distinct_names_opt (q_metadata x)"
  shows "if has_queue D s (q_accountName x) (q_name x) then
      \<exists>i doc. queue_at D s i = Some doc \<and> queue_key (q_accountName x) (q_name x) doc \<and>
        createQueue D x s = (if same_queue_metadata (q_metadata x) (q_metadata doc) then Inr 204
          else Inl getQueueAlreadyExists, s)
    else createQueue D x s = (Inr 201, s\<lparr>queues := insert_doc (QUEUES_COLLECTION D) (queues s) x\<rparr>)"
  using assms by (rule queue_collections.createQueue_result)

theorem create_queue_idempotent_witness:
  "createQueue list_queue_db (sample_queue\<lparr>q_metadata := Some [(''a'', ''1'')]\<rparr>) sample_store =
     (Inl getQueueAlreadyExists, sample_store)"
proof -
  have "\<forall>i doc. queue_at list_queue_db sample_store i = Some doc \<longrightarrow> distinct_names_opt (q_metadata doc)"
    by (auto simp: queue_at_def sample_store_value list_queue_simps sample_queue_def distinct_names_opt_def)
  from create_queue_idempotent [OF list_queues.queue_collections_axioms sample_store_inv this,
      of "sample_queue\<lparr>q_metadata := Some [(''a'', ''1'')]\<rparr>"]
  show ?thesis
    by (auto simp: distinct_names_opt_def names_distinct_def has_queue_def queue_at_def sample_store_value
        list_queue_simps sample_queue_def queue_key_def same_queue_metadata_def split: if_splits)
qed

text \<open>Listing the queues.\<close>

context queue_collections
begin

lemma listQueues_all:
  assumes "card {i. \<exists>x. queue_at D s i = Some x \<and> queue_query a p x} \<le> n"
  shows "\<exists>qs. listQueues D nan a p n (Some 0) s = (Inr (map (queueCopy \<circ> snd) qs, None), s) \<and>
     sorted (map (q_name \<circ> snd) qs) \<and> distinct qs \<and>
     set qs = {(i, x). queue_at D s i = Some x \<and> queue_query a p x}"
proof -
  let ?f = "find_simplesort (QUEUES_COLLECTION D) (queues s) (queue_query a p)"
  let ?qs = "sort_key (q_name \<circ> snd) ?f"
  have set: "set ?f = {(i, x). queue_at D s i = Some x \<and> queue_query a p x}"
    by (simp add: qs.find_set queue_at_def)
  have dist: "distinct (map fst ?f)" using qs.find_sorted strict_sorted_iff by blast
  have "fst ` set ?f = {i. \<exists>x. queue_at D s i = Some x \<and> queue_query a p x}" unfolding set by force
  then have len: "length ?f \<le> n" using assms distinct_card [OF dist] by simp
  have all: "filter (\<lambda>(i, q). True) ?f = ?f" by (simp add: case_prod_unfold)
  have "sorted (map (q_name \<circ> snd) ?qs)" by (simp add: sorted_sort_key)
  moreover have "listQueues D nan a p n (Some 0) s = (Inr (map (queueCopy \<circ> snd) ?qs, None), s)"
    using len by (simp add: listQueues_def read_op_def Let_def all)
  ultimately show ?thesis using set dist by (intro exI [of _ ?qs]) (simp add: distinct_map)
qed

end

text \<open>With pages, the next page is looked up by the number of the document although the page was cut
  from the queues sorted by name: queues whose number is below that marker are lost, and the queue that
  the marker names may come before those already listed.\<close>

definition example_queue :: "string \<Rightarrow> QueueModel" where
  "example_queue n = \<lparr>q_accountName = ''acc'', q_name = n, q_metadata = None, q_queueAcl = None\<rparr>"

definition two_queues ::
  "(ServicePropertiesModel list_coll, QueueModel list_coll, MessageModel list_coll) queue_store" where
  "two_queues = snd (run_requests list_queue_db [CreateQueue (example_queue ''b''), CreateQueue (example_queue ''a'')]
     empty_queue_store)"


end
