(* ===== verification/Queue_Handlers.thy ===== *)
theory Queue_Handlers
  imports Queue_Properties
begin

text \<open>
  The request handlers of the queue service (\<open>queue/handlers\<close>): what they do to the metadata store
  and to the extent store, with their validation of parameters. A handler is executed as one step.
  Message texts are lists of Unicode code points; they are stored in UTF-8. The XML parser is a
  parameter. What \<open>uuid()\<close>, \<open>getPopReceipt\<close> and \<open>new Date()\<close> return is an argument.
\<close>

section \<open>Errors\<close>

definition getInvalidXmlDocument :: js_error where
  "getInvalidXmlDocument = StorageError 400 ''InvalidXmlDocument'' ''XML specified is not syntactically valid.''"

definition getInvalidQueryParameterValue :: js_error where
  "getInvalidQueryParameterValue = StorageError 400 ''InvalidQueryParameterValue''
     ''Value for one of the query parameters specified in the request URI is invalid.''"

definition getOutOfRangeQueryParameterValue :: js_error where
  "getOutOfRangeQueryParameterValue = StorageError 400 ''OutOfRangeQueryParameterValue''
     ''One of the query parameters specified in the request URI is outside the permissible range.''"

definition getRequestBodyTooLarge :: js_error where
  "getRequestBodyTooLarge = StorageError 413 ''RequestBodyTooLarge''
     ''The request body is too large and exceeds the maximum permissible limit.''"

section \<open>Constants\<close>

definition NEVER_EXPIRE_DATE :: int where "NEVER_EXPIRE_DATE = 253402300799999"

definition DEFAULT_DEQUEUE_VISIBILITYTIMEOUT :: int where "DEFAULT_DEQUEUE_VISIBILITYTIMEOUT = 30"

definition DEQUEUE_VISIBILITYTIMEOUT_MIN :: int where "DEQUEUE_VISIBILITYTIMEOUT_MIN = 1"

definition DEQUEUE_VISIBILITYTIMEOUT_MAX :: int where "DEQUEUE_VISIBILITYTIMEOUT_MAX = 604800"

definition DEQUEUE_NUMOFMESSAGES_MIN :: int where "DEQUEUE_NUMOFMESSAGES_MIN = 1"

definition DEQUEUE_NUMOFMESSAGES_MAX :: int where "DEQUEUE_NUMOFMESSAGES_MAX = 32"

definition MESSAGETEXT_LENGTH_MAX :: nat where "MESSAGETEXT_LENGTH_MAX = 65536"

definition DEFAULT_MESSAGETTL :: int where "DEFAULT_MESSAGETTL = 604800"

definition ENQUEUE_VISIBILITYTIMEOUT_MIN :: int where "ENQUEUE_VISIBILITYTIMEOUT_MIN = 0"

definition ENQUEUE_VISIBILITYTIMEOUT_MAX :: int where "ENQUEUE_VISIBILITYTIMEOUT_MAX = 604800"

definition MESSAGETTL_MIN :: int where "MESSAGETTL_MIN = 1"

definition DEFAULT_UPDATE_VISIBILITYTIMEOUT :: int where "DEFAULT_UPDATE_VISIBILITYTIMEOUT = 30"

definition UPDATE_VISIBILITYTIMEOUT_MIN :: int where "UPDATE_VISIBILITYTIMEOUT_MIN = 0"

definition UPDATE_VISIBILITYTIMEOUT_MAX :: int where "UPDATE_VISIBILITYTIMEOUT_MAX = 604800"

definition LIST_QUEUE_MAXRESULTS_MIN :: int where "LIST_QUEUE_MAXRESULTS_MIN = 1"

definition LIST_QUEUE_MAXRESULTS_MAX :: int where "LIST_QUEUE_MAXRESULTS_MAX = 2147483647"

definition QUEUE_SERVICE_PERMISSION :: string where "QUEUE_SERVICE_PERMISSION = ''raup''"

lemmas queue_constants = NEVER_EXPIRE_DATE_def DEFAULT_DEQUEUE_VISIBILITYTIMEOUT_def
  DEQUEUE_VISIBILITYTIMEOUT_MIN_def DEQUEUE_VISIBILITYTIMEOUT_MAX_def DEQUEUE_NUMOFMESSAGES_MIN_def
  DEQUEUE_NUMOFMESSAGES_MAX_def MESSAGETEXT_LENGTH_MAX_def DEFAULT_MESSAGETTL_def
  ENQUEUE_VISIBILITYTIMEOUT_MIN_def ENQUEUE_VISIBILITYTIMEOUT_MAX_def MESSAGETTL_MIN_def
  DEFAULT_UPDATE_VISIBILITYTIMEOUT_def UPDATE_VISIBILITYTIMEOUT_MIN_def UPDATE_VISIBILITYTIMEOUT_MAX_def

section \<open>Text and bytes\<close>

type_synonym js_text = "nat list"

text \<open>\<open>Buffer.from(text)\<close>: UTF-8; a surrogate that is not part of a pair becomes U+FFFD.\<close>

definition utf8_char :: "nat \<Rightarrow> nat list" where
  "utf8_char c =
     (if c < 128 then [c]
      else if c < 2048 then [192 + c div 64, 128 + c mod 64]
      else if 55296 \<le> c \<and> c < 57344 then [239, 191, 189]
      else if c < 65536 then [224 + c div 4096, 128 + c div 64 mod 64, 128 + c mod 64]
      else [240 + c div 262144, 128 + c div 4096 mod 64, 128 + c div 64 mod 64, 128 + c mod 64])"

definition Buffer_from :: "js_text \<Rightarrow> bytes" where
  "Buffer_from text = map of_nat (concat (map utf8_char text))"

text \<open>\<open>buffer.toString()\<close>: every maximal part of an ill-formed sequence becomes U+FFFD.\<close>

definition cont :: "nat \<Rightarrow> bool" where
  "cont b \<longleftrightarrow> 128 \<le> b \<and> b < 192"

definition second3 :: "nat \<Rightarrow> nat \<Rightarrow> bool" where
  "second3 b c \<longleftrightarrow> (if b = 224 then 160 else 128) \<le> c \<and> c < (if b = 237 then 160 else 192)"

definition second4 :: "nat \<Rightarrow> nat \<Rightarrow> bool" where
  "second4 b c \<longleftrightarrow> (if b = 240 then 144 else 128) \<le> c \<and> c < (if b = 244 then 144 else 192)"

function utf8_decode :: "nat list \<Rightarrow> js_text" where
  "utf8_decode [] = []"
| "utf8_decode (b # bs) =
     (if b < 128 then b # utf8_decode bs
      else if 194 \<le> b \<and> b < 224 then
        (case bs of
           c # cs \<Rightarrow> if cont c then ((b - 192) * 64 + (c - 128)) # utf8_decode cs else 65533 # utf8_decode bs
         | [] \<Rightarrow> [65533])
      else if 224 \<le> b \<and> b < 240 then
        (case bs of
           c # cs \<Rightarrow> if second3 b c then
               (case cs of
                  d # ds \<Rightarrow> if cont d
                    then ((b - 224) * 4096 + (c - 128) * 64 + (d - 128)) # utf8_decode ds
                    else 65533 # utf8_decode cs
                | [] \<Rightarrow> [65533])
             else 65533 # utf8_decode bs
         | [] \<Rightarrow> [65533])
      else if 240 \<le> b \<and> b < 245 then
        (case bs of
           c # cs \<Rightarrow> if second4 b c then
               (case cs of
                  d # ds \<Rightarrow> if cont d then
                      (case ds of
                         e # es \<Rightarrow> if cont e
                           then ((b - 240) * 262144 + (c - 128) * 4096 + (d - 128) * 64 + (e - 128)) # utf8_decode es
                           else 65533 # utf8_decode ds
                       | [] \<Rightarrow> [65533])
                    else 65533 # utf8_decode cs
                | [] \<Rightarrow> [65533])
             else 65533 # utf8_decode bs
         | [] \<Rightarrow> [65533])
      else 65533 # utf8_decode bs)"
  by pat_completeness auto
termination
  by (relation "measure length") auto

text \<open>\<open>readStreamToString\<close>, for a stream that delivers its bytes in one piece.\<close>

definition readStreamToString :: "bytes \<Rightarrow> js_text" where
  "readStreamToString data = utf8_decode (map unat data)"

definition getUTF8ByteSize :: "js_text \<Rightarrow> nat" where
  "getUTF8ByteSize text = length (Buffer_from text)"

section \<open>State and context\<close>

record ('sc, 'qc, 'mc, 'e) queue_service =
  metadataStore :: "('sc, 'qc, 'mc) queue_store"
  extentStore :: 'e

record queue_context =
  ctx_account :: string
  ctx_queue :: string
  ctx_messageId :: string
  ctx_startTime :: int
  ctx_isSecondary :: bool

record queue_fresh =
  fresh_messageId :: string
  fresh_extentId :: string
  fresh_popReceipt :: string
  fresh_now :: int

definition on_metadata ::
  "(('sc, 'qc, 'mc) queue_store, 'a) store_op \<Rightarrow> (('sc, 'qc, 'mc, 'e) queue_service, 'a) store_op" where
  "on_metadata m s = (case m (metadataStore s) of (r, ms) \<Rightarrow> (r, s\<lparr>metadataStore := ms\<rparr>))"

definition on_extents :: "('e, 'a) store_op \<Rightarrow> (('sc, 'qc, 'mc, 'e) queue_service, 'a) store_op" where
  "on_extents m s = (case m (extentStore s) of (r, es) \<Rightarrow> (r, s\<lparr>extentStore := es\<rparr>))"

section \<open>Messages\<close>

text \<open>The XML parser returns the fields of the document, or fails.\<close>

type_synonym xml_parser = "string \<Rightarrow> (string \<times> js_text) list result"

definition message_text :: "xml_parser \<Rightarrow> js_text option \<Rightarrow> string option \<Rightarrow> js_text option result" where
  "message_text parse messageText body =
     (case messageText of
        Some text \<Rightarrow> Inr (Some text)
      | None \<Rightarrow> bind_result (parse (case body of None \<Rightarrow> '''' | Some b \<Rightarrow> b)) (\<lambda>parsedBody.
          Inr (map_option snd (find (\<lambda>(k, v). toLowerCase k = ''messagetext'') parsedBody))))"

definition dequeue_visible_at :: "queue_context \<Rightarrow> int option \<Rightarrow> int result" where
  "dequeue_visible_at ctx visibilitytimeout =
     (case visibilitytimeout of
        None \<Rightarrow> Inr (ctx_startTime ctx + DEFAULT_DEQUEUE_VISIBILITYTIMEOUT * 1000)
      | Some v \<Rightarrow>
          if v < DEQUEUE_VISIBILITYTIMEOUT_MIN \<or> v > DEQUEUE_VISIBILITYTIMEOUT_MAX
          then Inl getOutOfRangeQueryParameterValue
          else Inr (ctx_startTime ctx + v * 1000))"

definition number_of_messages :: "int option \<Rightarrow> int result" where
  "number_of_messages n =
     (case n of
        None \<Rightarrow> Inr 1
      | Some k \<Rightarrow>
          if k < DEQUEUE_NUMOFMESSAGES_MIN \<or> k > DEQUEUE_NUMOFMESSAGES_MAX
          then Inl getOutOfRangeQueryParameterValue else Inr k)"

fun with_texts ::
  "'e IExtentStore \<Rightarrow> MessageModel list \<Rightarrow>
   (('sc, 'qc, 'mc, 'e) queue_service, (MessageModel \<times> js_text) list) store_op" where
  "with_texts E [] = return []"
| "with_texts E (m # ms) =
     bind_op (read_op (\<lambda>s. read_extent E (Some (msg_persistency m)) (extentStore s))) (\<lambda>r.
     bind_op (lift_result r) (\<lambda>textStream.
     bind_op (with_texts E ms) (\<lambda>rest'. return ((m, readStreamToString textStream) # rest'))))"

definition dequeue where
  "dequeue D E ctx f visibilitytimeout numberOfMessages =
     bind_op (lift_result (dequeue_visible_at ctx visibilitytimeout)) (\<lambda>timeNextVisible'.
     bind_op (lift_result (number_of_messages numberOfMessages)) (\<lambda>n.
     bind_op (on_metadata (getMessages D (fresh_now f) (ctx_account ctx) (ctx_queue ctx) timeNextVisible'
       (fresh_popReceipt f) (Some n) (Some (ctx_startTime ctx)))) (\<lambda>messages'.
     with_texts E messages')))"

definition clear_handler where
  "clear_handler D ctx = on_metadata (clearMessages D (ctx_account ctx) (ctx_queue ctx))"

definition enqueue_visible_at :: "queue_context \<Rightarrow> int option \<Rightarrow> int result" where
  "enqueue_visible_at ctx visibilitytimeout =
     (case visibilitytimeout of
        None \<Rightarrow> Inr (ctx_startTime ctx)
      | Some v \<Rightarrow>
          if v < ENQUEUE_VISIBILITYTIMEOUT_MIN \<or> v > ENQUEUE_VISIBILITYTIMEOUT_MAX
          then Inl getOutOfRangeQueryParameterValue
          else Inr (ctx_startTime ctx + v * 1000))"

definition enqueue_expires_at :: "queue_context \<Rightarrow> int option \<Rightarrow> int option \<Rightarrow> int result" where
  "enqueue_expires_at ctx visibilitytimeout messageTimeToLive =
     (case messageTimeToLive of
        None \<Rightarrow> Inr (ctx_startTime ctx + DEFAULT_MESSAGETTL * 1000)
      | Some ttl \<Rightarrow>
          if ttl = -1 then Inr NEVER_EXPIRE_DATE
          else if ttl < MESSAGETTL_MIN then Inl getInvalidQueryParameterValue
          else if (case visibilitytimeout of None \<Rightarrow> False | Some v \<Rightarrow> v \<ge> ttl) then Inl getInvalidQueryParameterValue
          else if NEVER_EXPIRE_DATE - ctx_startTime ctx < ttl * 1000 then Inr NEVER_EXPIRE_DATE
          else Inr (ctx_startTime ctx + ttl * 1000))"

text \<open>The message that \<open>enqueue\<close> builds from the validated options, with no extent yet.\<close>

definition enqueue_message :: "queue_context \<Rightarrow> queue_fresh \<Rightarrow> int option \<Rightarrow> int option \<Rightarrow> MessageModel result" where
  "enqueue_message ctx f visibilitytimeout messageTimeToLive =
     bind_result (enqueue_visible_at ctx visibilitytimeout) (\<lambda>visible.
     bind_result (enqueue_expires_at ctx visibilitytimeout messageTimeToLive) (\<lambda>expires.
     Inr \<lparr>msg_accountName = ctx_account ctx, queueName = ctx_queue ctx,
       messageId = fresh_messageId f, popReceipt = fresh_popReceipt f, timeNextVisible = visible,
       insertionTime = ctx_startTime ctx, expirationTime = expires, dequeueCount = 0,
       msg_persistency = \<lparr>chunk_id = '''', chunk_offset = 0, chunk_count = 0\<rparr>\<rparr>))"

definition enqueue where
  "enqueue D E parse ctx f messageText body visibilitytimeout messageTimeToLive =
     bind_op (lift_result (message_text parse messageText body)) (\<lambda>text.
     case text of
       None \<Rightarrow> throw getInvalidXmlDocument
     | Some text \<Rightarrow>
         if getUTF8ByteSize text > MESSAGETEXT_LENGTH_MAX then throw getRequestBodyTooLarge
         else
           bind_op (lift_result (enqueue_message ctx f visibilitytimeout messageTimeToLive)) (\<lambda>message.
           bind_op (on_extents (append_extent E (fresh_extentId f) (fresh_now f) (Buffer (Buffer_from text)))) (\<lambda>extentChunk.
           let message = message\<lparr>msg_persistency := extentChunk\<rparr> in
           bind_op (on_metadata (insertMessage D message)) (\<lambda>_. return message))))"

definition peek_handler where
  "peek_handler D E ctx f numberOfMessages =
     bind_op (lift_result (number_of_messages numberOfMessages)) (\<lambda>n.
     bind_op (on_metadata (peekMessages D (fresh_now f) (ctx_account ctx) (ctx_queue ctx) (Some n)
       (Some (ctx_startTime ctx)))) (\<lambda>messages'.
     with_texts E messages'))"

definition update_visible_at :: "queue_context \<Rightarrow> int option \<Rightarrow> int result" where
  "update_visible_at ctx visibilitytimeout =
     (case visibilitytimeout of
        None \<Rightarrow> Inr (ctx_startTime ctx + DEFAULT_UPDATE_VISIBILITYTIMEOUT * 1000)
      | Some v \<Rightarrow>
          if v < UPDATE_VISIBILITYTIMEOUT_MIN \<or> v > UPDATE_VISIBILITYTIMEOUT_MAX
          then Inl getOutOfRangeQueryParameterValue
          else Inr (ctx_startTime ctx + v * 1000))"

definition update_handler where
  "update_handler D E parse ctx f messageText body popReceipt' visibilitytimeout =
     bind_op (lift_result (message_text parse messageText body)) (\<lambda>text.
     if (case text of None \<Rightarrow> False | Some t \<Rightarrow> getUTF8ByteSize t > MESSAGETEXT_LENGTH_MAX)
     then throw getRequestBodyTooLarge
     else
       bind_op (lift_result (update_visible_at ctx visibilitytimeout)) (\<lambda>timeNextVisible'.
       let message = \<lparr>msg_accountName = ctx_account ctx, queueName = ctx_queue ctx, messageId = ctx_messageId ctx,
             popReceipt = fresh_popReceipt f, timeNextVisible = timeNextVisible'\<rparr> in
       bind_op
         (case text of
            None \<Rightarrow> return None
          | Some t \<Rightarrow> bind_op (on_extents (append_extent E (fresh_extentId f) (fresh_now f) (Buffer (Buffer_from t))))
              (\<lambda>c. return (Some c))) (\<lambda>persistency'.
       bind_op (on_metadata (updateMessage D (fresh_now f) message persistency' popReceipt')) (\<lambda>_.
       return (fresh_popReceipt f, timeNextVisible')))))"

definition delete_handler where
  "delete_handler D ctx f popReceipt' =
     on_metadata (deleteMessage D (fresh_now f) (ctx_account ctx) (ctx_queue ctx) (ctx_messageId ctx) popReceipt')"

section \<open>Queues\<close>

definition raw_name :: "string \<Rightarrow> string list \<Rightarrow> string option" where
  "raw_name item rawHeaders = find (\<lambda>name. ''x-ms-meta-'' @ item = toLowerCase name) rawHeaders"

text \<open>The names of the metadata are taken from the raw headers, which preserve their case.\<close>

definition parseMetadata :: "queue_metadata option \<Rightarrow> string list \<Rightarrow> queue_metadata option" where
  "parseMetadata reqMetadata rawHeaders =
     map_option (\<lambda>req. fold (\<lambda>(item, v) metadata.
       case raw_name item rawHeaders of
         None \<Rightarrow> metadata
       | Some name \<Rightarrow> AList.update (drop (length ''x-ms-meta-'') name) v metadata) req []) reqMetadata"

definition create_handler where
  "create_handler D ctx reqMetadata rawHeaders =
     on_metadata (createQueue D \<lparr>q_accountName = ctx_account ctx, q_name = ctx_queue ctx,
       q_metadata = parseMetadata reqMetadata rawHeaders, q_queueAcl = None\<rparr>)"

definition delete_queue_handler where
  "delete_queue_handler D ctx = on_metadata (deleteQueue D (ctx_account ctx) (ctx_queue ctx))"

definition getProperties_handler where
  "getProperties_handler D ctx =
     on_metadata (bind_op (getQueue D (ctx_account ctx) (ctx_queue ctx)) (\<lambda>queue.
       bind_op (getMessagesCount D (q_accountName queue) (q_name queue)) (\<lambda>approximateMessagesCount.
       return (approximateMessagesCount, q_metadata queue))))"

definition setMetadata_handler where
  "setMetadata_handler D ctx reqMetadata rawHeaders =
     on_metadata (setQueueMetadata D (ctx_account ctx) (ctx_queue ctx) (parseMetadata reqMetadata rawHeaders))"

definition getAccessPolicy where
  "getAccessPolicy D ctx =
     on_metadata (bind_op (getQueue D (ctx_account ctx) (ctx_queue ctx)) (\<lambda>queue.
       return (case q_queueAcl queue of None \<Rightarrow> [] | Some acl \<Rightarrow> acl)))"

definition acl_ok :: "SignedIdentifier list option \<Rightarrow> bool" where
  "acl_ok queueAcl =
     (case queueAcl of
        None \<Rightarrow> True
      | Some acls \<Rightarrow> length acls \<le> 5 \<and>
          list_all (\<lambda>acl. case policy_permission (accessPolicy acl) of
              None \<Rightarrow> True
            | Some permission \<Rightarrow> list_all (\<lambda>item. item \<in> set QUEUE_SERVICE_PERMISSION) permission) acls)"

definition setAccessPolicy where
  "setAccessPolicy D ctx queueAcl =
     (if acl_ok queueAcl then on_metadata (setQueueACL D (ctx_account ctx) (ctx_queue ctx) queueAcl)
      else throw getInvalidXmlDocument)"

section \<open>The service\<close>

definition default_retention :: RetentionPolicy where
  "default_retention = \<lparr>retention_enabled = False, retention_days = None\<rparr>"

definition default_metrics :: Metrics where
  "default_metrics = \<lparr>metrics_version = Some ''1.0'', metrics_enabled = False, metrics_includeAPIs = None,
     metrics_retentionPolicy = Some default_retention\<rparr>"

definition default_logging :: Logging where
  "default_logging = \<lparr>logging_version = ''1.0'', logging_deleteProperty = True, logging_read = True,
     logging_write = True, logging_retentionPolicy = default_retention\<rparr>"

definition defaultServiceProperties :: "string \<Rightarrow> ServicePropertiesModel" where
  "defaultServiceProperties account = \<lparr>sp_accountName = account, sp_logging = Some default_logging,
     sp_hourMetrics = Some default_metrics, sp_minuteMetrics = Some default_metrics, sp_cors = Some []\<rparr>"

definition normalize_cors :: "CorsRule \<Rightarrow> CorsRule" where
  "normalize_cors c = c\<lparr>allowedHeaders := Some (case allowedHeaders c of None \<Rightarrow> '''' | Some h \<Rightarrow> h),
     exposedHeaders := Some (case exposedHeaders c of None \<Rightarrow> '''' | Some h \<Rightarrow> h)\<rparr>"

text \<open>The rules of the request are ignored unless the document has a field \<open>cors\<close> or \<open>Cors\<close>.\<close>

definition setProperties_handler where
  "setProperties_handler D parse ctx props body =
     bind_op (lift_result (parse (case body of None \<Rightarrow> '''' | Some b \<Rightarrow> b))) (\<lambda>parsedBody.
     let has_cors = (''cors'' \<in> fst ` set parsedBody \<or> ''Cors'' \<in> fst ` set parsedBody);
         cors = (if has_cors then sp_cors props else None)
     in on_metadata (updateServiceProperties D
          (props\<lparr>sp_cors := map_option (map normalize_cors) cors, sp_accountName := ctx_account ctx\<rparr>)))"

definition with_defaults :: "ServicePropertiesModel \<Rightarrow> ServicePropertiesModel" where
  "with_defaults p = p
     \<lparr>sp_cors := Some (case sp_cors p of None \<Rightarrow> [] | Some c \<Rightarrow> c),
      sp_hourMetrics := Some (case sp_hourMetrics p of None \<Rightarrow> default_metrics | Some x \<Rightarrow> x),
      sp_logging := Some (case sp_logging p of None \<Rightarrow> default_logging | Some x \<Rightarrow> x),
      sp_minuteMetrics := Some (case sp_minuteMetrics p of None \<Rightarrow> default_metrics | Some x \<Rightarrow> x)\<rparr>"

text \<open>\<open>properties\<close> is the stored document itself: the defaults are written into it.\<close>

definition getProperties_service where
  "getProperties_service D ctx =
     on_metadata (bind_op (getServiceProperties D (ctx_account ctx)) (\<lambda>found.
       case found of
         None \<Rightarrow> return (with_defaults (defaultServiceProperties (ctx_account ctx)))
       | Some (i, properties') \<Rightarrow>
           bind_op (update_op (\<lambda>s. s\<lparr>services := set_doc (SERVICES_COLLECTION D) (services s) i (with_defaults properties')\<rparr>)) (\<lambda>_.
           return (with_defaults properties'))))"

text \<open>The status \<open>live\<close> and the time of the last synchronisation.\<close>

definition getStatistics where
  "getStatistics ctx =
     (if \<not> ctx_isSecondary ctx then throw getInvalidQueryParameterValue else return (''live'', ctx_startTime ctx))"

text \<open>\<open>parseInt(s, 10)\<close>: leading blanks, a sign and the digits up to the first other character.\<close>

fun leading_digits :: "string \<Rightarrow> nat list" where
  "leading_digits [] = []"
| "leading_digits (c # cs) =
     (let n = of_char c :: nat in if 48 \<le> n \<and> n < 58 then (n - 48) # leading_digits cs else [])"

definition parseInt :: "string \<Rightarrow> int option" where
  "parseInt s =
     (let t = dropWhile (\<lambda>c. c \<in> {CHR '' '', CHR 0x09, CHR 0x0A, CHR 0x0B, CHR 0x0C, CHR 0x0D}) s;
          (neg, u) = (case t of c # cs \<Rightarrow> if c = CHR ''-'' then (True, cs) else if c = CHR ''+'' then (False, cs) else (False, t)
            | [] \<Rightarrow> (False, []));
          ds = leading_digits u;
          n = foldl (\<lambda>acc d. 10 * acc + int d) 0 ds
      in if ds = [] then None else Some (if neg then - n else n))"

definition listQueuesSegment where
  "listQueuesSegment D nan_gt ctx maxresults prefix marker includes =
     bind_op (lift_result (case maxresults of
         None \<Rightarrow> Inr 5000
       | Some m \<Rightarrow> if m < LIST_QUEUE_MAXRESULTS_MIN \<or> m > LIST_QUEUE_MAXRESULTS_MAX
           then Inl getOutOfRangeQueryParameterValue else Inr m)) (\<lambda>maxresults.
     let prefix = (case prefix of None \<Rightarrow> '''' | Some p \<Rightarrow> p);
         start = parseInt (case marker of None \<Rightarrow> ''0'' | Some m \<Rightarrow> str_or m ''0'')
     in bind_op (on_metadata (listQueues D nan_gt (ctx_account ctx) prefix (nat maxresults) start)) (\<lambda>(qs, nextMarker).
        let includeMetadata = list_ex (\<lambda>item. toLowerCase item = ''metadata'') includes;
            queueItems = (if includeMetadata then qs else map (\<lambda>q. q\<lparr>q_metadata := None\<rparr>) qs)
        in return (queueItems, case nextMarker of None \<Rightarrow> '''' | Some n \<Rightarrow> if n = 0 then '''' else show_int n)))"

section \<open>UTF-8\<close>

definition scalar :: "nat \<Rightarrow> bool" where
  "scalar c \<longleftrightarrow> c < 1114112 \<and> \<not> (55296 \<le> c \<and> c < 57344)"

lemma utf8_bytes: "scalar c \<Longrightarrow> \<forall>b \<in> set (utf8_char c). b < 256"
  by (auto simp: utf8_char_def scalar_def)

lemma utf8_decode_char:
  assumes "scalar c"
  shows "utf8_decode (utf8_char c @ bs) = c # utf8_decode bs"
proof -
  consider "c < 128" | "128 \<le> c" "c < 2048" | "2048 \<le> c" "c < 65536" "\<not> (55296 \<le> c \<and> c < 57344)"
    | "65536 \<le> c" "c < 1114112"
    using assms unfolding scalar_def by linarith
  then show ?thesis
  proof cases
    case 2
    then have "2 \<le> c div 64" "c div 64 < 32" by auto
    moreover have "c div 64 * 64 + c mod 64 = c" by simp
    ultimately show ?thesis using 2 by (simp add: utf8_char_def cont_def)
  next
    case 3
    have "c div 4096 = c div 64 div 64" using div_mult2_eq [of c 64 64] by simp
    then have d: "c div 64 = c div 4096 * 64 + c div 64 mod 64" using div_mult_mod_eq [of "c div 64" 64] by simp
    have "c div 4096 < 16" using 3 by auto
    moreover have "c div 4096 * 4096 + c div 64 mod 64 * 64 + c mod 64 = c"
      using d div_mult_mod_eq [of c 64] by linarith
    moreover have "second3 (224 + c div 4096) (128 + c div 64 mod 64)"
    proof -
      have "c div 4096 = 0 \<longrightarrow> 32 \<le> c div 64 mod 64" using 3(1) d by linarith
      moreover have "c div 4096 = 13 \<longrightarrow> c div 64 mod 64 < 32" using 3 d by linarith
      moreover have "c div 64 mod 64 < 64" by simp
      ultimately show ?thesis unfolding second3_def by auto
    qed
    ultimately show ?thesis using 3 by (simp add: utf8_char_def cont_def)
  next
    case 4
    have "c div 262144 = c div 4096 div 64" "c div 4096 = c div 64 div 64"
      using div_mult2_eq [of c 4096 64] div_mult2_eq [of c 64 64] by simp_all
    then have d: "c div 4096 = c div 262144 * 64 + c div 4096 mod 64" "c div 64 = c div 4096 * 64 + c div 64 mod 64"
      using div_mult_mod_eq [of "c div 4096" 64] div_mult_mod_eq [of "c div 64" 64] by simp_all
    have "c div 262144 < 5" using 4 by auto
    moreover have "c div 262144 * 262144 + c div 4096 mod 64 * 4096 + c div 64 mod 64 * 64 + c mod 64 = c"
      using d div_mult_mod_eq [of c 64] by linarith
    moreover have "second4 (240 + c div 262144) (128 + c div 4096 mod 64)"
    proof -
      have "c div 262144 = 0 \<longrightarrow> 16 \<le> c div 4096 mod 64" using 4(1) d by linarith
      moreover have "c div 262144 = 4 \<longrightarrow> c div 4096 mod 64 < 16" using 4 d by linarith
      moreover have "c div 4096 mod 64 < 64" by simp
      ultimately show ?thesis unfolding second4_def by auto
    qed
    ultimately show ?thesis using 4 by (simp add: utf8_char_def cont_def)
  qed (simp add: utf8_char_def)
qed

lemma utf8_decode_encode: "\<forall>c \<in> set cs. scalar c \<Longrightarrow> utf8_decode (concat (map utf8_char cs)) = cs"
  by (induction cs) (simp_all add: utf8_decode_char)

lemma readStreamToString_Buffer_from:
  assumes "\<forall>c \<in> set cs. scalar c"
  shows "readStreamToString (Buffer_from cs) = cs"
proof -
  have "\<forall>b \<in> set (concat (map utf8_char cs)). b < 256" using assms utf8_bytes by auto
  then have "map (unat \<circ> (of_nat :: nat \<Rightarrow> 8 word)) (concat (map utf8_char cs)) = concat (map utf8_char cs)"
    by (intro map_idI) (simp add: unat_of_nat del: set_concat set_map)
  then show ?thesis using assms by (simp add: readStreamToString_def Buffer_from_def utf8_decode_encode del: map_concat)
qed

section \<open>Enqueue and dequeue\<close>

lemma messageCopy_id [simp]: "messageCopy m = m"
  by (simp add: messageCopy_def)

lemma op_simps:
  "bind_op m f s = (r, s') \<longleftrightarrow>
     (\<exists>e. m s = (Inl e, s') \<and> r = Inl e) \<or> (\<exists>x s1. m s = (Inr x, s1) \<and> f x s1 = (r, s'))"
  "lift_result q s = (r, s') \<longleftrightarrow> q = r \<and> s' = s"
  "return x s = (r, s') \<longleftrightarrow> r = Inr x \<and> s' = s"
  "throw e s = (r, s') \<longleftrightarrow> r = Inl e \<and> s' = s"
  "read_op g s = (r, s') \<longleftrightarrow> r = Inr (g s) \<and> s' = s"
  by (auto simp: op_defs split: prod.splits sum.splits)

lemma on_metadata_eq: "on_metadata m s = (r, s') \<longleftrightarrow>
    (\<exists>ms. m (metadataStore s) = (r, ms) \<and> s' = s\<lparr>metadataStore := ms\<rparr>)"
  by (auto simp: on_metadata_def split: prod.splits)

lemma on_extents_eq: "on_extents m s = (r, s') \<longleftrightarrow>
    (\<exists>es. m (extentStore s) = (r, es) \<and> s' = s\<lparr>extentStore := es\<rparr>)"
  by (auto simp: on_extents_def split: prod.splits)

lemma enqueue_ok:
  assumes "enqueue D E parse ctx f (Some cs) body vt ttl s = (Inr m, s1)"
  obtains m0 c es ms where "enqueue_message ctx f vt ttl = Inr m0"
    "append_extent E (fresh_extentId f) (fresh_now f) (Buffer (Buffer_from cs)) (extentStore s) = (Inr c, es)"
    "m = m0\<lparr>msg_persistency := c\<rparr>" "insertMessage D m (metadataStore s) = (Inr (), ms)"
    "s1 = s\<lparr>extentStore := es, metadataStore := ms\<rparr>"
  using assms
  by (auto simp: enqueue_def message_text_def op_simps on_metadata_eq on_extents_eq Let_def
      split: option.splits if_splits)

lemma enqueue_message_fields:
  assumes "enqueue_message ctx f vt ttl = Inr m"
  shows "msg_accountName m = ctx_account ctx" "queueName m = ctx_queue ctx" "messageId m = fresh_messageId f"
    "popReceipt m = fresh_popReceipt f" "dequeueCount m = 0" "insertionTime m = ctx_startTime ctx"
  using assms by (auto simp: enqueue_message_def bind_result_Inr_iff)

lemma enqueue_visible_at_cases:
  "case enqueue_visible_at ctx vt of
     Inl e \<Rightarrow> (case vt of None \<Rightarrow> False | Some v \<Rightarrow> v < 0 \<or> 604800 < v) \<and> e = getOutOfRangeQueryParameterValue
   | Inr x \<Rightarrow> (\<forall>v. vt = Some v \<longrightarrow> 0 \<le> v \<and> v \<le> 604800) \<and>
       x = ctx_startTime ctx + 1000 * (case vt of None \<Rightarrow> 0 | Some v \<Rightarrow> v)"
  by (auto simp: enqueue_visible_at_def queue_constants split: option.splits)

lemma enqueue_expires_at_cases:
  "case enqueue_expires_at ctx vt ttl of
     Inl e \<Rightarrow> (case ttl of None \<Rightarrow> False | Some l \<Rightarrow> l \<noteq> -1 \<and> (l < 1 \<or> (case vt of None \<Rightarrow> False | Some v \<Rightarrow> l \<le> v))) \<and>
       e = getInvalidQueryParameterValue
   | Inr x \<Rightarrow> (\<forall>l. ttl = Some l \<longrightarrow> l = -1 \<or> 1 \<le> l \<and> (\<forall>v. vt = Some v \<longrightarrow> v < l)) \<and>
       x = (case ttl of
            None \<Rightarrow> ctx_startTime ctx + 604800000
          | Some l \<Rightarrow> if l = -1 then NEVER_EXPIRE_DATE else min NEVER_EXPIRE_DATE (ctx_startTime ctx + 1000 * l))"
  by (auto simp: enqueue_expires_at_def DEFAULT_MESSAGETTL_def MESSAGETTL_MIN_def split: option.splits)

text \<open>
  C39: The times of an enqueued message: \<open>enqueue\<close> accepts exactly the visibility timeouts from 0 to
  604800 seconds and the times to live that are \<open>-1\<close> or at least 1 and longer than the timeout; the
  message becomes visible after the timeout, expires after its time to live (7 days if none is given),
  but never after the year 9999, and is visible before it expires, except when the timeout is the
  maximum and no time to live is given: then it expires at the moment it becomes visible.
\<close>

theorem enqueue_times:
  assumes "ctx_startTime ctx + 604800000 < NEVER_EXPIRE_DATE"
  shows "case enqueue_message ctx f vt ttl of
      Inl e \<Rightarrow> (case vt of None \<Rightarrow> False | Some v \<Rightarrow> v < 0 \<or> 604800 < v) \<and> e = getOutOfRangeQueryParameterValue \<or>
        (case ttl of None \<Rightarrow> False | Some l \<Rightarrow> l \<noteq> -1 \<and> (l < 1 \<or> (case vt of None \<Rightarrow> False | Some v \<Rightarrow> l \<le> v))) \<and>
        e = getInvalidQueryParameterValue
    | Inr m \<Rightarrow> (\<forall>v. vt = Some v \<longrightarrow> 0 \<le> v \<and> v \<le> 604800) \<and>
        (\<forall>l. ttl = Some l \<longrightarrow> l = -1 \<or> 1 \<le> l \<and> (\<forall>v. vt = Some v \<longrightarrow> v < l)) \<and>
        insertionTime m = ctx_startTime ctx \<and>
        timeNextVisible m = ctx_startTime ctx + 1000 * (case vt of None \<Rightarrow> 0 | Some v \<Rightarrow> v) \<and>
        expirationTime m = (case ttl of
            None \<Rightarrow> ctx_startTime ctx + 604800000
          | Some l \<Rightarrow> if l = -1 then NEVER_EXPIRE_DATE else min NEVER_EXPIRE_DATE (ctx_startTime ctx + 1000 * l)) \<and>
        timeNextVisible m \<le> expirationTime m \<and>
        (timeNextVisible m = expirationTime m \<longleftrightarrow> vt = Some 604800 \<and> ttl = None)"
  using enqueue_visible_at_cases [where ctx = ctx and vt = vt]
    enqueue_expires_at_cases [where ctx = ctx and vt = vt and ttl = ttl] assms
  by (cases vt; cases ttl; cases "enqueue_visible_at ctx vt"; cases "enqueue_expires_at ctx vt ttl")
    (auto simp: enqueue_message_def)

definition sample_context :: queue_context where
  "sample_context = \<lparr>ctx_account = ''acc'', ctx_queue = ''work'', ctx_messageId = '''', ctx_startTime = 1000,
     ctx_isSecondary = False\<rparr>"

definition sample_fresh :: queue_fresh where
  "sample_fresh = \<lparr>fresh_messageId = ''m1'', fresh_extentId = ''e1'', fresh_popReceipt = ''p1'', fresh_now = 1001\<rparr>"

theorem enqueue_times_witness:
  "case enqueue_message sample_context sample_fresh (Some 604800) None of
     Inl _ \<Rightarrow> False | Inr m \<Rightarrow> timeNextVisible m = expirationTime m"
  using enqueue_times [where ctx = sample_context and f = sample_fresh and vt = "Some 604800" and ttl = None]
  by (simp add: sample_context_def queue_constants split: sum.splits)

lemma concat_Buffer: "concat (data_chunks (Buffer b)) = b"
  by simp

lemma insertMessage_at:
  assumes "queue_collections D" and "insertMessage D m s = (Inr (), s1)"
  obtains i where "has_queue D s1 (msg_accountName m) (queueName m)" "message_at D s i = None"
    "message_at D s1 = (message_at D s)(i \<mapsto> m)"
proof -
  have ms: "loki (MESSAGES_COLLECTION D)" using assms(1) by (simp add: queue_collections_def)
  have s1: "s1 = s\<lparr>messages := insert_doc (MESSAGES_COLLECTION D) (messages s) m\<rparr>"
    and found: "findOne (QUEUES_COLLECTION D) (queues s) (queue_key (msg_accountName m) (queueName m)) \<noteq> None"
    using assms(2) by (auto simp: insertMessage_def checkQueueExist_def find_queue_def op_defs split: option.splits)
  have "has_queue D s (msg_accountName m) (queueName m)"
    using found queue_collections.find_queue_None_iff [OF assms(1), of s "msg_accountName m" "queueName m"] by simp
  then have has: "has_queue D s1 (msg_accountName m) (queueName m)" by (simp add: s1)
  obtain i where "get_doc (MESSAGES_COLLECTION D) (messages s) i = None"
    "get_doc (MESSAGES_COLLECTION D) (insert_doc (MESSAGES_COLLECTION D) (messages s) m) =
      (get_doc (MESSAGES_COLLECTION D) (messages s))(i \<mapsto> m)"
    by (rule loki.insert_getE [OF ms])
  with has show thesis by (intro that [of i]) (simp_all add: s1 message_at_def)
qed

lemma dequeue_single:
  assumes D: "queue_collections D" and has: "has_queue D s a q"
    and at: "message_at D s i = Some m" "in_queue a q m"
    and only: "\<And>j x. message_at D s j = Some x \<Longrightarrow> in_queue a q x \<Longrightarrow> j = i"
    and live: "now < expirationTime m" "timeNextVisible m \<le> qt"
  shows "\<exists>s1. getMessages D now a q t r (Some n) (Some qt) s = (Inr [dequeued t r m], s1)"
proof -
  obtain docs s1 where get: "getMessages D now a q t r (Some n) (Some qt) s =
      (Inr (map (messageCopy \<circ> dequeued t r \<circ> snd) docs), s1)" and docs: "earliest D a q now qt n s docs"
    using queue_collections.getMessages_earliest [OF D, of s a q now t r n qt] unfolding if_P [OF has]
    by (elim exE conjE) (rule that)
  have "x = (i, m)" if "live_message D a q now qt s x" for x
    using that only [of "fst x" "snd x"] at(1) by (auto simp: live_message_def split: prod.splits)
  moreover have "live_message D a q now qt s (i, m)" using at live by (simp add: live_message_def)
  ultimately have set: "{x. live_message D a q now qt s x} = {(i, m)}" by blast
  have "\<forall>x \<in> set docs. live_message D a q now qt s x" and "length docs = min (nat (max 1 n)) (card {(i, m)})"
    using docs unfolding earliest_def set by blast+
  then have sub: "\<forall>x \<in> set docs. x = (i, m)" and len: "length docs = 1"
    using set by (auto simp: min_def)
  obtain x where "docs = [x]" using len by (auto simp: length_Suc_conv)
  then have "docs = [(i, m)]" using sub by simp
  then show ?thesis using get by simp
qed

text \<open>
  C40: What is enqueued is dequeued: if \<open>enqueue\<close> of a text into a queue without messages succeeds,
  then a dequeue after the message became visible and before it expires returns exactly this message,
  with the same text, whatever characters it consists of, the new pop receipt, the new visibility time
  and the count 1.
\<close>

theorem enqueue_dequeue_roundtrip:
  assumes D: "queue_collections D" and E: "extent_store E"
    and enq: "enqueue D E parse ctx f (Some cs) body vt ttl s = (Inr m, s1)"
    and empty: "\<forall>i x. message_at D (metadataStore s) i = Some x \<longrightarrow> \<not> in_queue (ctx_account ctx) (ctx_queue ctx) x"
    and id: "fresh_extentId f \<noteq> ZERO_EXTENT_ID" and cs: "\<forall>c \<in> set cs. scalar c"
    and same: "ctx_account ctx' = ctx_account ctx" "ctx_queue ctx' = ctx_queue ctx"
    and time: "timeNextVisible m \<le> ctx_startTime ctx'" "fresh_now f' < expirationTime m"
    and opts: "dequeue_visible_at ctx' vt' = Inr t" "number_of_messages n' = Inr n"
  shows "\<exists>s2. dequeue D E ctx' f' vt' n' s1 =
    (Inr [(m\<lparr>timeNextVisible := t, popReceipt := fresh_popReceipt f', dequeueCount := 1\<rparr>, cs)], s2)"
proof -
  obtain m0 c es ms where m0: "enqueue_message ctx f vt ttl = Inr m0"
    and app: "append_extent E (fresh_extentId f) (fresh_now f) (Buffer (Buffer_from cs)) (extentStore s) = (Inr c, es)"
    and m: "m = m0\<lparr>msg_persistency := c\<rparr>" and ins: "insertMessage D m (metadataStore s) = (Inr (), ms)"
    and s1: "s1 = s\<lparr>extentStore := es, metadataStore := ms\<rparr>"
    by (rule enqueue_ok [OF enq])
  note fields = enqueue_message_fields [OF m0]
  obtain i where has: "has_queue D ms (msg_accountName m) (queueName m)"
    and at: "message_at D ms = (message_at D (metadataStore s))(i \<mapsto> m)"
    by (rule insertMessage_at [OF D ins])
  have read: "read_extent E (Some c) es = Inr (Buffer_from cs)"
    using extent_store.read_append [OF E app id] by (simp only: concat_Buffer)
  have "\<exists>ms'. getMessages D (fresh_now f') (ctx_account ctx') (ctx_queue ctx') t (fresh_popReceipt f') (Some n)
      (Some (ctx_startTime ctx')) ms = (Inr [dequeued t (fresh_popReceipt f') m], ms')"
    by (rule dequeue_single [OF D, where i = i])
      (use has empty time in \<open>auto simp: same at fields m in_queue_def split: if_splits\<close>)
  then obtain ms' where "getMessages D (fresh_now f') (ctx_account ctx') (ctx_queue ctx') t (fresh_popReceipt f') (Some n)
      (Some (ctx_startTime ctx')) ms = (Inr [dequeued t (fresh_popReceipt f') m], ms')" ..
  then have "dequeue D E ctx' f' vt' n' s1 =
      (Inr [(dequeued t (fresh_popReceipt f') m, cs)], s1\<lparr>metadataStore := ms'\<rparr>)"
    using opts read readStreamToString_Buffer_from [OF cs]
    by (simp add: dequeue_def s1 on_metadata_def bind_op_def lift_result_def read_op_def return_def dequeued_def m)
  then show ?thesis using fields by (auto simp: dequeued_def m)
qed

definition sample_service where
  "sample_service = \<lparr>metadataStore = snd (createQueue list_queue_db sample_queue empty_queue_store),
     extentStore = \<lparr>ms_chunks = new_chunk_store (Some 100), ms_extents = [] :: extent_doc list_coll\<rparr>\<rparr>"

definition no_xml :: xml_parser where
  "no_xml s = Inl GenericError"

theorem enqueue_dequeue_roundtrip_witness:
  "\<exists>m s2. dequeue list_queue_db (MemoryExtentStore list_collection ''queue'') (sample_context\<lparr>ctx_startTime := 7000\<rparr>)
     (sample_fresh\<lparr>fresh_now := 7001, fresh_popReceipt := ''p2''\<rparr>) None None
     (snd (enqueue list_queue_db (MemoryExtentStore list_collection ''queue'') no_xml sample_context sample_fresh
       (Some [104, 8364]) None (Some 5) (Some 60) sample_service)) = (Inr [(m, [104, 8364])], s2)"
proof -
  let ?E = "MemoryExtentStore list_collection ''queue'' :: extent_doc list_coll memory_store IExtentStore"
  let ?X = "enqueue list_queue_db ?E no_xml sample_context sample_fresh (Some [104, 8364]) None (Some 5) (Some 60) sample_service"
  have "\<exists>m s1. ?X = (Inr m, s1) \<and> timeNextVisible m = 6000 \<and> expirationTime m = 61000"
    by (simp add: enqueue_def message_text_def op_defs enqueue_message_def enqueue_visible_at_def
        enqueue_expires_at_def queue_constants getUTF8ByteSize_def Buffer_from_def utf8_char_def on_metadata_def
        on_extents_def MemoryExtentStore_def appendExtent_def trySet_def new_chunk_store_def buffers_length_def
        insertMessage_def checkQueueExist_def find_queue_def sample_service_def createQueue_def queue_key_def
        sample_queue_def sample_context_def sample_fresh_def list_queue_simps Let_def IExtentChunk.truncate_def)
  then obtain m s1 where X: "?X = (Inr m, s1)" and m: "timeNextVisible m = 6000" "expirationTime m = 61000" by blast
  have "message_at list_queue_db (metadataStore sample_service) = (\<lambda>_. None)"
    by (simp add: message_at_def sample_service_def createQueue_def find_queue_def op_defs list_queue_simps fun_eq_iff)
  then have "\<exists>s2. dequeue list_queue_db ?E (sample_context\<lparr>ctx_startTime := 7000\<rparr>)
     (sample_fresh\<lparr>fresh_now := 7001, fresh_popReceipt := ''p2''\<rparr>) None None s1 =
     (Inr [(m\<lparr>timeNextVisible := 37000, popReceipt := ''p2'', dequeueCount := 1\<rparr>, [104, 8364])], s2)"
    using enqueue_dequeue_roundtrip [OF list_queues.queue_collections_axioms memory_extents.extent_store_axioms X,
        of "sample_context\<lparr>ctx_startTime := 7000\<rparr>" "sample_fresh\<lparr>fresh_now := 7001, fresh_popReceipt := ''p2''\<rparr>"
        None 37000 None 1]
    using m by (simp add: sample_fresh_def sample_context_def ZERO_EXTENT_ID_def scalar_def dequeue_visible_at_def
        number_of_messages_def DEFAULT_DEQUEUE_VISIBILITYTIMEOUT_def)
  then show ?thesis unfolding X snd_conv by blast
qed

end
