(* ===== verification/Spec2Isabelle.thy ===== *)
theory Spec2Isabelle
  imports Garbage_Collection Blob_Store_Effects Queue_Handlers
begin

text \<open>
  A verification library for Azurite, the emulator of Azure Storage (\<open>src/\<close>, TypeScript).

  The program. Three services (blob, queue, table) each answer HTTP requests: middleware
  authenticates a request and finds its handler, the handler validates the options and calls a
  metadata store, which keeps documents in LokiJS collections, and an extent store, which keeps the
  payload. A garbage collector removes the extents that no metadata refer to. The library models the
  logic of the stores, of the code they call and of the handlers of the queue service, as pure
  functions and state transformers translated from the sources, and proves what they guarantee. Every
  property carries its number (C1, C2, ...) in the text before its theorem.

  Conventions (theories \<open>Prelude\<close>, \<open>Storage_Errors\<close>, \<open>Loki_Collection\<close>). A function that may throw
  returns \<open>js_error + 'a\<close>; an operation on a store is a function from the state to a result and a
  state, and an error does not undo what was written before it, since documents are changed in place.
  \<open>undefined\<close> is \<open>None\<close>. Dates are milliseconds. What \<open>uuid()\<close>, \<open>newEtag()\<close> and \<open>new Date()\<close> return
  is an argument. LokiJS is not part of the repository: a collection is the record \<open>loki_collection\<close> of
  its operations, the locale \<open>loki\<close> states their documented laws, and it is interpreted on lists, on
  which all concrete instances run. The number of a document is its position; the field \<open>$loki\<close> of the
  code is that number plus one. The predicate \<open>wp\<close> carries Hoare-style reasoning about operations.

  Leases (\<open>Lease\<close>, \<open>Lease_Access\<close>; \<open>src/src/blob/lease\<close>). The five state classes with every
  transition, refined by an abstract automaton; only the holder of an unexpired lease renews, changes
  or releases it; adapters, syncers and validators of blobs and containers, the round trip through a
  stored document and the exact condition under which a write is admitted.

  Page ranges (\<open>Page_Ranges\<close>; \<open>blob/handlers/PageBlobRangesManager.ts\<close>). Merging, clearing, cutting and
  filling of ranges refine a map from positions to bytes; the binary searches return the impacted
  ranges.

  Tag queries (\<open>Tag_Query\<close>; \<open>blob/persistence/QueryInterpreter\<close>). Scanner, parser and evaluation: the
  parser reads back what a printer of the grammar writes, evaluation is the reference semantics, the
  parser ends on every input (its recursion is bounded by fuel that the number of characters provides,
  which is proved to be enough), and the limits on the number of conditions.

  Conditional headers (\<open>Conditions\<close>; \<open>blob/conditions\<close>). The read and the write validator against the
  documented formula of etags and dates.

  Listing (\<open>Blob_Listing\<close>; \<open>blob/persistence/PageWithDelimiter.ts\<close> and the listing operations). Pages
  with delimiters, and that following the markers lists every matching blob exactly once.

  The blob metadata store (\<open>Blob_Model\<close>, \<open>Blob_Store\<close>, \<open>Blob_Operations\<close>;
  \<open>blob/persistence/LokiBlobMetadataStore.ts\<close>). Documents, containers, blobs, snapshots, staged blocks,
  pages, copies; arrays that two documents can share are kept in the state beside the collections.
  \<open>Blob_Store_Invariant\<close> and \<open>Blob_Store_Steps\<close> prove that every operation keeps the invariant and
  that a refused request has no effect; \<open>Blob_Store_Properties\<close> and \<open>Blob_Store_Effects\<close> what requests
  achieve.

  Extents (\<open>Extent_Store\<close>; \<open>common/persistence/MemoryExtentStore.ts\<close>, \<open>LokiExtentMetadataStore.ts\<close>).
  The shared chunk store with its size accounting, writing and reading of extents across chunk
  boundaries, the metadata of extents. The locale \<open>extent_store\<close> states what the services rely on and is
  interpreted on this store.

  Garbage collection (\<open>Garbage_Collection\<close>; \<open>blob/gc\<close>, \<open>queue/gc\<close> and the iterators). A run deletes
  exactly the extents that are not referred to; and what happens when the manager is closed meanwhile.

  The queue service (\<open>Queue_Store\<close>, \<open>Queue_Properties\<close>, \<open>Queue_Handlers\<close>;
  \<open>queue/persistence/LokiQueueMetadataStore.ts\<close>, \<open>queue/handlers\<close>). Queues and messages with all
  operations as requests of a run: the invariant of the store, which messages a dequeue takes, that they
  stay hidden until their time, pop receipts; the handlers with their limits, and the round trip of a text
  through UTF-8, the extent store and the metadata store. The locale \<open>queue_collections\<close> is interpreted on
  lists.

  Not modelled. Requests are executed one after the other: the interleaving of handlers at their
  \<open>await\<close>s is left out. The generated protocol layer, the SQL metadata store (its logic is in statements
  for a database), the extent store on disk, servers and command line, the editor extension, logging and
  telemetry, and the computation of signatures are input and output or calls into libraries.
  The components and the reasons are listed in the manifest.
\<close>

end
